(* ===== verification/Prelude.thy ===== *)
theory Prelude
  imports Main "HOL-Library.Sublist" "HOL-Library.Word"
begin

text \<open>
  Shared vocabulary of the development: Go's 64-bit integers with their wrap-around,
  the collections of facts the component theories add to, and generic lemmas on lists
  and association lists.
\<close>

named_theorems range_facts \<open>facts that a value lies in the int64 range\<close>
named_theorems table_simps \<open>lookups in keyed tables after an operation\<close>

section \<open>Machine integers\<close>

text \<open>
  Go's \<open>int64\<close> is modelled by \<^typ>\<open>int\<close>; every operation of the code that can
  leave the range goes through \<open>i64\<close>, the two's complement wrap-around.
\<close>

definition i64_min :: int where "i64_min = - (2 ^ 63)"

definition i64_max :: int where "i64_max = 2 ^ 63 - 1"

definition in_i64 :: "int \<Rightarrow> bool" where
  "in_i64 x \<longleftrightarrow> i64_min \<le> x \<and> x \<le> i64_max"

definition i64 :: "int \<Rightarrow> int" where
  "i64 x = (x + 2 ^ 63) mod 2 ^ 64 - 2 ^ 63"

lemmas i64_bounds = i64_min_def i64_max_def in_i64_def

lemma in_i64_i64 [simp, range_facts]: "in_i64 (i64 x)"
proof -
  have "0 \<le> (x + 2 ^ 63) mod 2 ^ 64" "(x + 2 ^ 63) mod 2 ^ 64 < (2 ^ 64 :: int)"
    by simp_all
  then show ?thesis by (simp add: i64_bounds i64_def)
qed

lemma i64_id: "in_i64 x \<Longrightarrow> i64 x = x"
  by (simp add: i64_bounds i64_def)

lemma i64_idem [simp]: "i64 (i64 x) = i64 x"
  by (simp add: i64_id)

lemma i64_cong: "x mod 2 ^ 64 = y mod 2 ^ 64 \<Longrightarrow> i64 x = i64 y"
  unfolding i64_def by (metis mod_add_left_eq)

text \<open>The wrap-around is the signed reading of a 64-bit word.\<close>

lemma i64_eq_sint: "i64 x = sint (word_of_int x :: 64 word)"
  by (simp add: i64_def sint_sbintrunc' signed_take_bit_eq_take_bit_shift take_bit_eq_mod)

lemma in_i64_0 [simp, range_facts]: "in_i64 0"
  by (simp add: i64_bounds)

lemma in_i64_mono: "in_i64 x \<Longrightarrow> 0 \<le> y \<Longrightarrow> y \<le> x \<Longrightarrow> in_i64 y"
  by (simp add: i64_bounds)

section \<open>Lists\<close>

lemma sum_list_map_filter_split:
  "sum_list (map f xs) =
   sum_list (map f (filter P xs)) + (sum_list (map f (filter (\<lambda>x. \<not> P x) xs)) :: int)"
  by (induction xs) auto

lemma filter_eq_Nil_iff: "filter P xs = [] \<longleftrightarrow> (\<forall>x \<in> set xs. \<not> P x)"
  by (simp add: filter_empty_conv)

lemma foldl_append_concat: "foldl (\<lambda>acc x. acc @ f x) acc xs = acc @ concat (map f xs)"
  by (induction xs arbitrary: acc) auto

lemma span_append: "takeWhile P xs @ dropWhile P xs = xs"
  by simp

lemma length_dropWhile_less: "length (dropWhile P xs) < Suc (length xs)"
  by (simp add: length_dropWhile_le le_imp_less_Suc)

lemma dropWhile_Cons_length: "dropWhile P xs = y # ys \<Longrightarrow> length ys < length xs"
  by (metis Suc_le_eq length_Cons length_dropWhile_le)

section \<open>Association lists\<close>

text \<open>
  \<open>put k v m\<close> is Go's \<open>m[k] = v\<close> on a map kept as an association list: it
  replaces the entry in place or appends a new one.
\<close>

fun put :: "'k \<Rightarrow> 'v \<Rightarrow> ('k \<times> 'v) list \<Rightarrow> ('k \<times> 'v) list" where
  "put k v [] = [(k, v)]"
| "put k v ((k', v') # m) = (if k = k' then (k, v) # m else (k', v') # put k v m)"

lemma map_of_put [simp, table_simps]: "map_of (put k v m) = (map_of m)(k \<mapsto> v)"
  by (induction m) auto

lemma map_fst_put:
  "map fst (put k v m) = (if k \<in> fst ` set m then map fst m else map fst m @ [k])"
  by (induction m) force+

lemma keys_put: "fst ` set (put k v m) = insert k (fst ` set m)"
  using arg_cong [OF map_fst_put [of k v m], of set] by (auto split: if_splits)

lemma distinct_put [simp]:
  "distinct (map fst m) \<Longrightarrow> distinct (map fst (put k v m))"
  by (simp add: map_fst_put)

lemma put_neq_Nil [simp]: "put k v m \<noteq> []"
  by (cases m) (auto split: if_splits)

end
