(* ===== verification/Rollup.thy ===== *)
theory Rollup
  imports Prelude "HOL-Library.Multiset"
begin

text \<open>
  The shape shared by the two ingest statements of \<open>server/store.go\<close> (\<open>insertSQL\<close> and
  \<open>editInsertSQL\<close>): insert a batch of keyed rows with \<open>ON CONFLICT DO NOTHING\<close>, group the
  rows that were accepted, and add the group totals to a daily table. A table is an
  association list with distinct keys; only its \<^term>\<open>map_of\<close> matters. The interface
  \<open>rollup\<close> asks of the columns' addition that it is associative and commutative, and
  gives that the daily table stays the grouping of the detail table.
\<close>

section \<open>The statements\<close>

text \<open>\<open>INSERT \<dots> ON CONFLICT (key) DO NOTHING RETURNING \<dots>\<close>: the table and the accepted rows.\<close>

fun insert_new :: "('k \<times> 'r) list \<Rightarrow> ('k \<times> 'r) list \<Rightarrow> ('k \<times> 'r) list \<times> ('k \<times> 'r) list" where
  "insert_new t [] = (t, [])"
| "insert_new t ((k, r) # rows) =
     (if map_of t k \<noteq> None then insert_new t rows
      else (let (t', acc) = insert_new (t @ [(k, r)]) rows in (t', (k, r) # acc)))"

text \<open>\<open>ON CONFLICT (key) DO UPDATE SET col = table.col + EXCLUDED.col\<close>.\<close>

definition upsert :: "('v \<Rightarrow> 'v \<Rightarrow> 'v) \<Rightarrow> ('g \<times> 'v) list \<Rightarrow> 'g \<times> 'v \<Rightarrow> ('g \<times> 'v) list" where
  "upsert add m = (\<lambda>(g, v). put g (case map_of m g of None \<Rightarrow> v | Some w \<Rightarrow> add w v) m)"

definition upsert_all :: "('v \<Rightarrow> 'v \<Rightarrow> 'v) \<Rightarrow> ('g \<times> 'v) list \<Rightarrow> ('g \<times> 'v) list \<Rightarrow> ('g \<times> 'v) list" where
  "upsert_all add m rows = foldl (upsert add) m rows"

text \<open>\<open>SELECT \<dots> SUM(\<dots>) \<dots> GROUP BY \<dots>\<close>: each row is first turned into its group and summands.\<close>

definition group_rows :: "('v \<Rightarrow> 'v \<Rightarrow> 'v) \<Rightarrow> ('k \<times> 'r \<Rightarrow> 'g \<times> 'v) \<Rightarrow> ('k \<times> 'r) list \<Rightarrow> ('g \<times> 'v) list" where
  "group_rows add proj rows = upsert_all add [] (map proj rows)"

text \<open>
  The whole statement: \<open>None\<close> when a sum leaves its column type, which aborts it; otherwise
  the number of accepted rows and the two tables.
\<close>

definition ingest_rows ::
    "('v \<Rightarrow> 'v \<Rightarrow> 'v) \<Rightarrow> ('v \<Rightarrow> bool) \<Rightarrow> ('k \<times> 'r \<Rightarrow> 'g \<times> 'v) \<Rightarrow> ('k \<times> 'r) list \<Rightarrow>
     ('k \<times> 'r) list \<times> ('g \<times> 'v) list \<Rightarrow> (int \<times> ('k \<times> 'r) list \<times> ('g \<times> 'v) list) option" where
  "ingest_rows add fits proj rows = (\<lambda>(detail, daily).
     let (detail', ins) = insert_new detail rows;
         agg = group_rows add proj ins;
         daily' = upsert_all add daily agg
     in if list_all (\<lambda>(g, v). fits v \<and> (\<forall>w \<in> set_option (map_of daily' g). fits w)) agg
        then Some (int (length ins), detail', daily') else None)"

section \<open>Inserting\<close>

lemma insert_new_cases:
  assumes "insert_new t ((k, r) # rows) = (t', acc)"
  obtains (dup) x where "map_of t k = Some x" "insert_new t rows = (t', acc)"
  | (new) acc' where "map_of t k = None" "insert_new (t @ [(k, r)]) rows = (t', acc')" "acc = (k, r) # acc'"
  using assms by (cases "map_of t k") (auto split: prod.splits)

lemma insert_new_append:
  "insert_new t rows = (t', acc) \<Longrightarrow> t' = t @ acc"
proof (induction t rows arbitrary: t' acc rule: insert_new.induct)
  case (2 t k r rows)
  from 2(3) show ?case by (cases rule: insert_new_cases) (use 2(1,2) in auto)
qed simp


text \<open>The table keeps what it had and takes the first row of each new key.\<close>

lemma insert_new_lookup:
  "insert_new t rows = (t', acc) \<Longrightarrow> map_of t' k = (case map_of t k of Some r \<Rightarrow> Some r | None \<Rightarrow> map_of rows k)"
proof (induction t rows arbitrary: t' acc rule: insert_new.induct)
  case (2 t k' r rows)
  from 2(3) show ?case
  proof (cases rule: insert_new_cases)
    case (dup x)
    with 2(1) show ?thesis by (auto split: option.splits)
  next
    case (new acc')
    with 2(2) show ?thesis by (auto simp: map_add_def split: option.splits)
  qed
qed (auto split: option.splits)

lemma insert_new_distinct:
  "insert_new t rows = (t', acc) \<Longrightarrow> distinct (map fst t) \<Longrightarrow> distinct (map fst t')"
proof (induction t rows arbitrary: t' acc rule: insert_new.induct)
  case (2 t k r rows)
  from 2(3) show ?case
  proof (cases rule: insert_new_cases)
    case (new acc')
    then have "k \<notin> fst ` set t" by (simp add: map_of_eq_None_iff)
    with new 2(2,4) show ?thesis by simp
  qed (use 2(1,4) in auto)
qed simp

lemma insert_new_known:
  "(\<And>k r. (k, r) \<in> set rows \<Longrightarrow> map_of t k \<noteq> None) \<Longrightarrow> insert_new t rows = (t, [])"
proof (induction rows)
  case (Cons x rows)
  then show ?case by (cases x) force
qed simp

lemma insert_new_subset:
  "insert_new t rows = (t', acc) \<Longrightarrow> length acc \<le> length rows \<and> set acc \<subseteq> set rows"
proof (induction t rows arbitrary: t' acc rule: insert_new.induct)
  case (2 t k r rows)
  from 2(3) show ?case by (cases rule: insert_new_cases) (use 2(1,2) in fastforce)+
qed simp

lemma insert_new_keys:
  assumes "insert_new t rows = (t', acc)" "(k, r) \<in> set rows"
  shows "map_of t' k \<noteq> None"
proof -
  have "map_of rows k \<noteq> None" using assms(2) by (metis map_of_eq_None_iff fst_conv imageI)
  with insert_new_lookup [OF assms(1), of k] show ?thesis by (auto split: option.splits)
qed

section \<open>Totals\<close>

text \<open>The total of a list of summands; nothing has no row.\<close>

fun total :: "('v \<Rightarrow> 'v \<Rightarrow> 'v) \<Rightarrow> 'v list \<Rightarrow> 'v option" where
  "total add [] = None"
| "total add (v # vs) = Some (foldl add v vs)"

definition combine :: "('v \<Rightarrow> 'v \<Rightarrow> 'v) \<Rightarrow> 'v option \<Rightarrow> 'v option \<Rightarrow> 'v option" where
  "combine add a b =
     (case a of None \<Rightarrow> b | Some x \<Rightarrow> (case b of None \<Rightarrow> a | Some y \<Rightarrow> Some (add x y)))"

definition values_at :: "'g \<Rightarrow> ('g \<times> 'v) list \<Rightarrow> 'v list" where
  "values_at g rows = map snd (filter (\<lambda>x. fst x = g) rows)"

lemma values_at_simps [simp]:
  "values_at g [] = []"
  "values_at g ((g', v) # rows) = (if g' = g then v # values_at g rows else values_at g rows)"
  "values_at g (a @ b) = values_at g a @ values_at g b"
  by (simp_all add: values_at_def)

lemma combine_None [simp]: "combine add None b = b" "combine add a None = a"
  by (auto simp: combine_def split: option.splits)

lemma map_of_upsert:
  "map_of (upsert add m (g', v)) g =
     (if g = g' then combine add (map_of m g) (Some v) else map_of m g)"
  by (auto simp: upsert_def combine_def split: option.splits)

lemma upsert_all_simps [simp]:
  "upsert_all add m [] = m"
  "upsert_all add m (x # rows) = upsert_all add (upsert add m x) rows"
  by (simp_all add: upsert_all_def)

lemma distinct_upsert_all:
  "distinct (map fst m) \<Longrightarrow> distinct (map fst (upsert_all add m rows))"
  by (induction rows arbitrary: m) (auto simp: upsert_def split: prod.split)

lemma map_of_upsert_all:
  "map_of (upsert_all add m rows) g =
     (case map_of m g of None \<Rightarrow> total add (values_at g rows)
      | Some w \<Rightarrow> Some (foldl add w (values_at g rows)))"
proof (induction rows arbitrary: m)
  case (Cons x rows)
  obtain g' v where "x = (g', v)" by force
  with Cons [of "upsert add m x"] show ?case
    by (auto simp: map_of_upsert combine_def split: option.splits)
qed (simp split: option.split)

lemma values_at_distinct:
  "distinct (map fst rows) \<Longrightarrow> values_at g rows = (case map_of rows g of None \<Rightarrow> [] | Some v \<Rightarrow> [v])"
proof (induction rows)
  case (Cons x rows)
  obtain g' v where x: "x = (g', v)" by force
  show ?case
  proof (cases "g' = g")
    case True
    with Cons x have "map_of rows g = None" by (auto simp: map_of_eq_None_iff)
    with True Cons x show ?thesis by simp
  next
    case False
    with Cons x show ?thesis by simp
  qed
qed simp

lemma map_of_group_rows:
  "map_of (group_rows add proj rows) g = total add (values_at g (map proj rows))"
  by (simp add: group_rows_def map_of_upsert_all)

lemma distinct_group_rows: "distinct (map fst (group_rows add proj rows))"
  by (simp add: group_rows_def distinct_upsert_all)

text \<open>Grouping keeps every measure that adds up within a group.\<close>

lemma sum_upsert_all:
  fixes f :: "'g \<Rightarrow> 'v \<Rightarrow> 'n :: comm_monoid_add"
  assumes f: "\<And>g a b. f g (add a b) = f g a + f g b"
  shows "(\<Sum>(g, v)\<leftarrow>upsert_all add m rows. f g v) = (\<Sum>(g, v)\<leftarrow>m. f g v) + (\<Sum>(g, v)\<leftarrow>rows. f g v)"
proof (induction rows arbitrary: m)
  case (Cons x rows)
  obtain g v where x: "x = (g, v)" by force
  have "(\<Sum>(g, v)\<leftarrow>upsert add m x. f g v) = (\<Sum>(g, v)\<leftarrow>m. f g v) + f g v"
    unfolding x by (induction m) (auto simp: upsert_def f ac_simps)
  with Cons show ?case by (simp add: x add.assoc)
qed simp

lemma sum_group_rows:
  fixes f :: "'g \<Rightarrow> 'v \<Rightarrow> 'n :: comm_monoid_add"
  assumes "\<And>g a b. f g (add a b) = f g a + f g b"
  shows "(\<Sum>(g, v)\<leftarrow>group_rows add proj rows. f g v) = (\<Sum>x\<leftarrow>rows. f (fst (proj x)) (snd (proj x)))"
  using sum_upsert_all [of f add, OF assms, of "[]" "map proj rows"]
  by (simp add: group_rows_def comp_def case_prod_beta)

lemma sum_group_rows_snd:
  fixes f :: "'v \<Rightarrow> 'n :: comm_monoid_add"
  assumes "\<And>a b. f (add a b) = f a + f b"
  shows "(\<Sum>x\<leftarrow>group_rows add proj rows. f (snd x)) = (\<Sum>x\<leftarrow>rows. f (snd (proj x)))"
  using sum_group_rows [of "\<lambda>_. f" add, OF assms, of proj rows] by (simp add: case_prod_unfold)

lemma group_rows_keys:
  assumes "x \<in> set (group_rows add proj rows)"
  shows "\<exists>r \<in> set rows. fst x = fst (proj r)"
proof -
  have "map_of (group_rows add proj rows) (fst x) \<noteq> None"
    using assms by (metis imageI map_of_eq_None_iff)
  then have "values_at (fst x) (map proj rows) \<noteq> []" by (auto simp: map_of_group_rows)
  then obtain y where "y \<in> set (map proj rows)" "fst y = fst x"
    by (metis (mono_tags, lifting) filter_False list.simps(8) values_at_def)
  moreover from this(1) obtain r where "r \<in> set rows" "y = proj r" by (metis imageE list.set_map)
  ultimately show ?thesis by (intro bexI [of _ r]) simp_all
qed

lemma sum_list_mset: "mset xs = mset ys \<Longrightarrow> (\<Sum>x\<leftarrow>xs. f x) = (\<Sum>x\<leftarrow>ys. f x :: 'a :: comm_monoid_add)"
  by (metis mset_map sum_mset_sum_list)

text \<open>The daily table holds exactly the groups of the detail table.\<close>

definition rolled_up ::
    "('v \<Rightarrow> 'v \<Rightarrow> 'v) \<Rightarrow> ('k \<times> 'r \<Rightarrow> 'g \<times> 'v) \<Rightarrow> ('k \<times> 'r) list \<times> ('g \<times> 'v) list \<Rightarrow> bool" where
  "rolled_up add proj = (\<lambda>(detail, daily).
     distinct (map fst detail) \<and> distinct (map fst daily) \<and>
     map_of daily = map_of (group_rows add proj detail))"

lemma mset_eq_setD': "mset a = mset b \<Longrightarrow> set a = set b"
  by (metis set_mset_mset)

lemma distinct_map_of_mset:
  assumes "distinct (map fst xs)" "distinct (map fst ys)" "map_of xs = map_of ys"
  shows "mset xs = mset ys"
proof -
  have "set xs = set ys"
    using assms by (metis map_of_eq_Some_iff subsetI subset_antisym surj_pair)
  with assms(1,2) show ?thesis
    by (metis distinct_map set_eq_iff_mset_eq_distinct)
qed

lemma values_at_mset: "mset xs = mset ys \<Longrightarrow> mset (values_at g (map f xs)) = mset (values_at g (map f ys))"
  by (simp add: values_at_def)

lemma rolled_up_sum:
  fixes f :: "'g \<Rightarrow> 'v \<Rightarrow> 'n :: comm_monoid_add"
  assumes "rolled_up add proj (detail, daily)" "\<And>g a b. f g (add a b) = f g a + f g b"
  shows "(\<Sum>(g, v)\<leftarrow>daily. f g v) = (\<Sum>x\<leftarrow>detail. f (fst (proj x)) (snd (proj x)))"
proof -
  have "mset daily = mset (group_rows add proj detail)"
    using assms(1) distinct_group_rows by (intro distinct_map_of_mset) (auto simp: rolled_up_def)
  from sum_list_mset [OF this, of "\<lambda>(g, v). f g v"] sum_group_rows [of f add, OF assms(2)]
  show ?thesis by simp
qed

section \<open>The interface\<close>

locale rollup =
  fixes add :: "'v \<Rightarrow> 'v \<Rightarrow> 'v"
  assumes assoc: "add (add a b) c = add a (add b c)"
    and commute: "add a b = add b a"
begin

lemma foldl_add: "foldl add (add a b) vs = add a (foldl add b vs)"
  by (induction vs arbitrary: b) (simp_all add: assoc)

lemma total_append: "total add (a @ b) = combine add (total add a) (total add b)"
proof (cases a)
  case (Cons x xs)
  show ?thesis
  proof (cases b)
    case (Cons y ys)
    with \<open>a = x # xs\<close> show ?thesis by (simp add: combine_def foldl_add)
  qed (simp add: Cons)
qed simp

lemma total_mset: "mset a = mset b \<Longrightarrow> total add a = total add b"
proof (induction a arbitrary: b)
  case (Cons x a)
  have "x \<in> set b" using mset_eq_setD' [OF Cons.prems] by auto
  then obtain u v where b: "b = u @ x # v" by (metis split_list)
  with Cons.prems have "mset a = mset (u @ v)" by simp
  then have a: "total add a = combine add (total add u) (total add v)"
    using Cons.IH [of "u @ v"] total_append [of u v] by simp
  have cons: "total add (y # ys) = combine add (Some y) (total add ys)" for y ys
    using total_append [of "[y]" ys] by simp
  have "combine add (Some x) (combine add p q) = combine add p (combine add (Some x) q)" for p q
    using assoc commute by (auto simp: combine_def split: option.splits)
  then show ?case by (simp only: b total_append cons a)
qed simp

lemma combine_assoc:
  "combine add (combine add a b) c = combine add a (combine add b c)"
  by (auto simp: combine_def assoc split: option.splits)

lemma upsert_group:
  "map_of (upsert_all add daily (group_rows add proj ins)) g =
   combine add (map_of daily g) (total add (values_at g (map proj ins)))"
  by (auto simp: map_of_upsert_all values_at_distinct [OF distinct_group_rows] map_of_group_rows
      combine_def split: option.splits)

text \<open>What a statement keeps of the tables.\<close>

lemma ingest_rolled_up:
  assumes "rolled_up add proj tabs" "ingest_rows add fits proj rows tabs = Some (n, tabs')"
  shows "rolled_up add proj tabs'"
proof -
  obtain detail daily where t: "tabs = (detail, daily)" by force
  obtain detail' ins where ins: "insert_new detail rows = (detail', ins)" by force
  have tabs': "tabs' = (detail', upsert_all add daily (group_rows add proj ins))"
    using assms(2) ins by (auto simp: ingest_rows_def t Let_def split: if_splits)
  have old: "distinct (map fst detail)" "distinct (map fst daily)"
    "map_of daily = map_of (group_rows add proj detail)"
    using assms(1) by (auto simp: rolled_up_def t)
  have "map_of (upsert_all add daily (group_rows add proj ins)) g =
      map_of (group_rows add proj detail') g" for g
    using insert_new_append [OF ins]
    by (simp add: upsert_group old(3) map_of_group_rows total_append)
  then show ?thesis
    using old insert_new_distinct [OF ins] by (auto simp: rolled_up_def tabs' distinct_upsert_all)
qed

text \<open>
  Grouping a table that is itself a grouping: a coarser key (or none, for a row that is
  filtered out) over the daily table gives the totals of that key over the detail rows.
\<close>

lemma total_Cons: "total add (y # ys) = combine add (Some y) (total add ys)"
  using total_append [of "[y]" ys] by simp

lemma combine_left_commute:
  "combine add a (combine add b c) = combine add b (combine add a c)"
  using assoc commute by (auto simp: combine_def split: option.splits)

lemma regroup_put:
  "distinct (map fst m) \<Longrightarrow>
   total add (values_at k (map (\<lambda>(g, v). (h g, v)) (upsert add m (g0, v0)))) =
   combine add (total add (values_at k (map (\<lambda>(g, v). (h g, v)) m)))
     (if h g0 = k then Some v0 else None)"
proof (induction m)
  case Nil
  then show ?case by (simp add: upsert_def)
next
  case (Cons x m)
  obtain g v where x: "x = (g, v)" by force
  show ?case
  proof (cases "g = g0")
    case True
    have "combine add (Some (add v v0)) c = combine add (combine add (Some v) c) (Some v0)" for c
      using assoc commute by (auto simp: combine_def split: option.splits)
    with True show ?thesis by (auto simp: x upsert_def total_Cons simp del: total.simps)
  next
    case False
    then have "upsert add (x # m) (g0, v0) = x # upsert add m (g0, v0)"
      by (simp add: x upsert_def)
    with Cons show ?thesis
      by (auto simp: x total_Cons combine_assoc simp del: total.simps)
  qed
qed

lemma regroup_upsert_all:
  "distinct (map fst m) \<Longrightarrow>
   total add (values_at k (map (\<lambda>(g, v). (h g, v)) (upsert_all add m rows))) =
   combine add (total add (values_at k (map (\<lambda>(g, v). (h g, v)) m)))
     (total add (values_at k (map (\<lambda>(g, v). (h g, v)) rows)))"
proof (induction rows arbitrary: m)
  case (Cons x rows)
  obtain g v where x: "x = (g, v)" by force
  have "distinct (map fst (upsert add m x))" using Cons.prems by (simp add: upsert_def x)
  with Cons.IH Cons.prems regroup_put [of m k h g v] show ?case
    by (auto simp: x combine_assoc total_Cons simp del: total.simps)
qed simp

lemma regroup:
  assumes "rolled_up add proj (detail, daily)"
  shows "map_of (group_rows add (\<lambda>(g, v). (key g, v)) (filter (\<lambda>(g, _). P g) daily)) k =
    total add (values_at k (map (\<lambda>x. (key (fst (proj x)), snd (proj x)))
      (filter (\<lambda>x. P (fst (proj x))) detail)))"
proof -
  define h where "h g = (if P g then Some (key g) else None)" for g
  have lift: "values_at k (map (\<lambda>(g, v). (key g, v)) (filter (\<lambda>(g, _). P g) rows)) =
      values_at (Some k) (map (\<lambda>(g, v). (h g, v)) rows)" for rows
    by (induction rows) (auto simp: h_def)
  have "mset daily = mset (group_rows add proj detail)"
    using assms distinct_group_rows by (intro distinct_map_of_mset) (auto simp: rolled_up_def)
  then have "total add (values_at (Some k) (map (\<lambda>(g, v). (h g, v)) daily)) =
      total add (values_at (Some k) (map (\<lambda>(g, v). (h g, v)) (group_rows add proj detail)))"
    by (intro total_mset values_at_mset)
  also have "\<dots> = total add (values_at (Some k) (map (\<lambda>(g, v). (h g, v)) (map proj detail)))"
    by (simp add: group_rows_def regroup_upsert_all)
  also have "values_at (Some k) (map (\<lambda>(g, v). (h g, v)) (map proj detail)) =
      values_at k (map (\<lambda>x. (key (fst (proj x)), snd (proj x))) (filter (\<lambda>x. P (fst (proj x))) detail))"
    by (induction detail) (auto simp: h_def split: prod.split)
  finally show ?thesis by (simp add: map_of_group_rows lift)
qed

end

text \<open>A batch whose keys are all known changes nothing, whatever its rows say.\<close>

lemma ingest_known:
  assumes "\<And>k r. (k, r) \<in> set rows \<Longrightarrow> map_of detail k \<noteq> None"
  shows "ingest_rows add fits proj rows (detail, daily) = Some (0, detail, daily)"
  by (simp add: ingest_rows_def insert_new_known [OF assms] group_rows_def)

lemma ingest_lookup:
  assumes "ingest_rows add fits proj rows (detail, daily) = Some (n, detail', daily')"
  shows "map_of detail' k = (case map_of detail k of Some r \<Rightarrow> Some r | None \<Rightarrow> map_of rows k)"
    and "int (length detail') = int (length detail) + n" "0 \<le> n" "n \<le> int (length rows)"
    and "distinct (map fst detail) \<Longrightarrow> distinct (map fst detail')"
proof -
  obtain ins where ins: "insert_new detail rows = (detail', ins)" "n = int (length ins)"
    using assms by (auto simp: ingest_rows_def Let_def split: prod.splits if_splits)
  show "map_of detail' k = (case map_of detail k of Some r \<Rightarrow> Some r | None \<Rightarrow> map_of rows k)"
    by (rule insert_new_lookup [OF ins(1)])
  show "int (length detail') = int (length detail) + n" "0 \<le> n"
    using insert_new_append [OF ins(1)] ins(2) by auto
  show "n \<le> int (length rows)" using insert_new_subset [OF ins(1)] ins(2) by simp
  show "distinct (map fst detail) \<Longrightarrow> distinct (map fst detail')"
    by (rule insert_new_distinct [OF ins(1)])
qed

lemma ingest_keys:
  assumes "ingest_rows add fits proj rows (detail, daily) = Some (n, detail', daily')"
    and "(k, r) \<in> set rows"
  shows "map_of detail' k \<noteq> None"
  using assms insert_new_keys by (fastforce simp: ingest_rows_def Let_def split: prod.splits if_splits)

end
