(* ===== verification/GoTime.thy ===== *)
theory GoTime
  imports GoStrings
begin

text \<open>
  Go's \<open>time\<close> package as the program uses it. An instant is the number of nanoseconds
  since 1970-01-01 UTC, a \<open>Duration\<close> a number of nanoseconds; the zone an instant was
  written with does not change it. \<open>time.Parse(time.RFC3339Nano, s)\<close> is the parser Go
  runs first for this layout; of the general parser it falls back to, only the forms
  both accept are modelled.
\<close>

type_synonym gotime = int
type_synonym duration = int

section \<open>The calendar\<close>

definition leap_year :: "int \<Rightarrow> bool" where
  "leap_year y \<longleftrightarrow> y mod 4 = 0 \<and> (y mod 100 \<noteq> 0 \<or> y mod 400 = 0)"

definition days_in :: "int \<Rightarrow> int \<Rightarrow> int" where
  "days_in m y =
     (if m = 2 then (if leap_year y then 29 else 28)
      else if m \<in> {4, 6, 9, 11} then 30 else 31)"

text \<open>
  Days from 1970-01-01 to a date of the proleptic Gregorian calendar, counting years
  from March so that the leap day ends a year.
\<close>

definition days_from_civil :: "int \<Rightarrow> int \<Rightarrow> int \<Rightarrow> int" where
  "days_from_civil y m d =
     (let y' = (if m \<le> 2 then y - 1 else y);
          mp = (m + 9) mod 12;
          doy = (153 * mp + 2) div 5 + d - 1
      in 365 * y' + y' div 4 - y' div 100 + y' div 400 + doy - 719468)"

abbreviation ns_per_sec :: int where "ns_per_sec \<equiv> 1000000000"

definition day_ns :: int where "day_ns = 86400 * 1000000000"

text \<open>\<open>time.Date(\<dots>, time.UTC)\<close>.\<close>

definition date_utc :: "int \<Rightarrow> int \<Rightarrow> int \<Rightarrow> int \<Rightarrow> int \<Rightarrow> int \<Rightarrow> int \<Rightarrow> gotime" where
  "date_utc y mo d h mi s ns =
     (days_from_civil y mo d * 86400 + h * 3600 + mi * 60 + s) * ns_per_sec + ns"

text \<open>The zero \<open>time.Time\<close> is 0001-01-01 00:00:00 UTC.\<close>

definition zero_time :: gotime where "zero_time = date_utc 1 1 1 0 0 0 0"

definition is_zero :: "gotime \<Rightarrow> bool" where "is_zero t \<longleftrightarrow> t = zero_time"

definition epoch :: gotime where "epoch = 0"

definition unix_milli :: "int \<Rightarrow> gotime" where "unix_milli ms = ms * 1000000"

text \<open>\<open>t.Sub(u)\<close> saturates at the ends of the \<open>int64\<close> range.\<close>

definition time_sub :: "gotime \<Rightarrow> gotime \<Rightarrow> duration" where
  "time_sub t u = max i64_min (min i64_max (t - u))"

text \<open>The UTC day an instant falls on, as a day number.\<close>

definition utc_day_no :: "gotime \<Rightarrow> int" where "utc_day_no t = t div day_ns"

section \<open>Parsing RFC 3339\<close>

text \<open>\<open>parseUint(s, min, max)\<close>.\<close>

definition parse_uint :: "string \<Rightarrow> int \<Rightarrow> int \<Rightarrow> int option" where
  "parse_uint s lo hi =
     (if list_all is_digit s \<and> lo \<le> dec_val s \<and> dec_val s \<le> hi then Some (dec_val s) else None)"

definition slice :: "string \<Rightarrow> nat \<Rightarrow> nat \<Rightarrow> string" where
  "slice s i j = take (j - i) (drop i s)"

text \<open>The nanoseconds of a digit string after the decimal point: digits past the ninth are cut.\<close>

definition parse_nanos :: "string \<Rightarrow> int" where
  "parse_nanos ds = dec_val (take 9 (ds @ replicate (9 - length ds) (CHR ''0'')))"

definition parse_zone :: "string \<Rightarrow> int option" where
  "parse_zone s =
     (if s = ''Z'' then Some 0
      else if length s \<noteq> 6 then None
      else case (parse_uint (slice s 1 3) 0 23, parse_uint (slice s 4 6) 0 59) of
        (Some hr, Some mm) \<Rightarrow>
          if (hd s = CHR ''-'' \<or> hd s = CHR ''+'') \<and> s ! 3 = CHR '':''
          then Some ((if hd s = CHR ''-'' then - 1 else 1) * (hr * 60 + mm) * 60)
          else None
      | _ \<Rightarrow> None)"

definition parse_rfc3339 :: "string \<Rightarrow> gotime option" where
  "parse_rfc3339 s =
     (if length s < 19 then None
      else case (parse_uint (slice s 0 4) 0 9999, parse_uint (slice s 5 7) 1 12) of
        (Some y, Some mo) \<Rightarrow>
          (case (parse_uint (slice s 8 10) 1 (days_in mo y), parse_uint (slice s 11 13) 0 23,
                 parse_uint (slice s 14 16) 0 59, parse_uint (slice s 17 19) 0 59) of
             (Some d, Some h, Some mi, Some sec) \<Rightarrow>
               if \<not> (s ! 4 = CHR ''-'' \<and> s ! 7 = CHR ''-'' \<and> s ! 10 = CHR ''T'' \<and>
                     s ! 13 = CHR '':'' \<and> s ! 16 = CHR '':'') then None
               else
                 (let r = drop 19 s;
                      frac = (if 2 \<le> length r \<and> hd r = CHR ''.'' \<and> is_digit (r ! 1)
                              then takeWhile is_digit (tl r) else []);
                      z = (if frac = [] then r else drop (Suc (length frac)) r)
                  in case parse_zone z of
                       None \<Rightarrow> None
                     | Some off \<Rightarrow>
                         Some (date_utc y mo d h mi sec (parse_nanos frac) - off * ns_per_sec))
           | _ \<Rightarrow> None)
      | _ \<Rightarrow> None)"

text \<open>\<open>ts, _ := time.Parse(\<dots>)\<close>: the zero time when the text does not parse.\<close>

definition parse_time :: "string \<Rightarrow> gotime" where
  "parse_time s = (case parse_rfc3339 s of Some t \<Rightarrow> t | None \<Rightarrow> zero_time)"

lemma parse_rfc3339_examples:
  "parse_rfc3339 ''1970-01-01T00:00:00Z'' = Some 0"
  "parse_rfc3339 ''2026-07-01T10:00:02.000Z'' = Some 1782900002000000000"
  "parse_rfc3339 ''2026-07-01T12:00:02.5+02:00'' = Some 1782900002500000000"
  "parse_rfc3339 ''2026-02-29T00:00:00Z'' = None"
  "parse_rfc3339 ''2026-07-01'' = None"
  by code_simp+

lemma time_sub_bounds [range_facts]: "in_i64 (time_sub t u)"
  by (simp add: time_sub_def i64_bounds)

lemma time_sub_exact: "in_i64 (t - u) \<Longrightarrow> time_sub t u = t - u"
  by (simp add: time_sub_def in_i64_def)

lemma time_sub_antimono: "u \<le> u' \<Longrightarrow> time_sub t u' \<le> time_sub t u"
  by (auto simp: time_sub_def)

end
