(* ===== verification/Json.thy ===== *)
theory Json
  imports GoStrings
begin

text \<open>
  Go's \<open>encoding/json\<close> as the program uses it: the value grammar with the decoder's
  nesting limit, string literals with their escapes and UTF-8 repair, and decoding into
  typed targets (a struct's fields by case-folded name, pointers, slices, maps, raw
  messages), with Go's rule that a type mismatch is reported at the end while the rest
  of the value is still decoded.
\<close>

section \<open>UTF-8\<close>

text \<open>\<open>utf8.EncodeRune\<close>: surrogates and out-of-range runes become U+FFFD.\<close>

definition utf8_encode :: "int \<Rightarrow> string" where
  "utf8_encode r =
     (if r < 0x80 then [char_of r]
      else if r < 0x800 then [char_of (0xC0 + r div 64), char_of (0x80 + r mod 64)]
      else if (0xD800 \<le> r \<and> r < 0xE000) \<or> 0x10FFFF < r then
        [CHR 0xEF, CHR 0xBF, CHR 0xBD]
      else if r < 0x10000 then
        [char_of (0xE0 + r div 4096), char_of (0x80 + (r div 64) mod 64), char_of (0x80 + r mod 64)]
      else
        [char_of (0xF0 + r div 262144), char_of (0x80 + (r div 4096) mod 64),
         char_of (0x80 + (r div 64) mod 64), char_of (0x80 + r mod 64)])"

abbreviation replacement :: string where "replacement \<equiv> [CHR 0xEF, CHR 0xBF, CHR 0xBD]"

definition between :: "char \<Rightarrow> int \<Rightarrow> int \<Rightarrow> bool" where
  "between c lo hi \<longleftrightarrow> lo \<le> byte_of c \<and> byte_of c \<le> hi"

text \<open>
  The length of the well-formed encoding at the head of a byte string, 0 when there is
  none (\<open>utf8.DecodeRune\<close> then consumes one byte and yields U+FFFD).
\<close>

fun utf8_len :: "string \<Rightarrow> nat" where
  "utf8_len [] = 0"
| "utf8_len (a # s) =
     (if byte_of a < 0x80 then 1
      else case s of [] \<Rightarrow> 0 | b # s2 \<Rightarrow>
        if between a 0xC2 0xDF then (if between b 0x80 0xBF then 2 else 0)
        else case s2 of [] \<Rightarrow> 0 | c # s3 \<Rightarrow>
          if between a 0xE0 0xEF then
            (if between b (if byte_of a = 0xE0 then 0xA0 else 0x80)
                          (if byte_of a = 0xED then 0x9F else 0xBF) \<and> between c 0x80 0xBF
             then 3 else 0)
          else case s3 of [] \<Rightarrow> 0 | d # _ \<Rightarrow>
            if between a 0xF0 0xF4 \<and>
               between b (if byte_of a = 0xF0 then 0x90 else 0x80)
                         (if byte_of a = 0xF4 then 0x8F else 0xBF) \<and>
               between c 0x80 0xBF \<and> between d 0x80 0xBF
            then 4 else 0)"

section \<open>Lexical elements\<close>

definition is_ws :: "char \<Rightarrow> bool" where
  "is_ws c \<longleftrightarrow> c \<in> {CHR 0x20, CHR 0x09, CHR 0x0A, CHR 0x0D}"

abbreviation skip_ws :: "string \<Rightarrow> string" where "skip_ws \<equiv> dropWhile is_ws"

definition hex_val :: "char \<Rightarrow> int option" where
  "hex_val c =
     (let n = byte_of c in
      if 48 \<le> n \<and> n \<le> 57 then Some (n - 48)
      else if 97 \<le> n \<and> n \<le> 102 then Some (n - 87)
      else if 65 \<le> n \<and> n \<le> 70 then Some (n - 55)
      else None)"

definition is_hex :: "char \<Rightarrow> bool" where "is_hex c \<longleftrightarrow> hex_val c \<noteq> None"

definition hex4 :: "char \<Rightarrow> char \<Rightarrow> char \<Rightarrow> char \<Rightarrow> int option" where
  "hex4 a b c d =
     (case (hex_val a, hex_val b, hex_val c, hex_val d) of
        (Some w, Some x, Some y, Some z) \<Rightarrow> Some (4096 * w + 256 * x + 16 * y + z)
      | _ \<Rightarrow> None)"

text \<open>
  The scanner's pass over a string literal after its opening quote: the raw contents and
  what follows the closing quote, or \<open>None\<close> on a control byte, a bad escape or the end
  of the input.
\<close>

fun lex_str :: "string \<Rightarrow> (string \<times> string) option" where
  "lex_str [] = None"
| "lex_str (c # cs) =
     (if c = dquote then Some ([], cs)
      else if c = bslash then
        (case cs of
           [] \<Rightarrow> None
         | e # es \<Rightarrow>
             if e = CHR ''u'' then
               (case es of
                  a # b # d # f # r \<Rightarrow>
                    if is_hex a \<and> is_hex b \<and> is_hex d \<and> is_hex f
                    then map_option (\<lambda>(x, y). (c # e # a # b # d # f # x, y)) (lex_str r)
                    else None
                | _ \<Rightarrow> None)
             else if e \<in> {dquote, bslash, CHR ''/'', CHR ''b'', CHR ''f'', CHR ''n'',
                          CHR ''r'', CHR ''t''}
             then map_option (\<lambda>(x, y). (c # e # x, y)) (lex_str es)
             else None)
      else if byte_of c < 32 then None
      else map_option (\<lambda>(x, y). (c # x, y)) (lex_str cs))"

lemma lex_str_shorter: "lex_str s = Some (raw, r) \<Longrightarrow> length r < length s"
  by (induction s arbitrary: raw rule: lex_str.induct)
     (fastforce split: if_splits list.splits)+

text \<open>A literal's decoded text.\<close>

definition unescape_char :: "char \<Rightarrow> char" where
  "unescape_char e =
     (if e = CHR ''b'' then CHR 0x08 else if e = CHR ''f'' then CHR 0x0C
      else if e = CHR ''n'' then CHR 0x0A else if e = CHR ''r'' then CHR 0x0D
      else if e = CHR ''t'' then CHR 0x09 else e)"

text \<open>\<open>getu4\<close>: a \<open>\u\<close> escape at the head of the text.\<close>

fun getu4 :: "string \<Rightarrow> int option" where
  "getu4 (s # u # a # b # c # d # _) =
     (if s = bslash \<and> u = CHR ''u'' then hex4 a b c d else None)"
| "getu4 _ = None"

definition surrogate_pair :: "int \<Rightarrow> int option \<Rightarrow> int option" where
  "surrogate_pair hi lo =
     (case lo of
        Some l \<Rightarrow> if 0xD800 \<le> hi \<and> hi < 0xDC00 \<and> 0xDC00 \<le> l \<and> l < 0xE000
                  then Some ((hi - 0xD800) * 1024 + (l - 0xDC00) + 0x10000) else None
      | None \<Rightarrow> None)"

fun unquote :: "string \<Rightarrow> string" where
  "unquote [] = []"
| "unquote (c # cs) =
     (if c = bslash then
        (case getu4 (c # cs) of
           Some rr \<Rightarrow>
             (case surrogate_pair rr (getu4 (drop 5 cs)) of
                Some r \<Rightarrow> utf8_encode r @ unquote (drop 11 cs)
              | None \<Rightarrow> utf8_encode rr @ unquote (drop 5 cs))
         | None \<Rightarrow> (case cs of [] \<Rightarrow> [] | e # es \<Rightarrow> unescape_char e # unquote es))
      else (case utf8_len (c # cs) of
              0 \<Rightarrow> replacement @ unquote cs
            | Suc n \<Rightarrow> c # take n cs @ unquote (drop n cs)))"


lemma string_examples:
  "lex_str (''ab'' @ [bslash, CHR ''n'', dquote] @ ''rest'') =
     Some (''ab'' @ [bslash, CHR ''n''], ''rest'')"
  "unquote (''a'' @ [bslash] @ ''u00e9'' @ [bslash] @ ''ud83d'' @ [bslash] @ ''ude00'') =
     ''a'' @ [CHR 0xC3, CHR 0xA9, CHR 0xF0, CHR 0x9F, CHR 0x98, CHR 0x80]"
  "unquote [CHR 0xFF, CHR ''x''] = replacement @ ''x''"
  by code_simp+

text \<open>Numbers: \<open>-?(0|[1-9][0-9]*)(.[0-9]+)?([eE][+-]?[0-9]+)?\<close>.\<close>

definition lex_exp :: "string \<Rightarrow> string \<Rightarrow> (string \<times> string) option" where
  "lex_exp acc s =
     (case s of
        e # r \<Rightarrow>
          if e = CHR ''e'' \<or> e = CHR ''E'' then
            (let (sg, r1) = (case r of x # r' \<Rightarrow> if x = CHR ''+'' \<or> x = CHR ''-'' then ([x], r') else ([], r)
                             | [] \<Rightarrow> ([], r));
                 ds = takeWhile is_digit r1
             in if ds = [] then None else Some (acc @ e # sg @ ds, dropWhile is_digit r1))
          else Some (acc, s)
      | [] \<Rightarrow> Some (acc, s))"

definition lex_frac :: "string \<Rightarrow> string \<Rightarrow> (string \<times> string) option" where
  "lex_frac acc s =
     (case s of
        p # r \<Rightarrow>
          if p = CHR ''.'' then
            (let ds = takeWhile is_digit r
             in if ds = [] then None else lex_exp (acc @ p # ds) (dropWhile is_digit r))
          else lex_exp acc s
      | [] \<Rightarrow> lex_exp acc s)"

definition lex_num :: "string \<Rightarrow> (string \<times> string) option" where
  "lex_num s =
     (let (sg, s1) = (case s of x # r \<Rightarrow> if x = CHR ''-'' then ([x], r) else ([], s) | [] \<Rightarrow> ([], s))
      in case s1 of
           [] \<Rightarrow> None
         | c # r \<Rightarrow>
             if c = CHR ''0'' then lex_frac (sg @ [c]) r
             else if is_digit c then lex_frac (sg @ takeWhile is_digit s1) (dropWhile is_digit s1)
             else None)"

lemma lex_exp_le: "lex_exp acc s = Some (n, r) \<Longrightarrow> length r \<le> length s"
  using length_dropWhile_le [of is_digit]
  by (fastforce simp: lex_exp_def Let_def split: list.splits if_splits prod.splits
      intro: le_SucI order_trans)

lemma lex_frac_le: "lex_frac acc s = Some (n, r) \<Longrightarrow> length r \<le> length s"
  using length_dropWhile_le [of is_digit]
  by (fastforce simp: lex_frac_def Let_def split: list.splits if_splits
      dest!: lex_exp_le intro: le_SucI order_trans)

section \<open>Values\<close>

text \<open>
  A parsed value. The elements of an array and the members of an object carry the bytes
  of the value as they stand in the input beside the value itself: this is what a
  \<open>json.RawMessage\<close> field receives.
\<close>

datatype json =
    JNull
  | JBool bool
  | JNum string
  | JStr string
  | JArr "(string \<times> json) list"
  | JObj "(string \<times> string \<times> json) list"

text \<open>
  The recursive descent of the grammar: a value, the elements of an array after its
  opening bracket, the members of an object after its opening brace. \<open>d\<close> is the
  nesting depth still allowed. The two length guards only serve termination: by
  \<open>parse_shorter\<close> below, a successful parse consumes input, so they always hold.
\<close>

function (sequential) parse_value :: "int \<Rightarrow> string \<Rightarrow> (json \<times> string) option"
  and parse_elems :: "int \<Rightarrow> string \<Rightarrow> ((string \<times> json) list \<times> string) option"
  and parse_members :: "int \<Rightarrow> string \<Rightarrow> ((string \<times> string \<times> json) list \<times> string) option" where
  "parse_value d [] = None"
| "parse_value d (c # cs) =
     (if c = CHR ''{'' then
        (if d \<le> 0 then None
         else case skip_ws cs of
           [] \<Rightarrow> None
         | x # r \<Rightarrow> if x = CHR ''}'' then Some (JObj [], r)
                    else map_option (\<lambda>(ms, r'). (JObj ms, r')) (parse_members (d - 1) (x # r)))
      else if c = CHR ''['' then
        (if d \<le> 0 then None
         else case skip_ws cs of
           [] \<Rightarrow> None
         | x # r \<Rightarrow> if x = CHR '']'' then Some (JArr [], r)
                    else map_option (\<lambda>(vs, r'). (JArr vs, r')) (parse_elems (d - 1) (x # r)))
      else if c = dquote then map_option (\<lambda>(raw, r). (JStr (unquote raw), r)) (lex_str cs)
      else if has_prefix (c # cs) ''true'' then Some (JBool True, drop 3 cs)
      else if has_prefix (c # cs) ''false'' then Some (JBool False, drop 4 cs)
      else if has_prefix (c # cs) ''null'' then Some (JNull, drop 3 cs)
      else map_option (\<lambda>(n, r). (JNum n, r)) (lex_num (c # cs)))"
| "parse_elems d s =
     (case parse_value d s of
        None \<Rightarrow> None
      | Some (v, r) \<Rightarrow>
          (let raw = take (length s - length r) s in
           case skip_ws r of
             [] \<Rightarrow> None
           | x # r1 \<Rightarrow>
               if x = CHR '']'' then Some ([(raw, v)], r1)
               else if x = CHR '','' then
                 (let s2 = skip_ws r1 in
                  if length s2 < length s
                  then map_option (\<lambda>(vs, r'). ((raw, v) # vs, r')) (parse_elems d s2)
                  else None)
               else None))"
| "parse_members d [] = None"
| "parse_members d (q # s) =
     (if q \<noteq> dquote then None
      else case lex_str s of
        None \<Rightarrow> None
      | Some (key, r) \<Rightarrow>
          (case skip_ws r of
             [] \<Rightarrow> None
           | x # r1 \<Rightarrow>
               if x \<noteq> CHR '':'' then None
               else (let s2 = skip_ws r1 in
                 if \<not> length s2 < length (q # s) then None
                 else case parse_value d s2 of
                   None \<Rightarrow> None
                 | Some (v, r2) \<Rightarrow>
                     (let m = (unquote key, take (length s2 - length r2) s2, v) in
                      case skip_ws r2 of
                        [] \<Rightarrow> None
                      | y # r3 \<Rightarrow>
                          if y = CHR ''}'' then Some ([m], r3)
                          else if y = CHR '','' then
                            (let s4 = skip_ws r3 in
                             if length s4 < length (q # s)
                             then map_option (\<lambda>(ms, r'). (m # ms, r')) (parse_members d s4)
                             else None)
                          else None))))"
  by pat_completeness auto
termination
proof (relation "measures [case_sum (length \<circ> snd) (case_sum (length \<circ> snd) (length \<circ> snd)),
    case_sum (\<lambda>_. 0) (case_sum (\<lambda>_. 1) (\<lambda>_. 1))]", goal_cases)
qed (auto dest!: dropWhile_Cons_length)

declare parse_value.simps [simp del] parse_elems.simps [simp del] parse_members.simps [simp del]

lemma le_length_dropWhileD: "n \<le> length (dropWhile P t) \<Longrightarrow> n \<le> length t"
  using length_dropWhile_le [of P t] by simp

lemma lex_num_shorter: "lex_num s = Some (n, r) \<Longrightarrow> length r < length s"
  by (auto simp: lex_num_def Let_def split: list.splits if_splits
      dest!: lex_frac_le le_length_dropWhileD)

text \<open>One equation per shape of the input, in place of the defining equations.\<close>

lemma parse_value_obj:
  "parse_value d (CHR ''{'' # cs) =
     (if d \<le> 0 then None
      else case skip_ws cs of
        [] \<Rightarrow> None
      | x # r \<Rightarrow> if x = CHR ''}'' then Some (JObj [], r)
                 else map_option (\<lambda>(ms, r'). (JObj ms, r')) (parse_members (d - 1) (x # r)))"
  by (simp add: parse_value.simps)

lemma parse_value_arr:
  "parse_value d (CHR ''['' # cs) =
     (if d \<le> 0 then None
      else case skip_ws cs of
        [] \<Rightarrow> None
      | x # r \<Rightarrow> if x = CHR '']'' then Some (JArr [], r)
                 else map_option (\<lambda>(vs, r'). (JArr vs, r')) (parse_elems (d - 1) (x # r)))"
  by (simp add: parse_value.simps)

lemma parse_value_scalar:
  assumes "c \<noteq> CHR ''{''" "c \<noteq> CHR ''[''" "parse_value d (c # cs) = Some (v, r)"
  shows "length r < length (c # cs)"
proof (cases "c = dquote")
  case True
  with assms show ?thesis
    by (auto simp: parse_value.simps dest!: lex_str_shorter)
next
  case False
  with assms show ?thesis
    by (auto simp: parse_value.simps split: if_splits dest!: lex_num_shorter)
qed

lemma parse_shorter:
  "parse_value d s = Some (v, r) \<Longrightarrow> length r < length s"
  "parse_elems d s = Some (vs, r) \<Longrightarrow> length r < length s"
  "parse_members d s = Some (ms, r) \<Longrightarrow> length r < length s"
proof (induction d s and d s and d s arbitrary: v r and vs r and ms r
    rule: parse_value_parse_elems_parse_members.induct)
  case (1 d)
  then show ?case by (simp add: parse_value.simps)
next
  case (2 d c cs)
  note IH = 2(1,2) and parsed = 2(3)
  consider (obj) "c = CHR ''{''" | (arr) "c = CHR ''[''" | (scalar) "c \<noteq> CHR ''{''" "c \<noteq> CHR ''[''"
    by blast
  then show ?case
  proof cases
    case obj
    with parsed obtain x t where t: "skip_ws cs = x # t" "0 < d"
      by (auto simp: parse_value_obj split: if_splits list.splits)
    with obj parsed have "r = t \<or> x \<noteq> CHR ''}'' \<and> (\<exists>ms. parse_members (d - 1) (x # t) = Some (ms, r))"
      by (auto simp: parse_value_obj split: if_splits)
    with IH(1) [of x t] obj t dropWhile_Cons_length [OF t(1)] show ?thesis by auto
  next
    case arr
    with parsed obtain x t where t: "skip_ws cs = x # t" "0 < d"
      by (auto simp: parse_value_arr split: if_splits list.splits)
    with arr parsed have "r = t \<or> x \<noteq> CHR '']'' \<and> (\<exists>vs. parse_elems (d - 1) (x # t) = Some (vs, r))"
      by (auto simp: parse_value_arr split: if_splits)
    with IH(2) [of x t] arr t dropWhile_Cons_length [OF t(1)] show ?thesis by auto
  next
    case scalar
    then show ?thesis using parsed by (rule parse_value_scalar)
  qed
next
  case (3 d s)
  then obtain w r1 x r2 where w: "parse_value d s = Some (w, r1)" and x: "skip_ws r1 = x # r2"
    by (auto simp: parse_elems.simps [of d s] Let_def split: option.splits list.splits)
  with 3(3) have tl: "r = r2 \<or> x = CHR '','' \<and> length (skip_ws r2) < length s \<and>
      (\<exists>vs'. parse_elems d (skip_ws r2) = Some (vs', r))"
    by (auto simp: parse_elems.simps [of d s] Let_def split: if_splits)
  have "length r2 < length s"
    using 3(1) [OF w] dropWhile_Cons_length [OF x] by simp
  with tl 3(2) [OF w] x show ?case by (fastforce intro: less_trans)
next
  case (4 d)
  then show ?case by (simp add: parse_members.simps)
next
  case (5 d q s)
  then obtain key r1 x r2 where q: "q = dquote" and k: "lex_str s = Some (key, r1)"
    and x: "skip_ws r1 = x # r2" "x = CHR '':''" and len: "length (skip_ws r2) < length (q # s)"
    by (auto simp: parse_members.simps Let_def split: if_splits option.splits list.splits)
  with 5(3) obtain v r3 y r4 where v: "parse_value d (skip_ws r2) = Some (v, r3)"
    and y: "skip_ws r3 = y # r4"
    by (auto simp: parse_members.simps Let_def split: if_splits option.splits list.splits)
  with 5(3) q k x have tl: "r = r4 \<or> y \<noteq> CHR ''}'' \<and> y = CHR '','' \<and>
      length (skip_ws r4) < length (q # s) \<and> (\<exists>ms'. parse_members d (skip_ws r4) = Some (ms', r))"
    by (auto simp: parse_members.simps Let_def split: if_splits)
  have "length r3 < length (q # s)"
    using 5(1) [of "(key, r1)" key r1 x r2] q k x len v by (fastforce intro: less_trans)
  with dropWhile_Cons_length [OF y] have "length r4 < length (q # s)" by simp
  with tl 5(2) [of "(key, r1)" key r1 x r2 _ "(v, r3)" v r3 _ y r4] q k x len v y
  show ?case by (fastforce intro: less_trans)
qed

text \<open>
  \<open>checkValid\<close> and the value it finds: the whole input is one value between white
  space, nested at most 10000 deep.
\<close>

definition max_depth :: int where "max_depth = 10000"

definition json_parse :: "string \<Rightarrow> (string \<times> json) option" where
  "json_parse s =
     (let t = skip_ws s in
      case parse_value max_depth t of
        None \<Rightarrow> None
      | Some (v, r) \<Rightarrow>
          if skip_ws r = [] then Some (take (length t - length r) t, v) else None)"

section \<open>Decoding into typed targets\<close>

text \<open>
  A decoder reads a value (with its bytes) into a target that already holds something,
  and says whether every part had the right type. Like Go it keeps going after a
  mismatch, so the target may be partly filled when the flag is \<^term>\<open>False\<close>.
\<close>

type_synonym jval = "string \<times> json"

type_synonym 'a decoder = "jval \<Rightarrow> 'a \<Rightarrow> 'a \<times> bool"

fun dec_string :: "string decoder" where
  "dec_string (_, JStr s) old = (s, True)"
| "dec_string (_, JNull) old = (old, True)"
| "dec_string _ old = (old, False)"

fun dec_bool :: "bool decoder" where
  "dec_bool (_, JBool b) old = (b, True)"
| "dec_bool (_, JNull) old = (old, True)"
| "dec_bool _ old = (old, False)"

text \<open>\<open>strconv.ParseInt(n, 10, 64)\<close> on a JSON number.\<close>

definition parse_int64 :: "string \<Rightarrow> int option" where
  "parse_int64 n =
     (let (neg, ds) = (case n of c # r \<Rightarrow> if c = CHR ''-'' then (True, r) else (False, n)
                       | [] \<Rightarrow> (False, []));
          v = (if neg then - dec_val ds else dec_val ds)
      in if ds \<noteq> [] \<and> list_all is_digit ds \<and> in_i64 v then Some v else None)"

fun dec_int64 :: "int decoder" where
  "dec_int64 (_, JNum n) old =
     (case parse_int64 n of Some v \<Rightarrow> (v, True) | None \<Rightarrow> (old, False))"
| "dec_int64 (_, JNull) old = (old, True)"
| "dec_int64 _ old = (old, False)"

text \<open>\<open>json.RawMessage\<close>: the bytes of the value, \<open>null\<close> included.\<close>

fun dec_raw :: "string decoder" where
  "dec_raw (raw, _) old = (raw, True)"

text \<open>A pointer: \<open>null\<close> makes it nil, a value is decoded into the pointee or a new zero.\<close>

definition dec_ptr :: "'a \<Rightarrow> 'a decoder \<Rightarrow> 'a option decoder" where
  "dec_ptr zero dec v old =
     (case snd v of
        JNull \<Rightarrow> (None, True)
      | _ \<Rightarrow> (let (x, ok) = dec v (case old of None \<Rightarrow> zero | Some y \<Rightarrow> y) in (Some x, ok)))"

text \<open>
  A slice is refilled from its start: element by element into what a repeated field name
  left there, and into zero values beyond.
\<close>

definition dec_slice :: "'a \<Rightarrow> 'a decoder \<Rightarrow> 'a list decoder" where
  "dec_slice zero dec v old =
     (case snd v of
        JArr vs \<Rightarrow> (let rs = map (\<lambda>(x, y). dec x y) (zip vs (old @ replicate (length vs) zero))
                    in (map fst rs, list_all snd rs))
      | JNull \<Rightarrow> ([], True)
      | _ \<Rightarrow> (old, False))"

text \<open>A map with string keys keeps its entries; each element is decoded into a zero value.\<close>

definition dec_map :: "'a \<Rightarrow> 'a decoder \<Rightarrow> (string \<times> 'a) list decoder" where
  "dec_map zero dec v old =
     (case snd v of
        JObj ms \<Rightarrow> foldl (\<lambda>(m, ok) (k, x). let (y, ok') = dec x zero in (put k y m, ok \<and> ok'))
                     (old, True) ms
      | JNull \<Rightarrow> ([], True)
      | _ \<Rightarrow> (old, False))"

text \<open>
  Field names: an exact match wins, then a match up to case. Besides ASCII letters the
  long s and the Kelvin sign fold to letters.
\<close>

fun fold_name :: "string \<Rightarrow> string" where
  "fold_name [] = []"
| "fold_name (a # s) =
     (case s of
        b # t \<Rightarrow>
          if a = CHR 0xC5 \<and> b = CHR 0xBF then CHR ''S'' # fold_name t
          else (case t of
                  c # u \<Rightarrow> if a = CHR 0xE2 \<and> b = CHR 0x84 \<and> c = CHR 0xAA
                           then CHR ''K'' # fold_name u
                           else upper_char a # fold_name s
                | [] \<Rightarrow> upper_char a # fold_name s)
      | [] \<Rightarrow> [upper_char a])"

definition find_field :: "(string \<times> 'f) list \<Rightarrow> string \<Rightarrow> 'f option" where
  "find_field fs k =
     (case map_of fs k of
        Some f \<Rightarrow> Some f
      | None \<Rightarrow> map_option snd (List.find (\<lambda>(n, _). fold_name n = fold_name k) fs))"

definition dec_struct :: "(string \<times> 'r decoder) list \<Rightarrow> 'r decoder" where
  "dec_struct fs v old =
     (case snd v of
        JObj ms \<Rightarrow>
          foldl (\<lambda>(r, ok) (k, x). case find_field fs k of
                    None \<Rightarrow> (r, ok)
                  | Some dec \<Rightarrow> (let (r', ok') = dec x r in (r', ok \<and> ok')))
            (old, True) ms
      | JNull \<Rightarrow> (old, True)
      | _ \<Rightarrow> (old, False))"

text \<open>One field of a struct: its decoder lifted through the record's selector and update.\<close>

definition fld :: "string \<Rightarrow> 'a decoder \<Rightarrow> ('r \<Rightarrow> 'a) \<Rightarrow> (('a \<Rightarrow> 'a) \<Rightarrow> 'r \<Rightarrow> 'r) \<Rightarrow>
    string \<times> 'r decoder" where
  "fld name dec get upd =
     (name, \<lambda>v r. let (x, ok) = dec v (get r) in (upd (\<lambda>_. x) r, ok))"

text \<open>
  \<open>json.Unmarshal\<close>: nothing is touched when the text is no value; otherwise the decoder
  fills the target and \<^term>\<open>snd\<close> tells whether the error is nil.
\<close>

definition unmarshal :: "'a decoder \<Rightarrow> string \<Rightarrow> 'a \<Rightarrow> 'a \<times> bool" where
  "unmarshal dec s old =
     (case json_parse s of None \<Rightarrow> (old, False) | Some v \<Rightarrow> dec v old)"

text \<open>The common use, which discards the target on any error.\<close>

definition unmarshal_ok :: "'a decoder \<Rightarrow> string \<Rightarrow> 'a \<Rightarrow> 'a option" where
  "unmarshal_ok dec s zero = (let (x, ok) = unmarshal dec s zero in if ok then Some x else None)"

section \<open>Invariants of decoding\<close>

text \<open>
  What every field decoder keeps of the target, the whole decoder keeps, whatever the
  input: names repeated, mismatches and unknown members included.
\<close>

lemma dec_struct_inv:
  assumes "list_all (\<lambda>f. \<forall>v r. P r \<longrightarrow> P (fst (snd f v r))) fs" and "P old"
  shows "P (fst (dec_struct fs v old))"
proof -
  have found: "find_field fs k = Some dec \<Longrightarrow> \<exists>n. (n, dec) \<in> set fs" for k dec
    by (auto simp: find_field_def find_Some_iff split: option.splits dest: map_of_SomeD)
      (metis nth_mem)
  have "P r \<Longrightarrow> P (fst (foldl (\<lambda>(r, ok) (k, x). case find_field fs k of
                    None \<Rightarrow> (r, ok)
                  | Some dec \<Rightarrow> (let (r', ok') = dec x r in (r', ok \<and> ok'))) (r, ok) ms))" for ms r ok
  proof (induction ms arbitrary: r ok)
    case (Cons m ms)
    obtain k x y where m: "m = (k, x, y)" by (rule prod_cases3)
    show ?case
    proof (cases "find_field fs k")
      case None
      with Cons m show ?thesis by simp
    next
      case (Some dec)
      with found assms(1) Cons.prems have "P (fst (dec (x, y) r))"
        by (fastforce simp: list_all_iff)
      with Cons.IH Some m show ?thesis by (auto simp: Let_def split: prod.splits)
    qed
  qed simp
  with assms(2) show ?thesis by (auto simp: dec_struct_def split: json.splits)
qed

lemma dec_ptr_inv:
  assumes "\<And>v r. P r \<Longrightarrow> P (fst (dec v r))" "P zero" "\<forall>x \<in> set_option old. P x"
  shows "\<forall>x \<in> set_option (fst (dec_ptr zero dec v old)). P x"
proof -
  let ?old = "case old of None \<Rightarrow> zero | Some y \<Rightarrow> y"
  have "P (fst (dec v ?old))" using assms by (cases old) auto
  then show ?thesis
    by (cases "dec v ?old") (auto simp: dec_ptr_def split: json.splits)
qed

lemma dec_slice_inv:
  assumes "\<And>v r. P r \<Longrightarrow> P (fst (dec v r))" "P zero" "\<forall>x \<in> set old. P x"
  shows "\<forall>x \<in> set (fst (dec_slice zero dec v old)). P x"
proof -
  have "\<forall>x \<in> set (map fst (map (\<lambda>(x, y). dec x y) (zip vs (old @ replicate n zero)))). P x" for vs n
    using assms by (auto dest!: set_zip_rightD)
  with assms(3) show ?thesis by (auto simp: dec_slice_def Let_def split: json.splits)
qed

lemma fst_fld [simp]:
  "fst (snd (fld n dec get upd) v r) = upd (\<lambda>_. fst (dec v (get r))) r"
  by (simp add: fld_def split: prod.splits)

lemma dec_int64_in_i64: "in_i64 old \<Longrightarrow> in_i64 (fst (dec_int64 v old))"
  by (cases "(v, old)" rule: dec_int64.cases)
    (auto simp: parse_int64_def Let_def split: option.splits if_splits prod.splits)

lemma unmarshal_ok_inv:
  assumes "\<And>v r. P r \<Longrightarrow> P (fst (dec v r))" "P zero" "unmarshal_ok dec s zero = Some x"
  shows "P x"
  using assms by (auto simp: unmarshal_ok_def unmarshal_def Let_def
      split: option.splits prod.splits if_splits) (metis fst_conv surj_pair)


text \<open>Sample documents are written with a tilde for the double quote.\<close>

definition jq :: "string \<Rightarrow> string" where
  "jq = map (\<lambda>c. if c = CHR ''~'' then dquote else c)"

end
