(* ===== verification/Types.thy ===== *)
theory Types
  imports GoTime Json
begin

text \<open>
  The records that travel from a watcher to the server (\<open>internal/types/types.go\<close>) and
  the vocabulary of the transcript parsers (\<open>parsers/parser.go\<close>): what a scan returns,
  the per-file progress it is resumed from, and what the file system shows it.
\<close>

section \<open>Wire types\<close>

record usage_record =
  ur_MessageID :: string
  ur_RequestID :: string
  ur_SessionID :: string
  ur_Tool :: string
  ur_Model :: string
  ur_Timestamp :: gotime
  ur_InputTokens :: int
  ur_OutputTokens :: int
  ur_CacheCreationTokens :: int
  ur_CacheCreation1hTokens :: int
  ur_CacheReadTokens :: int
  ur_ProjectPath :: string
  ur_Backfill :: bool

record edit_record =
  er_EventID :: string
  er_SessionID :: string
  er_Tool :: string
  er_Timestamp :: gotime
  er_Lang :: string
  er_LinesAdded :: int
  er_LinesRemoved :: int
  er_ProjectPath :: string
  er_Backfill :: bool

record ingest_request =
  iq_MachineID :: string
  iq_Records :: "usage_record list"
  iq_Edits :: "edit_record list"

record ingest_response =
  ip_Accepted :: int
  ip_Duplicates :: int
  ip_EditsAccepted :: int
  ip_EditsDuplicates :: int

section \<open>Scanning one file\<close>

record file_state =
  fs_Inode :: int
  fs_Offset :: int

definition zero_file_state :: file_state where
  "zero_file_state = \<lparr>fs_Inode = 0, fs_Offset = 0\<rparr>"

record scan_result =
  sr_Usage :: "usage_record list"
  sr_Edits :: "edit_record list"

definition empty_result :: scan_result where
  "empty_result = \<lparr>sr_Usage = [], sr_Edits = []\<rparr>"

definition append_result :: "scan_result \<Rightarrow> scan_result \<Rightarrow> scan_result" where
  "append_result a b = \<lparr>sr_Usage = sr_Usage a @ sr_Usage b, sr_Edits = sr_Edits a @ sr_Edits b\<rparr>"

text \<open>
  What one scan sees of a file: the answer of \<open>os.Stat\<close> (inode and size), whether
  \<open>os.Open\<close> succeeds, the bytes of the file when it is read (a writer may have
  appended since the \<open>Stat\<close>), and whether reading ends in an I/O error rather than
  the end of the file.
\<close>

record file_obs =
  fo_stat :: "(int \<times> int) option"
  fo_opens :: bool
  fo_data :: string
  fo_read_fails :: bool

datatype scan_error = StatError | OpenError | SeekError | ReadError | DecompressError | DbError

type_synonym scan_return = "scan_result \<times> file_state \<times> scan_error option"

text \<open>
  The parameters every parser is called with beside the file: the path, the tool label,
  the saved progress, the backfill cutoff and the clock.
\<close>

type_synonym parser =
  "file_obs \<Rightarrow> string \<Rightarrow> string \<Rightarrow> file_state \<Rightarrow> duration \<Rightarrow> gotime \<Rightarrow> scan_return"

definition is_backfill :: "duration \<Rightarrow> gotime \<Rightarrow> gotime \<Rightarrow> bool" where
  "is_backfill cutoff now ts \<longleftrightarrow> 0 < cutoff \<and> cutoff < time_sub now ts"

text \<open>\<open>ts, _ := time.Parse(\<dots>); if ts.IsZero() { ts = now }\<close>.\<close>

definition stamp :: "string \<Rightarrow> gotime \<Rightarrow> gotime" where
  "stamp s now = (let ts = parse_time s in if is_zero ts then now else ts)"

definition project_from_path :: "string \<Rightarrow> string" where
  "project_from_path p = path_base (path_dir p)"

text \<open>Results form a monoid under concatenation.\<close>

lemma append_result_empty [simp]:
  "append_result empty_result r = r" "append_result r empty_result = r"
  by (simp_all add: append_result_def empty_result_def)

lemma append_result_assoc:
  "append_result (append_result a b) c = append_result a (append_result b c)"
  by (simp add: append_result_def)

lemma append_result_sel [simp]:
  "sr_Usage (append_result a b) = sr_Usage a @ sr_Usage b"
  "sr_Edits (append_result a b) = sr_Edits a @ sr_Edits b"
  by (simp_all add: append_result_def)

lemma empty_result_sel [simp]: "sr_Usage empty_result = []" "sr_Edits empty_result = []"
  by (simp_all add: empty_result_def)

definition concat_results :: "scan_result list \<Rightarrow> scan_result" where
  "concat_results rs = foldr append_result rs empty_result"

lemma concat_results_simps [simp]:
  "concat_results [] = empty_result"
  "concat_results (r # rs) = append_result r (concat_results rs)"
  by (simp_all add: concat_results_def)

lemma concat_results_append [simp]:
  "concat_results (rs @ ss) = append_result (concat_results rs) (concat_results ss)"
  by (induction rs) (simp_all add: append_result_assoc)

lemma concat_results_sel:
  "sr_Usage (concat_results rs) = concat (map sr_Usage rs)"
  "sr_Edits (concat_results rs) = concat (map sr_Edits rs)"
  by (induction rs) simp_all

text \<open>A record is tagged as backfill once it is old enough, and stays tagged as time goes by.\<close>

lemma is_backfill_mono: "is_backfill c now ts \<Longrightarrow> now \<le> now' \<Longrightarrow> is_backfill c now' ts"
  by (auto simp: is_backfill_def time_sub_def)

lemma is_backfill_disabled [simp]: "c \<le> 0 \<Longrightarrow> \<not> is_backfill c now ts"
  by (simp add: is_backfill_def)

end
