(* ===== verification/Store.thy ===== *)
theory Store
  imports Rollup Types
begin

text \<open>
  The token and edit tables of \<open>server/store.go\<close> with the statements that write them:
  the two ingest statements, the rebuild of a range of days, and the bootstrap of
  \<open>server/schema.go\<close>. What Postgres does with the texts and timestamps of a payload is a
  parameter; the columns \<open>received_at\<close> and \<open>updated_at\<close>, which no query reads, are left out.
\<close>

section \<open>The database\<close>

text \<open>
  The service behind the statements: the text it reads back from a JSON string or a text
  argument and the instant it stores for a timestamp, \<^term>\<open>None\<close> when it rejects the
  statement. Whether it answers at all is the flag a statement is called with.
\<close>

record pg =
  pg_json :: "string \<Rightarrow> string option"
  pg_arg :: "string \<Rightarrow> string option"
  pg_ts :: "gotime \<Rightarrow> gotime option"

datatype db_error = DbDown | DbReject | DbOverflow

section \<open>Rows\<close>

type_synonym usage_key = "string \<times> string"

record usage_row =
  ud_session_id :: string
  ud_user_id :: string
  ud_machine_id :: string
  ud_tool :: string
  ud_model :: string
  ud_ts :: gotime
  ud_input :: int
  ud_output :: int
  ud_cc :: int
  ud_cc1h :: int
  ud_cr :: int
  ud_project_path :: "string option"
  ud_backfill :: bool

text \<open>Group key of \<open>usage_daily\<close>: day, user, machine, tool, model.\<close>

type_synonym usage_group = "int \<times> string \<times> string \<times> string \<times> string"

record usage_sum =
  us_input :: int
  us_output :: int
  us_cc :: int
  us_cc1h :: int
  us_cr :: int
  us_messages :: int
  us_first :: gotime
  us_last :: gotime

type_synonym usage_tables = "(usage_key \<times> usage_row) list \<times> (usage_group \<times> usage_sum) list"

record edit_row =
  ed_session_id :: string
  ed_user_id :: string
  ed_machine_id :: string
  ed_tool :: string
  ed_lang :: string
  ed_ts :: gotime
  ed_added :: int
  ed_removed :: int
  ed_project_path :: "string option"
  ed_backfill :: bool

type_synonym edit_group = "int \<times> string \<times> string \<times> string \<times> string"

record edit_sum =
  es_added :: int
  es_removed :: int
  es_edits :: int

type_synonym edit_tables = "(string \<times> edit_row) list \<times> (edit_group \<times> edit_sum) list"

section \<open>Ingesting usage\<close>

text \<open>All elements of a payload, or nothing when one is rejected.\<close>

fun map_opt :: "('a \<Rightarrow> 'b option) \<Rightarrow> 'a list \<Rightarrow> 'b list option" where
  "map_opt f [] = Some []"
| "map_opt f (x # xs) =
     (case f x of None \<Rightarrow> None
      | Some y \<Rightarrow> (case map_opt f xs of None \<Rightarrow> None | Some ys \<Rightarrow> Some (y # ys)))"

definition nullif_empty :: "string \<Rightarrow> string option" where
  "nullif_empty s = (if s = [] then None else Some s)"

definition or_default :: "string \<Rightarrow> string \<Rightarrow> string" where
  "or_default s d = (if s = [] then d else s)"

text \<open>The texts of one payload element as \<open>jsonb\<close> holds them.\<close>

definition usage_texts :: "pg \<Rightarrow> usage_record \<Rightarrow> usage_record option" where
  "usage_texts p r =
     (case (pg_json p (ur_MessageID r), pg_json p (ur_RequestID r), pg_json p (ur_SessionID r),
            pg_json p (ur_Tool r), pg_json p (ur_Model r), pg_json p (ur_ProjectPath r)) of
        (Some m, Some q, Some s, Some t, Some mo, Some pr) \<Rightarrow>
          Some (r\<lparr>ur_MessageID := m, ur_RequestID := q, ur_SessionID := s, ur_Tool := t,
                  ur_Model := mo, ur_ProjectPath := pr\<rparr>)
      | _ \<Rightarrow> None)"

definition usage_select :: "pg \<Rightarrow> string \<Rightarrow> string \<Rightarrow> usage_record \<Rightarrow> (usage_key \<times> usage_row) option" where
  "usage_select p userID machineID r =
     (case pg_ts p (ur_Timestamp r) of
        None \<Rightarrow> None
      | Some ts \<Rightarrow>
          Some ((ur_MessageID r, ur_RequestID r),
            \<lparr>ud_session_id = ur_SessionID r, ud_user_id = userID, ud_machine_id = machineID,
             ud_tool = or_default (ur_Tool r) ''claude-code'', ud_model = ur_Model r, ud_ts = ts,
             ud_input = ur_InputTokens r, ud_output = ur_OutputTokens r,
             ud_cc = ur_CacheCreationTokens r,
             ud_cc1h = min (ur_CacheCreation1hTokens r) (ur_CacheCreationTokens r),
             ud_cr = ur_CacheReadTokens r, ud_project_path = nullif_empty (ur_ProjectPath r),
             ud_backfill = ur_Backfill r\<rparr>))"

definition usage_input ::
    "pg \<Rightarrow> string \<Rightarrow> string \<Rightarrow> usage_record list \<Rightarrow> (usage_key \<times> usage_row) list option" where
  "usage_input p userID machineID recs =
     (case (map_opt (usage_texts p) recs, pg_arg p userID, pg_arg p machineID) of
        (Some rs, Some u, Some m) \<Rightarrow>
          map_opt (usage_select p u m) (filter (\<lambda>r. ur_MessageID r \<noteq> []) rs)
      | _ \<Rightarrow> None)"

text \<open>A row's group and summands.\<close>

definition usage_proj :: "usage_key \<times> usage_row \<Rightarrow> usage_group \<times> usage_sum" where
  "usage_proj = (\<lambda>(k, r).
     ((utc_day_no (ud_ts r), ud_user_id r, ud_machine_id r, ud_tool r, ud_model r),
      \<lparr>us_input = ud_input r, us_output = ud_output r, us_cc = ud_cc r, us_cc1h = ud_cc1h r,
       us_cr = ud_cr r, us_messages = 1, us_first = ud_ts r, us_last = ud_ts r\<rparr>))"

definition usage_plus :: "usage_sum \<Rightarrow> usage_sum \<Rightarrow> usage_sum" where
  "usage_plus a b =
     \<lparr>us_input = us_input a + us_input b, us_output = us_output a + us_output b,
      us_cc = us_cc a + us_cc b, us_cc1h = us_cc1h a + us_cc1h b, us_cr = us_cr a + us_cr b,
      us_messages = us_messages a + us_messages b,
      us_first = min (us_first a) (us_first b), us_last = max (us_last a) (us_last b)\<rparr>"

definition usage_fits :: "usage_sum \<Rightarrow> bool" where
  "usage_fits s \<longleftrightarrow> in_i64 (us_input s) \<and> in_i64 (us_output s) \<and> in_i64 (us_cc s) \<and>
     in_i64 (us_cc1h s) \<and> in_i64 (us_cr s) \<and> in_i64 (us_messages s)"

definition Insert ::
    "pg \<Rightarrow> bool \<Rightarrow> string \<Rightarrow> string \<Rightarrow> usage_record list \<Rightarrow> usage_tables \<Rightarrow>
     (db_error + int \<times> int) \<times> usage_tables" where
  "Insert p up machineID userID recs tabs =
     (if recs = [] then (Inr (0, 0), tabs)
      else if \<not> up then (Inl DbDown, tabs)
      else (case usage_input p userID machineID recs of
         None \<Rightarrow> (Inl DbReject, tabs)
       | Some rows \<Rightarrow>
           (case ingest_rows usage_plus usage_fits usage_proj rows tabs of
              None \<Rightarrow> (Inl DbOverflow, tabs)
            | Some (accepted, tabs') \<Rightarrow>
                (Inr (accepted, int (length rows) - accepted), tabs'))))"

section \<open>Ingesting edits\<close>

definition edit_texts :: "pg \<Rightarrow> edit_record \<Rightarrow> edit_record option" where
  "edit_texts p r =
     (case (pg_json p (er_EventID r), pg_json p (er_SessionID r), pg_json p (er_Tool r),
            pg_json p (er_Lang r), pg_json p (er_ProjectPath r)) of
        (Some e, Some s, Some t, Some l, Some pr) \<Rightarrow>
          Some (r\<lparr>er_EventID := e, er_SessionID := s, er_Tool := t, er_Lang := l,
                  er_ProjectPath := pr\<rparr>)
      | _ \<Rightarrow> None)"

definition edit_select :: "pg \<Rightarrow> string \<Rightarrow> string \<Rightarrow> edit_record \<Rightarrow> (string \<times> edit_row) option" where
  "edit_select p userID machineID r =
     (case pg_ts p (er_Timestamp r) of
        None \<Rightarrow> None
      | Some ts \<Rightarrow>
          Some (er_EventID r,
            \<lparr>ed_session_id = er_SessionID r, ed_user_id = userID, ed_machine_id = machineID,
             ed_tool = or_default (er_Tool r) ''claude-code'',
             ed_lang = or_default (er_Lang r) ''other'', ed_ts = ts,
             ed_added = er_LinesAdded r, ed_removed = er_LinesRemoved r,
             ed_project_path = nullif_empty (er_ProjectPath r), ed_backfill = er_Backfill r\<rparr>))"

definition edit_input ::
    "pg \<Rightarrow> string \<Rightarrow> string \<Rightarrow> edit_record list \<Rightarrow> (string \<times> edit_row) list option" where
  "edit_input p userID machineID recs =
     (case (map_opt (edit_texts p) recs, pg_arg p userID, pg_arg p machineID) of
        (Some rs, Some u, Some m) \<Rightarrow>
          map_opt (edit_select p u m) (filter (\<lambda>r. er_EventID r \<noteq> []) rs)
      | _ \<Rightarrow> None)"

definition edit_proj :: "string \<times> edit_row \<Rightarrow> edit_group \<times> edit_sum" where
  "edit_proj = (\<lambda>(k, r).
     ((utc_day_no (ed_ts r), ed_user_id r, ed_machine_id r, ed_tool r, ed_lang r),
      \<lparr>es_added = ed_added r, es_removed = ed_removed r, es_edits = 1\<rparr>))"

definition edit_plus :: "edit_sum \<Rightarrow> edit_sum \<Rightarrow> edit_sum" where
  "edit_plus a b =
     \<lparr>es_added = es_added a + es_added b, es_removed = es_removed a + es_removed b,
      es_edits = es_edits a + es_edits b\<rparr>"

definition edit_fits :: "edit_sum \<Rightarrow> bool" where
  "edit_fits s \<longleftrightarrow> in_i64 (es_added s) \<and> in_i64 (es_removed s) \<and> in_i64 (es_edits s)"

definition InsertEdits ::
    "pg \<Rightarrow> bool \<Rightarrow> string \<Rightarrow> string \<Rightarrow> edit_record list \<Rightarrow> edit_tables \<Rightarrow>
     (db_error + int \<times> int) \<times> edit_tables" where
  "InsertEdits p up machineID userID recs tabs =
     (if recs = [] then (Inr (0, 0), tabs)
      else if \<not> up then (Inl DbDown, tabs)
      else (case edit_input p userID machineID recs of
         None \<Rightarrow> (Inl DbReject, tabs)
       | Some rows \<Rightarrow>
           (case ingest_rows edit_plus edit_fits edit_proj rows tabs of
              None \<Rightarrow> (Inl DbOverflow, tabs)
            | Some (accepted, tabs') \<Rightarrow>
                (Inr (accepted, int (length rows) - accepted), tabs'))))"

section \<open>Rebuilding\<close>

text \<open>
  \<open>rebuildDailyTx\<close> between two instants: both are cut to their UTC day, the daily rows of
  those days are deleted, and the detail rows with \<open>from \<le> ts < to + 1 day\<close> are grouped
  and inserted. The count is the number of daily rows written.
\<close>

definition day_start :: "gotime \<Rightarrow> gotime" where
  "day_start t = utc_day_no t * day_ns"

definition in_days :: "gotime \<Rightarrow> gotime \<Rightarrow> int \<Rightarrow> bool" where
  "in_days fro til day \<longleftrightarrow> utc_day_no fro \<le> day \<and> day \<le> utc_day_no til"

text \<open>What the \<open>DELETE\<close> leaves, and the rows the \<open>SELECT\<close> reads.\<close>

definition keep_days :: "gotime \<Rightarrow> gotime \<Rightarrow> (usage_group \<times> usage_sum) list \<Rightarrow> (usage_group \<times> usage_sum) list" where
  "keep_days fro til = filter (\<lambda>(g, _). \<not> in_days fro til (fst g))"

definition rows_between :: "gotime \<Rightarrow> gotime \<Rightarrow> (usage_key \<times> usage_row) list \<Rightarrow> (usage_key \<times> usage_row) list" where
  "rows_between fro til = filter (\<lambda>(_, r). fro \<le> ud_ts r \<and> ud_ts r < til)"

definition rebuildDailyTx :: "gotime \<Rightarrow> gotime \<Rightarrow> usage_tables \<Rightarrow> (int \<times> usage_tables) option" where
  "rebuildDailyTx fro til = (\<lambda>(detail, daily).
     let f = day_start fro; t = day_start til;
         kept = keep_days f t daily;
         fresh = group_rows usage_plus usage_proj (rows_between f (t + day_ns) detail)
     in if list_all (\<lambda>(_, v). usage_fits v) fresh \<and> list_all (\<lambda>(g, _). map_of kept g = None) fresh
        then Some (int (length fresh), detail, kept @ fresh) else None)"

definition RebuildDaily ::
    "bool \<Rightarrow> gotime \<Rightarrow> gotime \<Rightarrow> usage_tables \<Rightarrow> (db_error + int) \<times> usage_tables" where
  "RebuildDaily up fro til tabs =
     (if \<not> up then (Inl DbDown, tabs)
      else (case rebuildDailyTx fro til tabs of
         None \<Rightarrow> (Inl DbOverflow, tabs)
       | Some (n, tabs') \<Rightarrow> (Inr n, tabs')))"

text \<open>The bootstrap statement of the schema: only when the daily table is empty.\<close>

definition bootstrap_daily :: "usage_tables \<Rightarrow> usage_tables option" where
  "bootstrap_daily = (\<lambda>(detail, daily).
     if daily \<noteq> [] then Some (detail, daily)
     else (let fresh = group_rows usage_plus usage_proj detail
           in if list_all (\<lambda>(_, v). usage_fits v) fresh then Some (detail, fresh) else None))"

section \<open>The interface\<close>

interpretation usage: rollup usage_plus
  by unfold_locales (auto simp: usage_plus_def)

interpretation edit: rollup edit_plus
  by unfold_locales (auto simp: edit_plus_def)

abbreviation usage_consistent :: "usage_tables \<Rightarrow> bool" where
  "usage_consistent \<equiv> rolled_up usage_plus usage_proj"

abbreviation edit_consistent :: "edit_tables \<Rightarrow> bool" where
  "edit_consistent \<equiv> rolled_up edit_plus edit_proj"

section \<open>Facts\<close>

lemma map_opt_Some: "map_opt f xs = Some ys \<longleftrightarrow> list_all2 (\<lambda>x y. f x = Some y) xs ys"
proof (induction xs arbitrary: ys)
  case (Cons x xs)
  have "map_opt f (x # xs) = Some ys \<longleftrightarrow>
      (\<exists>y zs. f x = Some y \<and> map_opt f xs = Some zs \<and> ys = y # zs)"
    by (auto split: option.splits)
  then show ?case by (auto simp: Cons.IH list_all2_Cons1)
qed auto

lemma map_opt_length: "map_opt f xs = Some ys \<Longrightarrow> length ys = length xs"
  by (auto simp: map_opt_Some dest: list_all2_lengthD)

text \<open>What a successful statement did.\<close>

lemma Insert_cases:
  assumes "Insert p up m u recs tabs = (res, tabs')"
  obtains (empty) "recs = []" "res = Inr (0, 0)" "tabs' = tabs"
  | (failed) e where "res = Inl e" "tabs' = tabs"
  | (stored) rows n where "recs \<noteq> []" "up" "usage_input p u m recs = Some rows"
      "ingest_rows usage_plus usage_fits usage_proj rows tabs = Some (n, tabs')"
      "res = Inr (n, int (length rows) - n)"
  using assms by (auto simp: Insert_def split: if_splits option.splits)

lemma InsertEdits_cases:
  assumes "InsertEdits p up m u recs tabs = (res, tabs')"
  obtains (empty) "recs = []" "res = Inr (0, 0)" "tabs' = tabs"
  | (failed) e where "res = Inl e" "tabs' = tabs"
  | (stored) rows n where "recs \<noteq> []" "up" "edit_input p u m recs = Some rows"
      "ingest_rows edit_plus edit_fits edit_proj rows tabs = Some (n, tabs')"
      "res = Inr (n, int (length rows) - n)"
  using assms by (auto simp: InsertEdits_def split: if_splits option.splits)

lemma ingest_all_known:
  assumes "ingest_rows add fits proj rows tabs = Some (n, tabs')"
  shows "ingest_rows add fits proj rows tabs' = Some (0, tabs')"
proof -
  obtain d y d' y' where t: "tabs = (d, y)" "tabs' = (d', y')" by force
  show ?thesis
    unfolding t(2) by (rule ingest_known, rule ingest_keys [OF assms [unfolded t]])
qed

lemma Insert_again:
  assumes "Insert p up m u recs tabs = (Inr (a, d), tabs')"
  shows "Insert p True m u recs tabs' = (Inr (0, a + d), tabs')"
  using assms
proof (cases rule: Insert_cases)
  case (stored rows n)
  with ingest_all_known [OF stored(4)] show ?thesis by (simp add: Insert_def)
qed (simp_all add: Insert_def)

lemma InsertEdits_again:
  assumes "InsertEdits p up m u recs tabs = (Inr (a, d), tabs')"
  shows "InsertEdits p True m u recs tabs' = (Inr (0, a + d), tabs')"
  using assms
proof (cases rule: InsertEdits_cases)
  case (stored rows n)
  with ingest_all_known [OF stored(4)] show ?thesis by (simp add: InsertEdits_def)
qed (simp_all add: InsertEdits_def)

section \<open>Many batches\<close>

text \<open>
  A run of batches that all succeed, and the same run on the abstract state, a map from keys
  to rows in which the first row of a key stays.
\<close>

fun insert_batches :: "pg \<Rightarrow> string \<Rightarrow> string \<Rightarrow> usage_record list list \<Rightarrow> usage_tables \<Rightarrow> usage_tables option" where
  "insert_batches p m u [] tabs = Some tabs"
| "insert_batches p m u (b # bs) tabs =
     (case Insert p True m u b tabs of
        (Inl _, _) \<Rightarrow> None
      | (Inr _, tabs') \<Rightarrow> insert_batches p m u bs tabs')"

definition usage_rows :: "pg \<Rightarrow> string \<Rightarrow> string \<Rightarrow> usage_record list list \<Rightarrow> (usage_key \<times> usage_row) list" where
  "usage_rows p m u bs = concat (map (\<lambda>b. case usage_input p u m b of None \<Rightarrow> [] | Some rows \<Rightarrow> rows) bs)"

definition usage_view :: "usage_tables \<Rightarrow> usage_key \<Rightarrow> usage_row option" where
  "usage_view tabs = map_of (fst tabs)"

lemma Insert_view:
  assumes "Insert p True m u recs tabs = (Inr r, tabs')"
  shows "usage_view tabs' = map_of (usage_rows p m u [recs]) ++ usage_view tabs"
  using assms
proof (cases rule: Insert_cases)
  case empty
  have "usage_rows p m u [recs] = []"
    by (simp add: empty(1) usage_rows_def usage_input_def split: option.split)
  with empty show ?thesis by simp
next
  case (stored rows n)
  obtain d y d' y' where t: "tabs = (d, y)" "tabs' = (d', y')" by force
  show ?thesis
    using ingest_lookup(1) [OF stored(4) [unfolded t]] stored(3)
    by (auto simp: usage_rows_def usage_view_def t map_add_def fun_eq_iff)
qed simp

lemma insert_batches_view:
  "insert_batches p m u bs tabs = Some tabs' \<Longrightarrow>
   usage_view tabs' = map_of (usage_rows p m u bs) ++ usage_view tabs"
proof (induction bs arbitrary: tabs)
  case (Cons b bs)
  then obtain r tabs1 where 1: "Insert p True m u b tabs = (Inr r, tabs1)"
    "insert_batches p m u bs tabs1 = Some tabs'"
    by (auto split: prod.splits sum.splits)
  have "usage_rows p m u (b # bs) = usage_rows p m u [b] @ usage_rows p m u bs"
    by (simp add: usage_rows_def)
  with Cons.IH [OF 1(2)] Insert_view [OF 1(1)] show ?case by simp
qed (simp add: usage_rows_def)

lemma Insert_consistent:
  assumes "Insert p up m u recs tabs = (res, tabs')" "usage_consistent tabs"
  shows "usage_consistent tabs'"
  using assms(1) by (cases rule: Insert_cases) (simp_all add: assms(2) usage.ingest_rolled_up [OF assms(2)])

lemma InsertEdits_consistent:
  assumes "InsertEdits p up m u recs tabs = (res, tabs')" "edit_consistent tabs"
  shows "edit_consistent tabs'"
  using assms(1) by (cases rule: InsertEdits_cases) (simp_all add: assms(2) edit.ingest_rolled_up [OF assms(2)])

lemma insert_batches_consistent:
  "insert_batches p m u bs tabs = Some tabs' \<Longrightarrow> usage_consistent tabs \<Longrightarrow> usage_consistent tabs'"
  by (induction bs arbitrary: tabs) (auto split: prod.splits sum.splits dest: Insert_consistent)

lemma map_of_single_valued:
  "single_valued (set rows) \<Longrightarrow> map_of rows k = Some r \<longleftrightarrow> (k, r) \<in> set rows"
proof (induction rows)
  case (Cons x rows)
  obtain k' r' where x: "x = (k', r')" by force
  from Cons have "map_of rows k = Some r \<longleftrightarrow> (k, r) \<in> set rows"
    by (auto intro: single_valued_subset)
  moreover have "k = k' \<Longrightarrow> (k, r) \<in> set rows \<Longrightarrow> r = r'"
    using Cons.prems x by (auto simp: single_valued_def)
  ultimately show ?case using x by auto
qed simp

text \<open>The groups only depend on the rows a table holds, not on their order.\<close>

lemma consistent_view:
  assumes "usage_consistent t1" "usage_consistent t2" "usage_view t1 = usage_view t2"
  shows "map_of (snd t1) = map_of (snd t2)"
proof
  fix g
  have m: "mset (fst t1) = mset (fst t2)"
    using assms by (intro distinct_map_of_mset) (auto simp: rolled_up_def usage_view_def)
  have "map_of (snd t1) g = total usage_plus (values_at g (map usage_proj (fst t1)))"
    and "map_of (snd t2) g = total usage_plus (values_at g (map usage_proj (fst t2)))"
    using assms(1,2) by (auto simp: rolled_up_def map_of_group_rows split: prod.splits)
  with usage.total_mset [OF values_at_mset [OF m]] show "map_of (snd t1) g = map_of (snd t2) g"
    by simp
qed

section \<open>Rebuilding a range\<close>

lemma le_div_iff_mult_le: "a \<le> t div d \<longleftrightarrow> a * d \<le> t" if "0 < d" for a t d :: int
proof
  assume "a \<le> t div d"
  then have "a * d \<le> t div d * d" using that by (intro mult_right_mono) simp_all
  also have "\<dots> \<le> t" using that by (simp add: minus_mod_eq_div_mult [symmetric])
  finally show "a * d \<le> t" .
next
  assume "a * d \<le> t"
  then have "a * d div d \<le> t div d" using that by (rule zdiv_mono1)
  with that show "a \<le> t div d" by simp
qed

lemma day_start_no [simp]: "utc_day_no (day_start t) = utc_day_no t"
  by (simp add: utc_day_no_def day_start_def day_ns_def)

lemma in_days_iff:
  "day_start f \<le> t \<and> t < day_start l + day_ns \<longleftrightarrow> utc_day_no f \<le> utc_day_no t \<and> utc_day_no t \<le> utc_day_no l"
proof -
  have d: "0 < day_ns" by (simp add: day_ns_def)
  show ?thesis
    using le_div_iff_mult_le [OF d, of "utc_day_no f" t] le_div_iff_mult_le [OF d, of "utc_day_no l + 1" t]
    unfolding day_start_def by (auto simp: utc_day_no_def algebra_simps)
qed

lemma in_days_start [simp]: "in_days (day_start f) (day_start l) = in_days f l"
  by (simp add: in_days_def fun_eq_iff)

lemma values_at_filter:
  assumes "\<And>x. P x \<longleftrightarrow> Q (fst (f x))"
  shows "values_at g (map f (filter P xs)) = (if Q g then values_at g (map f xs) else [])"
  using assms by (induction xs) (auto simp: values_at_def)

lemma usage_proj_day: "fst (fst (usage_proj x)) = utc_day_no (ud_ts (snd x))"
  by (simp add: usage_proj_def split: prod.split)

lemma fresh_rows:
  "map_of (group_rows usage_plus usage_proj (rows_between (day_start f) (day_start l + day_ns) detail)) g =
   (if in_days f l (fst g) then map_of (group_rows usage_plus usage_proj detail) g else None)"
proof -
  have "values_at g (map usage_proj (rows_between (day_start f) (day_start l + day_ns) detail)) =
      (if in_days f l (fst g) then values_at g (map usage_proj detail) else [])"
    unfolding rows_between_def
    by (rule values_at_filter [where Q = "\<lambda>g. in_days f l (fst g)"])
      (simp add: in_days_iff in_days_def usage_proj_day split: prod.split)
  then show ?thesis by (simp add: map_of_group_rows)
qed

lemma kept_rows:
  "map_of (keep_days f l daily) g = (if in_days f l (fst g) then None else map_of daily g)"
  by (induction daily) (auto simp: keep_days_def)

lemma fresh_in_days:
  "g \<in> fst ` set (group_rows usage_plus usage_proj (rows_between (day_start f) (day_start l + day_ns) detail)) \<Longrightarrow>
   in_days f l (fst g)"
  using fresh_rows [of f l detail g] by (metis map_of_eq_None_iff)

lemma kept_not_in_days: "g \<in> fst ` set (keep_days f l daily) \<Longrightarrow> \<not> in_days f l (fst g)"
  using kept_rows [of f l daily g] by (metis map_of_eq_None_iff)

text \<open>The primary key never stops a rebuild that runs alone.\<close>

lemma rebuildDailyTx_eq:
  "rebuildDailyTx f l (detail, daily) =
     (let fresh = group_rows usage_plus usage_proj (rows_between (day_start f) (day_start l + day_ns) detail)
      in if list_all (\<lambda>(_, v). usage_fits v) fresh
         then Some (int (length fresh), detail, keep_days f l daily @ fresh) else None)"
proof -
  have "list_all (\<lambda>(g, _). map_of (keep_days f l daily) g = None)
      (group_rows usage_plus usage_proj (rows_between (day_start f) (day_start l + day_ns) detail))"
    using fresh_in_days [of _ f l detail] by (force simp: list_all_iff kept_rows)
  then show ?thesis by (simp add: rebuildDailyTx_def Let_def keep_days_def)
qed

lemma rebuild_lookup:
  assumes "rebuildDailyTx f l (detail, daily) = Some (n, detail', daily')"
  shows "detail' = detail"
    and "map_of daily' g = (if in_days f l (fst g)
           then map_of (group_rows usage_plus usage_proj detail) g else map_of daily g)"
    and "distinct (map fst daily) \<Longrightarrow> distinct (map fst daily')"
proof -
  let ?fresh = "group_rows usage_plus usage_proj (rows_between (day_start f) (day_start l + day_ns) detail)"
  have eqs: "detail' = detail" "daily' = keep_days f l daily @ ?fresh"
    using assms by (auto simp: rebuildDailyTx_eq Let_def split: if_splits)
  then show "detail' = detail" by simp
  show "map_of daily' g = (if in_days f l (fst g)
           then map_of (group_rows usage_plus usage_proj detail) g else map_of daily g)"
    by (simp add: eqs(2) map_add_def kept_rows fresh_rows split: option.split)
  have "fst ` set (keep_days f l daily) \<inter> fst ` set ?fresh = {}"
    using fresh_in_days [of _ f l detail] kept_not_in_days [of _ f l daily] by blast
  then show "distinct (map fst daily) \<Longrightarrow> distinct (map fst daily')"
    by (simp add: eqs(2) distinct_group_rows keep_days_def distinct_map_filter)
qed

section \<open>The one-hour subset\<close>

text \<open>In every row and every sum the one-hour cache writes are part of the cache writes.\<close>

definition cc1h_ok :: "usage_tables \<Rightarrow> bool" where
  "cc1h_ok = (\<lambda>(detail, daily). (\<forall>r \<in> snd ` set detail. ud_cc1h r \<le> ud_cc r) \<and>
     (\<forall>s \<in> snd ` set daily. us_cc1h s \<le> us_cc s))"

lemma set_put: "x \<in> set (put k v m) \<Longrightarrow> x = (k, v) \<or> x \<in> set m"
  by (induction m) (auto split: if_splits)

lemma upsert_all_inv:
  assumes "\<And>v w. P v \<Longrightarrow> P w \<Longrightarrow> P (add v w)"
  shows "\<forall>v \<in> snd ` set m. P v \<Longrightarrow> \<forall>v \<in> snd ` set rows. P v \<Longrightarrow> \<forall>v \<in> snd ` set (upsert_all add m rows). P v"
proof (induction rows arbitrary: m)
  case (Cons x rows)
  obtain g v where x: "x = (g, v)" by force
  have "P (case map_of m g of None \<Rightarrow> v | Some w \<Rightarrow> add w v)"
    using Cons.prems x assms by (force split: option.split dest: map_of_SomeD)
  then have "\<forall>w \<in> snd ` set (upsert add m x). P w"
    using Cons.prems(1) by (auto simp: upsert_def x dest!: set_put)
  with Cons show ?case by simp
qed simp

lemma ingest_cc1h:
  assumes "cc1h_ok tabs" "ingest_rows usage_plus fits usage_proj rows tabs = Some (n, tabs')"
    and rows: "\<forall>r \<in> snd ` set rows. ud_cc1h r \<le> ud_cc r"
  shows "cc1h_ok tabs'"
proof -
  obtain detail daily where t: "tabs = (detail, daily)" by force
  obtain detail' ins where ins: "insert_new detail rows = (detail', ins)" by force
  let ?P = "\<lambda>s. us_cc1h s \<le> us_cc s"
  have tabs': "tabs' = (detail', upsert_all usage_plus daily (group_rows usage_plus usage_proj ins))"
    using assms(2) ins by (auto simp: ingest_rows_def t Let_def split: if_splits)
  have new: "\<forall>r \<in> snd ` set ins. ud_cc1h r \<le> ud_cc r"
    using rows insert_new_subset [OF ins] by auto
  have plus: "?P v \<Longrightarrow> ?P w \<Longrightarrow> ?P (usage_plus v w)" for v w by (simp add: usage_plus_def)
  have "\<forall>s \<in> snd ` set (map usage_proj ins). ?P s"
    using new by (auto simp: usage_proj_def)
  then have "\<forall>s \<in> snd ` set (group_rows usage_plus usage_proj ins). ?P s"
    unfolding group_rows_def by (intro upsert_all_inv [where P = ?P, OF plus]) auto
  then have "\<forall>s \<in> snd ` set (snd tabs'). ?P s"
    unfolding tabs' snd_conv
    using assms(1) by (intro upsert_all_inv [where P = ?P, OF plus]) (auto simp: cc1h_ok_def t)
  then show ?thesis
    using assms(1) new insert_new_append [OF ins] by (auto simp: cc1h_ok_def t tabs')
qed

lemma usage_input_cc1h:
  assumes "usage_input p u m recs = Some rows"
  shows "\<forall>r \<in> snd ` set rows. ud_cc1h r \<le> ud_cc r"
proof
  fix r assume "r \<in> snd ` set rows"
  then obtain i where "i < length rows" "r = snd (rows ! i)" by (metis imageE in_set_conv_nth)
  moreover obtain rs u' m' where "map_opt (usage_select p u' m') (filter (\<lambda>r. ur_MessageID r \<noteq> []) rs) = Some rows"
    using assms by (auto simp: usage_input_def split: option.splits)
  ultimately obtain x where "usage_select p u' m' x = Some (rows ! i)"
    by (auto simp: map_opt_Some list_all2_conv_all_nth)
  with \<open>r = snd (rows ! i)\<close> show "ud_cc1h r \<le> ud_cc r"
    by (cases "rows ! i") (auto simp: usage_select_def split: option.splits)
qed

section \<open>Properties\<close>

text \<open>A database that takes every text and timestamp as it is, and two sample records.\<close>

definition plain_pg :: pg where
  "plain_pg = \<lparr>pg_json = Some, pg_arg = Some, pg_ts = Some\<rparr>"

definition sample_usage :: "string \<Rightarrow> int \<Rightarrow> usage_record" where
  "sample_usage i n = \<lparr>ur_MessageID = i, ur_RequestID = [], ur_SessionID = ''s'', ur_Tool = [],
     ur_Model = ''m'', ur_Timestamp = 1782900002000000000, ur_InputTokens = n, ur_OutputTokens = 1,
     ur_CacheCreationTokens = 2, ur_CacheCreation1hTokens = 5, ur_CacheReadTokens = 0,
     ur_ProjectPath = [], ur_Backfill = False\<rparr>"

definition sample_edit :: "string \<Rightarrow> edit_record" where
  "sample_edit i = \<lparr>er_EventID = i, er_SessionID = ''s'', er_Tool = ''pi'',
     er_Timestamp = 1782900002000000000, er_Lang = [], er_LinesAdded = 3, er_LinesRemoved = 1,
     er_ProjectPath = [], er_Backfill = False\<rparr>"

text \<open>
  C6. The daily tables never drift from the detail tables: whatever a batch holds (duplicates
  of stored rows, duplicates within the batch, rows without an id) and whether the statement
  succeeds or fails, a daily table that is the grouping of its detail table stays so.
\<close>

theorem ingest_keeps_rollup:
  assumes "usage_consistent ut" "edit_consistent et"
  shows "usage_consistent (snd (Insert p up m u recs ut)) \<and>
    edit_consistent (snd (InsertEdits p up m u edits et))"
  using Insert_consistent [of p up m u recs ut] InsertEdits_consistent [of p up m u edits et] assms
  by (metis surjective_pairing)

theorem ingest_keeps_rollup_witness:
  "usage_consistent (snd (Insert plain_pg True ''m'' ''u''
      [sample_usage ''a'' 1, sample_usage ''b'' 2, sample_usage ''a'' 9] ([], [])))"
proof -
  have "usage_consistent ([], [])" "edit_consistent ([], [])"
    by (simp_all add: rolled_up_def group_rows_def)
  from ingest_keeps_rollup [OF this] show ?thesis by blast
qed

text \<open>
  C7. Sending a batch again is harmless: once a batch was stored, the same batch sent by any
  retry or spool replay is answered with nothing accepted, everything a duplicate, and no
  table changes; the same for edits.
\<close>

theorem ingest_resend:
  assumes "Insert p up m u recs ut = (Inr (a, d), ut')"
    and "InsertEdits p up m u edits et = (Inr (b, e), et')"
  shows "Insert p True m u recs ut' = (Inr (0, a + d), ut') \<and>
    InsertEdits p True m u edits et' = (Inr (0, b + e), et')"
  using Insert_again [OF assms(1)] InsertEdits_again [OF assms(2)] by simp

theorem ingest_resend_witness:
  "Insert plain_pg True ''m'' ''u'' [sample_usage ''a'' 1, sample_usage ''a'' 2]
     (snd (Insert plain_pg True ''m'' ''u'' [sample_usage ''a'' 1, sample_usage ''a'' 2] ([], []))) =
   (Inr (0, 2), snd (Insert plain_pg True ''m'' ''u'' [sample_usage ''a'' 1, sample_usage ''a'' 2] ([], [])))"
proof -
  let ?r = "Insert plain_pg True ''m'' ''u'' [sample_usage ''a'' 1, sample_usage ''a'' 2] ([], [])"
  let ?e = "InsertEdits plain_pg True ''m'' ''u'' [sample_edit ''e''] ([], [])"
  have "fst ?r = Inr (1, 1)" "fst ?e = Inr (1, 0)" by code_simp+
  then have "?r = (Inr (1, 1), snd ?r)" "?e = (Inr (1, 0), snd ?e)" by (metis surjective_pairing)+
  from ingest_resend [OF this] show ?thesis by simp
qed

text \<open>
  C8. Only what was sent matters, not how: two successful runs of batches that carry the same
  rows, cut, ordered and repeated in any way, leave the same detail rows and the same daily
  totals, provided the rows sent under one key agree.
\<close>

theorem ingest_order_irrelevant:
  assumes "usage_consistent tabs"
    and "insert_batches p m u bs tabs = Some t1" "insert_batches p m u bs' tabs = Some t2"
    and "set (usage_rows p m u bs) = set (usage_rows p m u bs')"
    and "single_valued (set (usage_rows p m u bs))"
  shows "usage_view t1 = usage_view t2 \<and> map_of (snd t1) = map_of (snd t2)"
proof -
  have "map_of (usage_rows p m u bs) = map_of (usage_rows p m u bs')"
    using map_of_single_valued [OF assms(5)] map_of_single_valued [OF assms(5) [unfolded assms(4)]]
    by (intro ext option.expand) (metis assms(4) not_None_eq option.collapse option.sel)+
  then have view: "usage_view t1 = usage_view t2"
    using insert_batches_view [OF assms(2)] insert_batches_view [OF assms(3)] by simp
  with consistent_view insert_batches_consistent [OF assms(2,1)] insert_batches_consistent [OF assms(3,1)]
  show ?thesis by blast
qed

theorem ingest_order_irrelevant_witness:
  "map_of (snd (the (insert_batches plain_pg ''m'' ''u'' [[sample_usage ''a'' 1, sample_usage ''b'' 2]] ([], [])))) =
   map_of (snd (the (insert_batches plain_pg ''m'' ''u'' [[sample_usage ''b'' 2], [sample_usage ''a'' 1, sample_usage ''b'' 2]] ([], []))))"
proof -
  let ?bs = "[[sample_usage ''a'' 1, sample_usage ''b'' 2]]"
  let ?bs' = "[[sample_usage ''b'' 2], [sample_usage ''a'' 1, sample_usage ''b'' 2]]"
  have "insert_batches plain_pg ''m'' ''u'' ?bs ([], []) \<noteq> None"
    "insert_batches plain_pg ''m'' ''u'' ?bs' ([], []) \<noteq> None" by code_simp+
  then obtain t1 t2 where t: "insert_batches plain_pg ''m'' ''u'' ?bs ([], []) = Some t1"
    "insert_batches plain_pg ''m'' ''u'' ?bs' ([], []) = Some t2" by blast
  have "usage_consistent ([], [])" by (simp add: rolled_up_def group_rows_def)
  moreover have "set (usage_rows plain_pg ''m'' ''u'' ?bs) = set (usage_rows plain_pg ''m'' ''u'' ?bs')"
    and "single_valued (set (usage_rows plain_pg ''m'' ''u'' ?bs))"
    by (auto simp: usage_rows_def usage_input_def usage_texts_def usage_select_def plain_pg_def
        sample_usage_def single_valued_def)
  ultimately show ?thesis using ingest_order_irrelevant [OF _ t] t by simp
qed



text \<open>
  C13. A rebuild computes exactly the days it was asked for, and nothing else changes: a group
  of a day between the two instants (as UTC days, both included) gets its total over all
  detail rows or no row, any other group keeps its row; on tables already in step it is a no-op.
\<close>

theorem rebuild_exact:
  assumes "RebuildDaily up fro til (detail, daily) = (Inr n, (detail', daily'))"
  shows "detail' = detail \<and>
    map_of daily' (day, rest) = (if utc_day_no fro \<le> day \<and> day \<le> utc_day_no til
       then map_of (group_rows usage_plus usage_proj detail) (day, rest)
       else map_of daily (day, rest)) \<and>
    (usage_consistent (detail, daily) \<longrightarrow>
       usage_consistent (detail', daily') \<and> map_of daily' = map_of daily)"
proof -
  have tx: "rebuildDailyTx fro til (detail, daily) = Some (n, detail', daily')"
    using assms(1) by (auto simp: RebuildDaily_def split: if_splits option.splits)
  note l = rebuild_lookup [OF tx]
  have "map_of daily' = map_of daily" if "map_of daily = map_of (group_rows usage_plus usage_proj detail)"
    using l(2) that by (auto simp: fun_eq_iff)
  with l show ?thesis by (auto simp: in_days_def rolled_up_def)
qed

theorem rebuild_exact_witness:
  "map_of (snd (snd (RebuildDaily True 1782900002000000000 1782900002000000000
     (snd (Insert plain_pg True ''m'' ''u'' [sample_usage ''a'' 1] ([], []))))))
     (20635, ''u'', ''m'', ''claude-code'', ''m'') =
   map_of (group_rows usage_plus usage_proj (fst (snd (Insert plain_pg True ''m'' ''u'' [sample_usage ''a'' 1] ([], [])))))
     (20635, ''u'', ''m'', ''claude-code'', ''m'')"
proof -
  let ?t = "snd (Insert plain_pg True ''m'' ''u'' [sample_usage ''a'' 1] ([], []))"
  let ?r = "RebuildDaily True 1782900002000000000 1782900002000000000 ?t"
  have "fst ?r = Inr 1" by code_simp
  then have "RebuildDaily True 1782900002000000000 1782900002000000000 (fst ?t, snd ?t) =
      (Inr 1, (fst (snd ?r), snd (snd ?r)))" by (metis surjective_pairing)
  moreover have "utc_day_no 1782900002000000000 = 20635" by code_simp
  ultimately show ?thesis
    using rebuild_exact [of True _ _ "fst ?t" "snd ?t" _ _ _ 20635 "(''u'', ''m'', ''claude-code'', ''m'')"]
    by (metis order_refl)
qed

text \<open>
  C15. The one-hour cache writes of a stored row never exceed its cache writes, nor those of a
  daily sum, whatever a client sends, so that a price premium is never charged on more tokens
  than were written.
\<close>

theorem ingest_one_hour_subset:
  assumes "cc1h_ok tabs"
  shows "cc1h_ok (snd (Insert p up m u recs tabs))"
proof -
  have "Insert p up m u recs tabs = (fst (Insert p up m u recs tabs), snd (Insert p up m u recs tabs))"
    by simp
  then show ?thesis
  proof (cases rule: Insert_cases)
    case (stored rows n)
    show ?thesis by (rule ingest_cc1h [OF assms stored(4) usage_input_cc1h [OF stored(3)]])
  qed (simp_all add: assms)
qed

theorem ingest_one_hour_subset_witness:
  "cc1h_ok (snd (Insert plain_pg True ''m'' ''u'' [sample_usage ''a'' 1] ([], [])))"
  by (rule ingest_one_hour_subset) (simp add: cc1h_ok_def)

text \<open>The bootstrap puts the two tables in step, and so does a rebuild that covers every day.\<close>

lemma bootstrap_consistent:
  assumes "bootstrap_daily (detail, []) = Some tabs" "distinct (map fst detail)"
  shows "usage_consistent tabs"
  using assms by (auto simp: bootstrap_daily_def Let_def rolled_up_def distinct_group_rows split: if_splits)

lemma rebuild_all_consistent:
  assumes "RebuildDaily up fro til (detail, daily) = (Inr n, tabs)"
    and "distinct (map fst detail)" "distinct (map fst daily)"
    and "\<forall>g \<in> fst ` set daily \<union> fst ` set (group_rows usage_plus usage_proj detail). in_days fro til (fst g)"
  shows "usage_consistent tabs"
proof -
  obtain detail' daily' where t: "tabs = (detail', daily')" by force
  have tx: "rebuildDailyTx fro til (detail, daily) = Some (n, detail', daily')"
    using assms(1) by (auto simp: RebuildDaily_def t split: if_splits option.splits)
  have "map_of daily' g = map_of (group_rows usage_plus usage_proj detail) g" for g
    using rebuild_lookup(2) [OF tx, of g] assms(4)
    by (metis UnCI map_of_eq_None_iff)
  with rebuild_lookup(1,3) [OF tx] assms(2,3) show ?thesis by (auto simp: rolled_up_def t)
qed

end
