(* ===== verification/Prices.thy ===== *)
theory Prices
  imports Store Complex_Main
begin

text \<open>
  Prices: the in-memory table of \<open>server/pricing.go\<close> with its longest-prefix lookup, and
  the \<open>model_prices\<close> table of \<open>server/store.go\<close> with the statements that write and read it.
  Rates and costs are rational numbers: the rounding of \<open>float64\<close> is not modelled.
\<close>

section \<open>The in-memory table\<close>

record rate =
  rt_Input :: rat
  rt_Output :: rat
  rt_CacheCreation :: rat
  rt_CacheCreation1h :: rat
  rt_CacheRead :: rat

definition mk_rate :: "rat \<Rightarrow> rat \<Rightarrow> rat \<Rightarrow> rat \<Rightarrow> rat \<Rightarrow> rate" where
  "mk_rate i out cc cc1h cr = \<lparr>rt_Input = i, rt_Output = out, rt_CacheCreation = cc,
     rt_CacheCreation1h = cc1h, rt_CacheRead = cr\<rparr>"

definition defaultRates :: "(string \<times> rate) list" where
  "defaultRates =
     [(''claude-opus-4'', mk_rate 15 75 (1875 / 100) 30 (150 / 100)),
      (''claude-sonnet-4'', mk_rate 3 15 (375 / 100) 6 (30 / 100)),
      (''claude-haiku-4'', mk_rate 1 5 (125 / 100) 2 (10 / 100)),
      (''claude-3-5-sonnet'', mk_rate 3 15 (375 / 100) 6 (30 / 100)),
      (''claude-3-5-haiku'', mk_rate (80 / 100) 4 1 (16 / 10) (8 / 100)),
      (''claude-3-opus'', mk_rate 15 75 (1875 / 100) 30 (150 / 100)),
      (''claude-3-haiku'', mk_rate (25 / 100) (125 / 100) (30 / 100) (5 / 10) (3 / 100)),
      (''gpt-5'', mk_rate 3 15 0 0 (30 / 100)),
      (''gpt-5-mini'', mk_rate (30 / 100) (120 / 100) 0 0 (3 / 100)),
      (''gpt-4o'', mk_rate (250 / 100) 10 0 0 (125 / 100)),
      (''gpt-4o-mini'', mk_rate (15 / 100) (60 / 100) 0 0 (75 / 1000)),
      (''gpt-4-turbo'', mk_rate 10 30 0 0 0),
      (''gpt-4'', mk_rate 30 60 0 0 0),
      (''gpt-3.5'', mk_rate (50 / 100) (150 / 100) 0 0 0)]"

record pricer =
  pc_rates :: "(string \<times> rate) list"
  pc_prefixes :: "string list"

text \<open>
  \<open>sort.Slice\<close> by descending length; the order among prefixes of one length is the map's.
\<close>

definition reindex :: "(string \<times> rate) list \<Rightarrow> pricer" where
  "reindex rates = \<lparr>pc_rates = rates, pc_prefixes = sort_key (\<lambda>p. - int (length p)) (map fst rates)\<rparr>"

text \<open>
  \<open>NewPricer\<close>: no path, or the rates of the override file, \<^term>\<open>None\<close> standing for a file
  that cannot be read or decoded.
\<close>

definition NewPricer :: "(string \<times> rate) list option option \<Rightarrow> pricer option" where
  "NewPricer file =
     (case file of
        None \<Rightarrow> Some (reindex defaultRates)
      | Some None \<Rightarrow> None
      | Some (Some custom) \<Rightarrow> Some (reindex (foldl (\<lambda>m (k, v). put k v m) defaultRates custom)))"

definition pricer_rate :: "pricer \<Rightarrow> string \<Rightarrow> rate option" where
  "pricer_rate p model =
     (case map_of (pc_rates p) model of
        Some r \<Rightarrow> Some r
      | None \<Rightarrow>
          (case find (\<lambda>pre. has_prefix model pre) (pc_prefixes p) of
             Some pre \<Rightarrow> map_of (pc_rates p) pre
           | None \<Rightarrow> None))"

definition premium1h :: "rate \<Rightarrow> rat" where
  "premium1h r = (let d = rt_CacheCreation1h r - rt_CacheCreation r in if d < 0 then 0 else d)"

definition Pricer_Cost :: "pricer \<Rightarrow> string \<Rightarrow> int \<Rightarrow> int \<Rightarrow> int \<Rightarrow> int \<Rightarrow> int \<Rightarrow> rat" where
  "Pricer_Cost p model i out cc cc1h cr =
     (case pricer_rate p model of
        None \<Rightarrow> 0
      | Some r \<Rightarrow>
          of_int i * rt_Input r / 1000000 + of_int out * rt_Output r / 1000000 +
          of_int cc * rt_CacheCreation r / 1000000 + of_int cc1h * premium1h r / 1000000 +
          of_int cr * rt_CacheRead r / 1000000)"

section \<open>The price table\<close>

text \<open>A row of \<open>model_prices\<close>; \<open>fetched_at\<close>, which no query uses, is left out.\<close>

record price_row =
  pr_ModelPrefix :: string
  pr_ValidFrom :: gotime
  pr_ValidTo :: "gotime option"
  pr_Rate :: rate
  pr_Source :: string

definition pr_key :: "price_row \<Rightarrow> string \<times> gotime" where
  "pr_key r = (pr_ModelPrefix r, pr_ValidFrom r)"

definition active_for :: "string \<Rightarrow> price_row \<Rightarrow> bool" where
  "active_for pre r \<longleftrightarrow> pr_ModelPrefix r = pre \<and> pr_ValidTo r = None"

text \<open>\<open>INSERT \<dots> ON CONFLICT (model_prefix, valid_from) DO UPDATE\<close>: rates and source only.\<close>

definition put_price :: "price_row \<Rightarrow> price_row list \<Rightarrow> price_row list" where
  "put_price n tab =
     (if list_ex (\<lambda>r. pr_key r = pr_key n) tab
      then map (\<lambda>r. if pr_key r = pr_key n
                    then r\<lparr>pr_Rate := pr_Rate n, pr_Source := pr_Source n\<rparr> else r) tab
      else tab @ [n])"

text \<open>
  \<open>UpsertPrice\<close>, with the database's \<open>NOW()\<close>, Go's clock and the instant the table stores
  for a timestamp. The first row of a query is the first in table order.
\<close>

definition UpsertPrice ::
    "pg \<Rightarrow> bool \<Rightarrow> gotime \<Rightarrow> gotime \<Rightarrow> price_row \<Rightarrow> price_row list \<Rightarrow>
     (db_error + bool) \<times> price_row list" where
  "UpsertPrice p up dbnow gonow row tab =
     (if \<not> up then (Inl DbDown, tab)
      else (case pg_arg p (pr_ModelPrefix row) of
         None \<Rightarrow> (Inl DbReject, tab)
       | Some pre \<Rightarrow>
           (let cur = find (active_for pre) tab in
            if (\<exists>c \<in> set_option cur. pr_Rate c = pr_Rate row) then (Inr False, tab)
            else (case pg_arg p (or_default (pr_Source row) ''manual'') of
               None \<Rightarrow> (Inl DbReject, tab)
             | Some src \<Rightarrow>
                 (case cur of
                    Some c \<Rightarrow>
                      if pr_Source c = ''default-seed'' then
                        (Inr True, map (\<lambda>r. if active_for pre r
                           then r\<lparr>pr_Rate := pr_Rate row, pr_Source := src\<rparr> else r) tab)
                      else
                        (let from = (if is_zero (pr_ValidFrom row) then gonow else pr_ValidFrom row) in
                         case pg_ts p from of
                           None \<Rightarrow> (Inl DbReject, tab)
                         | Some f \<Rightarrow>
                             (Inr True, put_price
                                \<lparr>pr_ModelPrefix = pre, pr_ValidFrom = f, pr_ValidTo = None,
                                 pr_Rate = pr_Rate row, pr_Source = src\<rparr>
                                (map (\<lambda>r. if active_for pre r then r\<lparr>pr_ValidTo := Some dbnow\<rparr> else r) tab)))
                  | None \<Rightarrow>
                      (case pg_ts p epoch of
                         None \<Rightarrow> (Inl DbReject, tab)
                       | Some f \<Rightarrow>
                           (Inr True, put_price
                              \<lparr>pr_ModelPrefix = pre, pr_ValidFrom = f, pr_ValidTo = None,
                               pr_Rate = pr_Rate row, pr_Source = src\<rparr> tab)))))))"

text \<open>The reads; the database's text order only affects how rows are listed.\<close>

definition ListActivePrices :: "bool \<Rightarrow> price_row list \<Rightarrow> db_error + price_row list" where
  "ListActivePrices up tab = (if \<not> up then Inl DbDown else Inr (filter (\<lambda>r. pr_ValidTo r = None) tab))"

definition ListPriceHistory :: "bool \<Rightarrow> string \<Rightarrow> price_row list \<Rightarrow> db_error + price_row list" where
  "ListPriceHistory up pre tab =
     (if \<not> up then Inl DbDown
      else Inr (sort_key pr_ValidFrom (filter (\<lambda>r. pre = [] \<or> pr_ModelPrefix r = pre) tab)))"

text \<open>\<open>SeedDefaultPrices\<close>: only an empty table is seeded, in one transaction.\<close>

definition seed_row :: "string \<times> rate \<Rightarrow> price_row" where
  "seed_row = (\<lambda>(pre, r). \<lparr>pr_ModelPrefix = pre, pr_ValidFrom = epoch, pr_ValidTo = None,
     pr_Rate = r, pr_Source = ''default-seed''\<rparr>)"

definition SeedDefaultPrices ::
    "bool \<Rightarrow> (string \<times> rate) list \<Rightarrow> price_row list \<Rightarrow> db_error option \<times> price_row list" where
  "SeedDefaultPrices up defaults tab =
     (if \<not> up then (Some DbDown, tab)
      else if tab \<noteq> [] then (None, tab)
      else (None, foldl (\<lambda>t d. if list_ex (\<lambda>r. pr_key r = pr_key (seed_row d)) t then t
                               else t @ [seed_row d]) tab defaults))"

section \<open>The price of a day\<close>

text \<open>
  The lateral subquery: among the rows in effect on a day whose prefix is a nonempty prefix
  of the model, the longest prefix, then the latest start. \<open>midnight\<close> is the instant the
  database makes of a date.
\<close>

definition in_effect :: "(int \<Rightarrow> gotime) \<Rightarrow> int \<Rightarrow> price_row \<Rightarrow> bool" where
  "in_effect midnight day r \<longleftrightarrow>
     pr_ValidFrom r \<le> midnight day + day_ns \<and>
     (case pr_ValidTo r of None \<Rightarrow> True | Some e \<Rightarrow> midnight day < e)"

definition price_matches :: "string \<Rightarrow> price_row \<Rightarrow> bool" where
  "price_matches model r \<longleftrightarrow> pr_ModelPrefix r \<noteq> [] \<and> has_prefix model (pr_ModelPrefix r)"

definition better :: "price_row \<Rightarrow> price_row \<Rightarrow> bool" where
  "better a b \<longleftrightarrow>
     length (pr_ModelPrefix b) < length (pr_ModelPrefix a) \<or>
     length (pr_ModelPrefix b) = length (pr_ModelPrefix a) \<and> pr_ValidFrom b < pr_ValidFrom a"

definition pick :: "price_row option \<Rightarrow> price_row \<Rightarrow> price_row option" where
  "pick best r = (case best of None \<Rightarrow> Some r | Some b \<Rightarrow> if better r b then Some r else Some b)"

definition price_lookup :: "(int \<Rightarrow> gotime) \<Rightarrow> price_row list \<Rightarrow> string \<Rightarrow> int \<Rightarrow> price_row option" where
  "price_lookup midnight tab model day =
     foldl pick None (filter (\<lambda>r. price_matches model r \<and> in_effect midnight day r) tab)"

definition sql_cost :: "rate option \<Rightarrow> usage_sum \<Rightarrow> rat" where
  "sql_cost p s =
     (let c = (\<lambda>f. case p of None \<Rightarrow> 0 | Some r \<Rightarrow> f r) in
      (of_int (us_input s) * c rt_Input + of_int (us_output s) * c rt_Output +
       of_int (us_cc s) * c rt_CacheCreation +
       of_int (us_cc1h s) * max (c rt_CacheCreation1h - c rt_CacheCreation) 0 +
       of_int (us_cr s) * c rt_CacheRead) / 1000000)"

section \<open>Longest prefix\<close>

lemma find_Some_D: "find P xs = Some x \<Longrightarrow> x \<in> set xs \<and> P x"
  by (auto simp: find_Some_iff)

lemma find_sorted_key:
  assumes "find P xs = Some x" "sorted (map f xs)" "y \<in> set xs" "P y"
  shows "f x \<le> f y"
  using assms by (induction xs) (auto split: if_splits)

text \<open>
  The rate of the longest key that is a prefix of the model; an exact key is the longest
  there can be.
\<close>

lemma pricer_rate_longest:
  assumes "pricer_rate (reindex rates) model = Some r"
  shows "\<exists>k. map_of rates k = Some r \<and> has_prefix model k \<and>
    (\<forall>k' \<in> fst ` set rates. has_prefix model k' \<longrightarrow> length k' \<le> length k)"
proof (cases "map_of rates model")
  case (Some r')
  have "length k' \<le> length model" if "has_prefix model k'" for k'
    using that by (simp add: has_prefix_iff prefix_length_le)
  with Some assms show ?thesis
    by (intro exI [of _ model]) (auto simp: pricer_rate_def reindex_def has_prefix_def)
next
  case None
  let ?ps = "sort_key (\<lambda>p. - int (length p)) (map fst rates)"
  obtain k where k: "find (has_prefix model) ?ps = Some k" "map_of rates k = Some r"
    using assms None by (auto simp: pricer_rate_def reindex_def split: option.splits)
  have "has_prefix model k" using k(1) by (auto simp: find_Some_iff)
  moreover have "length k' \<le> length k" if "k' \<in> fst ` set rates" "has_prefix model k'" for k'
    using find_sorted_key [OF k(1), of "\<lambda>p. - int (length p)" k'] that by simp
  ultimately show ?thesis using k(2) by blast
qed

lemma pricer_rate_None:
  "pricer_rate (reindex rates) model = None \<longleftrightarrow> (\<forall>k \<in> fst ` set rates. \<not> has_prefix model k)"
proof -
  have self: "has_prefix model model" by (simp add: has_prefix_def)
  have *: "find (has_prefix model) (sort_key (\<lambda>p. - int (length p)) (map fst rates)) = None \<longleftrightarrow>
      (\<forall>k \<in> fst ` set rates. \<not> has_prefix model k)"
    by (simp add: find_None_iff)
  show ?thesis
  proof (cases "map_of rates model")
    case None
    show ?thesis
    proof (cases "find (has_prefix model) (sort_key (\<lambda>p. - int (length p)) (map fst rates))")
      case (Some k)
      then have k: "k \<in> fst ` set rates" "has_prefix model k"
        using find_Some_D [OF Some] by auto
      then obtain r where "map_of rates k = Some r" by (metis map_of_eq_None_iff option.exhaust)
      then have "pricer_rate (reindex rates) model \<noteq> None"
        using None Some by (simp add: pricer_rate_def reindex_def)
      with k show ?thesis by blast
    qed (use None * in \<open>auto simp: pricer_rate_def reindex_def\<close>)
  next
    case (Some r)
    then have "model \<in> fst ` set rates" by (metis map_of_eq_None_iff option.distinct(1))
    with Some self show ?thesis by (auto simp: pricer_rate_def reindex_def)
  qed
qed

lemma foldl_pick:
  assumes "foldl pick b rs = Some r"
  shows "(r \<in> set rs \<or> b = Some r) \<and> (\<forall>x \<in> set rs \<union> set_option b. \<not> better x r)"
  using assms
proof (induction rs arbitrary: b)
  case Nil
  then show ?case by (auto simp: better_def)
next
  case (Cons x rs)
  from Cons.IH [of "pick b x"] Cons.prems
  have IH: "r \<in> set rs \<or> pick b x = Some r" "\<forall>y \<in> set rs \<union> set_option (pick b x). \<not> better y r"
    by auto
  have "\<not> better x r \<and> (\<forall>y \<in> set_option b. \<not> better y r)"
  proof (cases b)
    case None
    with IH(2) show ?thesis by (simp add: pick_def)
  next
    case (Some y)
    have "\<not> better (if better x y then x else y) r" using IH(2) Some by (simp add: pick_def split: if_splits)
    moreover have "better x y \<Longrightarrow> better y r \<Longrightarrow> better x r"
      and "\<not> better x y \<Longrightarrow> better x r \<Longrightarrow> better y r"
      by (auto simp: better_def)
    ultimately show ?thesis using Some by (auto split: if_splits)
  qed
  with IH show ?case by (auto simp: pick_def split: option.splits if_splits)
qed

lemma foldl_pick_Some: "foldl pick (Some b) rs \<noteq> None"
  by (induction rs arbitrary: b) (auto simp: pick_def)

lemma price_lookup_None:
  "price_lookup midnight tab model day = None \<longleftrightarrow>
     (\<forall>r \<in> set tab. \<not> (price_matches model r \<and> in_effect midnight day r))"
proof -
  have "foldl pick None rs = None \<longleftrightarrow> rs = []" for rs
    by (cases rs) (auto simp: pick_def foldl_pick_Some)
  then show ?thesis by (auto simp: price_lookup_def filter_empty_conv)
qed

section \<open>The history of a prefix\<close>

text \<open>
  Keys are unique, and every prefix the table knows has exactly one row in effect without end.
\<close>

definition prices_inv :: "price_row list \<Rightarrow> bool" where
  "prices_inv tab \<longleftrightarrow>
     distinct (map pr_key tab) \<and>
     (\<forall>r \<in> set tab. \<exists>a \<in> set tab. active_for (pr_ModelPrefix r) a) \<and>
     (\<forall>a \<in> set tab. \<forall>b \<in> set tab. pr_ModelPrefix a = pr_ModelPrefix b \<longrightarrow>
        pr_ValidTo a = None \<longrightarrow> pr_ValidTo b = None \<longrightarrow> a = b)"

text \<open>The start of a new row is not the start of an old one.\<close>

definition fresh_start :: "pg \<Rightarrow> gotime \<Rightarrow> price_row \<Rightarrow> price_row list \<Rightarrow> bool" where
  "fresh_start p gonow row tab \<longleftrightarrow>
     (case pg_ts p (if is_zero (pr_ValidFrom row) then gonow else pr_ValidFrom row) of
        None \<Rightarrow> True
      | Some f \<Rightarrow> list_all (\<lambda>r. pr_ValidFrom r \<noteq> f) tab)"

lemma find_active:
  "find (active_for pre) tab = Some c \<Longrightarrow> c \<in> set tab \<and> active_for pre c"
  by (auto simp: find_Some_iff)

lemma put_price_fresh:
  "\<not> list_ex (\<lambda>r. pr_key r = pr_key n) tab \<Longrightarrow> put_price n tab = tab @ [n]"
  by (simp add: put_price_def)

text \<open>The ways a call can end, once the three cases are told apart.\<close>

lemma UpsertPrice_cases:
  assumes "UpsertPrice p up dbnow gonow row tab = (res, tab')"
    and inv: "prices_inv tab" and fresh: "fresh_start p gonow row tab"
  obtains (failed) e where "res = Inl e" "tab' = tab"
  | (same) pre c where "pg_arg p (pr_ModelPrefix row) = Some pre" "c \<in> set tab" "active_for pre c"
      "pr_Rate c = pr_Rate row" "res = Inr False" "tab' = tab"
  | (seed) pre src c where "pg_arg p (pr_ModelPrefix row) = Some pre" "c \<in> set tab" "active_for pre c"
      "pr_Source c = ''default-seed''" "res = Inr True"
      "tab' = map (\<lambda>r. if active_for pre r then r\<lparr>pr_Rate := pr_Rate row, pr_Source := src\<rparr> else r) tab"
  | (change) pre src c f n where "pg_arg p (pr_ModelPrefix row) = Some pre" "c \<in> set tab" "active_for pre c"
      "pg_ts p (if is_zero (pr_ValidFrom row) then gonow else pr_ValidFrom row) = Some f"
      "n = \<lparr>pr_ModelPrefix = pre, pr_ValidFrom = f, pr_ValidTo = None, pr_Rate = pr_Rate row, pr_Source = src\<rparr>"
      "\<forall>r \<in> set tab. pr_ValidFrom r \<noteq> f" "res = Inr True"
      "tab' = map (\<lambda>r. if active_for pre r then r\<lparr>pr_ValidTo := Some dbnow\<rparr> else r) tab @ [n]"
  | (first) pre src f n where "pg_arg p (pr_ModelPrefix row) = Some pre"
      "\<forall>r \<in> set tab. pr_ModelPrefix r \<noteq> pre"
      "n = \<lparr>pr_ModelPrefix = pre, pr_ValidFrom = f, pr_ValidTo = None, pr_Rate = pr_Rate row, pr_Source = src\<rparr>"
      "res = Inr True" "tab' = tab @ [n]"
proof (cases "\<exists>e. res = Inl e")
  case True
  with assms(1) have "tab' = tab"
    by (auto simp: UpsertPrice_def Let_def split: if_splits option.splits)
  with True failed show ?thesis by blast
next
  case False
  with assms(1) obtain pre where pre: "up" "pg_arg p (pr_ModelPrefix row) = Some pre"
    by (auto simp: UpsertPrice_def split: if_splits option.splits)
  show ?thesis
  proof (cases "find (active_for pre) tab")
    case None
    then have none: "\<forall>r \<in> set tab. pr_ModelPrefix r \<noteq> pre"
      using inv by (auto simp: prices_inv_def find_None_iff)
    with False assms(1) pre None obtain src f where r: "res = Inr True"
      "tab' = put_price \<lparr>pr_ModelPrefix = pre, pr_ValidFrom = f, pr_ValidTo = None,
         pr_Rate = pr_Rate row, pr_Source = src\<rparr> tab"
      by (auto simp: UpsertPrice_def Let_def split: option.splits)
    then have "tab' = tab @ [\<lparr>pr_ModelPrefix = pre, pr_ValidFrom = f, pr_ValidTo = None,
         pr_Rate = pr_Rate row, pr_Source = src\<rparr>]"
      using none by (auto simp: put_price_def pr_key_def list_ex_iff)
    with first [OF pre(2) none refl r(1)] show ?thesis by blast
  next
    case (Some c)
    note c = find_active [OF Some]
    show ?thesis
    proof (cases "pr_Rate c = pr_Rate row")
      case True
      with assms(1) pre Some have "res = Inr False" "tab' = tab" by (auto simp: UpsertPrice_def)
      with same [OF pre(2)] c True show ?thesis by blast
    next
      case ne: False
      show ?thesis
      proof (cases "pr_Source c = ''default-seed''")
        case True
        with False ne assms(1) pre Some obtain src where "res = Inr True"
          "tab' = map (\<lambda>r. if active_for pre r then r\<lparr>pr_Rate := pr_Rate row, pr_Source := src\<rparr> else r) tab"
          by (auto simp: UpsertPrice_def Let_def split: option.splits)
        with seed [OF pre(2)] c True show ?thesis by blast
      next
        case nseed: False
        let ?closed = "map (\<lambda>r. if active_for pre r then r\<lparr>pr_ValidTo := Some dbnow\<rparr> else r) tab"
        from False ne nseed assms(1) pre Some obtain src f where r: "res = Inr True"
          "pg_ts p (if is_zero (pr_ValidFrom row) then gonow else pr_ValidFrom row) = Some f"
          "tab' = put_price \<lparr>pr_ModelPrefix = pre, pr_ValidFrom = f, pr_ValidTo = None,
             pr_Rate = pr_Rate row, pr_Source = src\<rparr> ?closed"
          by (auto simp: UpsertPrice_def Let_def split: option.splits)
        have ff: "\<forall>r \<in> set tab. pr_ValidFrom r \<noteq> f"
          using fresh r(2) by (simp add: fresh_start_def list_all_iff)
        then have "tab' = ?closed @ [\<lparr>pr_ModelPrefix = pre, pr_ValidFrom = f, pr_ValidTo = None,
             pr_Rate = pr_Rate row, pr_Source = src\<rparr>]"
          unfolding r(3) by (intro put_price_fresh) (auto simp: list_ex_iff pr_key_def)
        with change [OF pre(2) _ _ r(2) refl ff r(1)] c show ?thesis by blast
      qed
    qed
  qed
qed

lemma UpsertPrice_inv:
  assumes "prices_inv tab" "fresh_start p gonow row tab"
  shows "prices_inv (snd (UpsertPrice p up dbnow gonow row tab))"
proof -
  have u: "UpsertPrice p up dbnow gonow row tab =
      (fst (UpsertPrice p up dbnow gonow row tab), snd (UpsertPrice p up dbnow gonow row tab))"
    by simp
  let ?tab' = "snd (UpsertPrice p up dbnow gonow row tab)"
  note inv = assms(1) [unfolded prices_inv_def]
  from u assms show ?thesis
  proof (cases rule: UpsertPrice_cases)
    case (seed pre src c)
    let ?f = "\<lambda>r. if active_for pre r then r\<lparr>pr_Rate := pr_Rate row, pr_Source := src\<rparr> else r"
    have f: "pr_ModelPrefix (?f r) = pr_ModelPrefix r" "pr_ValidTo (?f r) = pr_ValidTo r"
      "active_for q (?f r) = active_for q r" for r q
      by (simp_all add: active_for_def)
    have "map pr_key ?tab' = map pr_key tab" by (simp add: seed(6) pr_key_def)
    moreover have "\<exists>a \<in> set ?tab'. active_for (pr_ModelPrefix r) a" if "r \<in> set ?tab'" for r
    proof -
      from that obtain r0 where "r0 \<in> set tab" "r = ?f r0" by (auto simp only: seed(6) set_map)
      moreover from this inv obtain a where "a \<in> set tab" "active_for (pr_ModelPrefix r0) a" by blast
      ultimately show ?thesis
        unfolding seed(6) by (intro bexI [of _ "?f a"]) (simp_all only: f set_map, blast)
    qed
    moreover have "a = b" if ab: "a \<in> set ?tab'" "b \<in> set ?tab'" "pr_ModelPrefix a = pr_ModelPrefix b"
      "pr_ValidTo a = None" "pr_ValidTo b = None" for a b
    proof -
      obtain a0 b0 where 0: "a0 \<in> set tab" "b0 \<in> set tab" "a = ?f a0" "b = ?f b0"
        using ab(1,2) by (auto simp only: seed(6) set_map)
      have "pr_ModelPrefix a0 = pr_ModelPrefix b0" "pr_ValidTo a0 = None" "pr_ValidTo b0 = None"
        using ab(3-5) unfolding 0(3,4) f by blast+
      with inv 0(1,2) have "a0 = b0" by blast
      with 0 show ?thesis by simp
    qed
    ultimately show ?thesis using inv by (simp only: prices_inv_def) blast
  next
    case (change pre src c f n)
    let ?closed = "map (\<lambda>r. if active_for pre r then r\<lparr>pr_ValidTo := Some dbnow\<rparr> else r) tab"
    have "map pr_key ?closed = map pr_key tab" by (simp add: pr_key_def)
    then have keys: "map pr_key ?tab' = map pr_key tab @ [(pre, f)]"
      unfolding change(8) by (simp only: map_append) (simp add: change(5) pr_key_def)
    have "(pre, f) \<notin> set (map pr_key tab)" using change(6) by (auto simp: pr_key_def)
    then have "distinct (map pr_key ?tab')"
      using inv unfolding keys by (simp only: distinct_append) auto
    moreover have "\<exists>a \<in> set ?tab'. active_for (pr_ModelPrefix r) a" if r: "r \<in> set ?tab'" for r
    proof (cases "pr_ModelPrefix r = pre")
      case True
      then show ?thesis unfolding change(8) by (auto simp: change(5) active_for_def)
    next
      case False
      then obtain r0 where "r0 \<in> set tab" "pr_ModelPrefix r = pr_ModelPrefix r0"
        using r unfolding change(8) by (auto simp: change(5) split: if_splits)
      with inv obtain a where "a \<in> set tab" "active_for (pr_ModelPrefix r) a" by metis
      with False have "a \<in> set ?tab'" unfolding change(8) by (force simp: active_for_def)
      with \<open>active_for (pr_ModelPrefix r) a\<close> show ?thesis by blast
    qed
    moreover have "a = b" if ab: "a \<in> set ?tab'" "b \<in> set ?tab'" "pr_ModelPrefix a = pr_ModelPrefix b"
      "pr_ValidTo a = None" "pr_ValidTo b = None" for a b
    proof -
      have "x = n \<or> x \<in> set tab \<and> pr_ModelPrefix x \<noteq> pre" if "x \<in> set ?tab'" "pr_ValidTo x = None" for x
        using that unfolding change(8) by (auto simp: active_for_def split: if_splits)
      with ab have "a = n \<or> a \<in> set tab \<and> pr_ModelPrefix a \<noteq> pre"
        "b = n \<or> b \<in> set tab \<and> pr_ModelPrefix b \<noteq> pre" by blast+
      with ab(3-5) inv change(5) show ?thesis by auto
    qed
    ultimately show ?thesis by (simp add: prices_inv_def)
  next
    case (first pre src f n)
    then show ?thesis
      using inv by (auto simp: prices_inv_def pr_key_def active_for_def)
  qed (use assms in auto)
qed

text \<open>After a call that did not fail the prefix is priced at the given rates.\<close>

lemma UpsertPrice_active:
  assumes "prices_inv tab" "fresh_start p gonow row tab"
    and "UpsertPrice p up dbnow gonow row tab = (Inr ch, tab')" "pg_arg p (pr_ModelPrefix row) = Some pre"
  shows "\<exists>a \<in> set tab'. active_for pre a \<and> pr_Rate a = pr_Rate row"
  using assms(3,1,2)
proof (cases rule: UpsertPrice_cases)
  case (seed pre' src c)
  let ?c = "c\<lparr>pr_Rate := pr_Rate row, pr_Source := src\<rparr>"
  have "?c \<in> set tab'" using seed by (auto intro!: image_eqI [of _ _ c])
  moreover have "active_for pre ?c" using seed(1,3) assms(4) by (simp add: active_for_def)
  ultimately show ?thesis by (intro bexI [of _ ?c]) simp_all
qed (use assms(4) in \<open>auto simp: active_for_def\<close>)

text \<open>A price change only touches days that end after it.\<close>

lemma foldl_pick_append: "foldl pick b (xs @ ys) = foldl pick (foldl pick b xs) ys"
  by simp

lemma lookup_close:
  assumes "midnight day < dbnow"
  shows "map_option (\<lambda>r. (pr_ModelPrefix r, pr_ValidFrom r, pr_Rate r)) (price_lookup midnight
      (map (\<lambda>r. if active_for pre r then r\<lparr>pr_ValidTo := Some dbnow\<rparr> else r) tab) model day) =
    map_option (\<lambda>r. (pr_ModelPrefix r, pr_ValidFrom r, pr_Rate r)) (price_lookup midnight tab model day)"
proof -
  let ?close = "\<lambda>r. if active_for pre r then r\<lparr>pr_ValidTo := Some dbnow\<rparr> else r"
  have eff: "(price_matches model (?close r) \<and> in_effect midnight day (?close r)) =
      (price_matches model r \<and> in_effect midnight day r)" for r
    using assms by (auto simp: price_matches_def in_effect_def active_for_def)
  have "foldl pick (map_option ?close b) (map ?close rs) = map_option ?close (foldl pick b rs)" for b rs
  proof (induction rs arbitrary: b)
    case (Cons r rs)
    have "pick (map_option ?close b) (?close r) = map_option ?close (pick b r)"
      by (cases b) (auto simp: pick_def better_def)
    with Cons.IH [of "pick b r"] show ?case by simp
  qed simp
  from this [of None] have "price_lookup midnight (map ?close tab) model day =
      map_option ?close (price_lookup midnight tab model day)"
    by (simp add: price_lookup_def filter_map comp_def eff)
  then show ?thesis by (cases "price_lookup midnight tab model day") simp_all
qed

lemma lookup_append_late:
  assumes "midnight day + day_ns < pr_ValidFrom n"
  shows "price_lookup midnight (tab @ [n]) model day = price_lookup midnight tab model day"
  using assms by (simp add: price_lookup_def in_effect_def)

section \<open>Costs\<close>

lemma sql_cost_plus: "sql_cost p (usage_plus a b) = sql_cost p a + sql_cost p b"
  by (simp add: sql_cost_def usage_plus_def Let_def algebra_simps add_divide_distrib)

lemma sql_cost_Pricer:
  "sql_cost (pricer_rate p model) s =
   Pricer_Cost p model (us_input s) (us_output s) (us_cc s) (us_cc1h s) (us_cr s)"
  by (auto simp: sql_cost_def Pricer_Cost_def premium1h_def Let_def add_divide_distrib max_def
      split: option.split)

section \<open>Properties\<close>

definition sample_row :: "string \<Rightarrow> gotime \<Rightarrow> rat \<Rightarrow> string \<Rightarrow> price_row" where
  "sample_row pre f x src = \<lparr>pr_ModelPrefix = pre, pr_ValidFrom = f, pr_ValidTo = None,
     pr_Rate = mk_rate x x x x x, pr_Source = src\<rparr>"

lemma prices_inv_sample: "prices_inv [sample_row ''gpt'' epoch 1 ''litellm:gpt'']"
  by (simp add: prices_inv_def sample_row_def active_for_def)

text \<open>
  C36. Every model the table knows has exactly one price in effect without an end, and no two
  rows share a start: each upsert keeps this, whether it fails, finds the same rates, replaces
  a seed, closes a price and opens the next, or adds a first one.
\<close>

theorem price_history_invariant:
  assumes "prices_inv tab" "fresh_start p gonow row tab"
  shows "prices_inv (snd (UpsertPrice p up dbnow gonow row tab))"
  using UpsertPrice_inv [OF assms] .

theorem price_history_invariant_witness:
  "prices_inv (snd (UpsertPrice plain_pg True 9 9 (sample_row ''gpt'' 8 2 [])
     [sample_row ''gpt'' epoch 1 ''litellm:gpt'']))"
  by (rule price_history_invariant [OF prices_inv_sample])
    (simp add: fresh_start_def plain_pg_def sample_row_def is_zero_def zero_time_def date_utc_def
      days_from_civil_def epoch_def)

text \<open>
  An upsert takes effect and is idempotent: when it did not fail, the rates given are the
  ones in effect for the prefix, and giving them again changes nothing and says so.
\<close>

theorem price_upsert_effective:
  assumes "prices_inv tab" "fresh_start p gonow row tab"
    and "UpsertPrice p up dbnow gonow row tab = (Inr ch, tab')"
    and "pg_arg p (pr_ModelPrefix row) = Some pre"
  shows "(\<exists>a. find (active_for pre) tab' = Some a \<and> pr_Rate a = pr_Rate row) \<and>
    UpsertPrice p True dbnow' gonow' row tab' = (Inr False, tab')"
proof -
  obtain a where a: "a \<in> set tab'" "active_for pre a" "pr_Rate a = pr_Rate row"
    using UpsertPrice_active [OF assms] by blast
  then obtain b where b: "find (active_for pre) tab' = Some b"
    by (metis find_None_iff option.exhaust)
  have "prices_inv tab'" using UpsertPrice_inv [OF assms(1,2), of up dbnow] assms(3) by simp
  with a find_active [OF b] have "b = a" by (simp add: prices_inv_def active_for_def)
  with a b assms(4) show ?thesis by (simp add: UpsertPrice_def)
qed

theorem price_upsert_effective_witness:
  "UpsertPrice plain_pg True 10 10 (sample_row ''gpt'' 8 2 [])
     (snd (UpsertPrice plain_pg True 9 9 (sample_row ''gpt'' 8 2 []) [sample_row ''gpt'' epoch 1 ''litellm:gpt''])) =
   (Inr False, snd (UpsertPrice plain_pg True 9 9 (sample_row ''gpt'' 8 2 []) [sample_row ''gpt'' epoch 1 ''litellm:gpt'']))"
proof -
  let ?u = "UpsertPrice plain_pg True 9 9 (sample_row ''gpt'' 8 2 []) [sample_row ''gpt'' epoch 1 ''litellm:gpt'']"
  have fresh: "fresh_start plain_pg 9 (sample_row ''gpt'' 8 2 []) [sample_row ''gpt'' epoch 1 ''litellm:gpt'']"
    by (simp add: fresh_start_def plain_pg_def sample_row_def is_zero_def zero_time_def date_utc_def
      days_from_civil_def epoch_def)
  have "fst ?u = Inr True"
    by (simp add: UpsertPrice_def plain_pg_def sample_row_def active_for_def mk_rate_def or_default_def Let_def)
  then have "?u = (Inr True, snd ?u)" by (metis surjective_pairing)
  from price_upsert_effective [OF prices_inv_sample fresh this, of "''gpt''"]
  show ?thesis by (simp add: plain_pg_def sample_row_def)
qed



text \<open>
  C38. The price of a day is the right one: a row in effect on that day whose prefix the model
  starts with, no matching row in effect has a longer prefix, none with the same prefix length
  starts later; and there is none only when no row matches.
\<close>

theorem price_lookup_longest:
  assumes "price_lookup midnight tab model day = Some r"
  shows "r \<in> set tab \<and> price_matches model r \<and> in_effect midnight day r \<and>
    (\<forall>x \<in> set tab. price_matches model x \<and> in_effect midnight day x \<longrightarrow>
       length (pr_ModelPrefix x) < length (pr_ModelPrefix r) \<or>
       pr_ModelPrefix x = pr_ModelPrefix r \<and> pr_ValidFrom x \<le> pr_ValidFrom r)"
proof -
  note * = foldl_pick [OF assms [unfolded price_lookup_def]]
  have "length (pr_ModelPrefix x) < length (pr_ModelPrefix r) \<or>
      pr_ModelPrefix x = pr_ModelPrefix r \<and> pr_ValidFrom x \<le> pr_ValidFrom r"
    if "x \<in> set tab" "price_matches model x" "in_effect midnight day x" for x
  proof -
    have "\<not> better x r" "price_matches model r" using * that by auto
    moreover from this that have "length (pr_ModelPrefix x) = length (pr_ModelPrefix r) \<longrightarrow>
        pr_ModelPrefix x = pr_ModelPrefix r"
      unfolding price_matches_def has_prefix_def by metis
    ultimately show ?thesis by (auto simp: better_def)
  qed
  with * show ?thesis by auto
qed

theorem price_lookup_longest_witness:
  "length (pr_ModelPrefix (the (price_lookup (\<lambda>d. d) [sample_row ''gpt'' 0 1 [], sample_row ''gpt-5'' 0 2 []] ''gpt-5.1'' 3))) = 5"
proof -
  let ?tab = "[sample_row ''gpt'' 0 1 [], sample_row ''gpt-5'' 0 2 []]"
  have "\<exists>r. price_lookup (\<lambda>d. d) ?tab ''gpt-5.1'' 3 = Some r"
    using price_lookup_None [of "\<lambda>d. d" ?tab "''gpt-5.1''" 3]
    by (auto simp: sample_row_def price_matches_def in_effect_def has_prefix_def day_ns_def)
  then obtain r where r: "price_lookup (\<lambda>d. d) ?tab ''gpt-5.1'' 3 = Some r" by blast
  from price_lookup_longest [OF r] r show ?thesis
    by (auto simp: sample_row_def price_matches_def in_effect_def has_prefix_def day_ns_def)
qed

text \<open>
  C40. The in-memory table prices a model by the longest of its keys the model starts with, an
  exact key included, whatever order the map yields its keys in, and only a model that starts
  with no key is free.
\<close>

theorem pricer_longest_prefix:
  assumes "NewPricer file = Some p"
  shows "(case pricer_rate p model of
      None \<Rightarrow> (\<forall>k \<in> fst ` set (pc_rates p). \<not> has_prefix model k) \<and> Pricer_Cost p model i out cc cc1h cr = 0
    | Some r \<Rightarrow> \<exists>k. map_of (pc_rates p) k = Some r \<and> has_prefix model k \<and>
        (\<forall>k' \<in> fst ` set (pc_rates p). has_prefix model k' \<longrightarrow> length k' \<le> length k))"
proof -
  obtain rates where p: "p = reindex rates"
    using assms by (auto simp: NewPricer_def split: option.splits)
  show ?thesis
    using pricer_rate_longest [of rates model] pricer_rate_None [of rates model]
    by (cases "pricer_rate p model") (simp_all add: p reindex_def Pricer_Cost_def)
qed

theorem pricer_longest_prefix_witness:
  "pricer_rate (the (NewPricer None)) ''gpt-4o-mini-2024'' = Some (mk_rate (15 / 100) (60 / 100) 0 0 (75 / 1000))"
proof -
  obtain p where p: "NewPricer None = Some p" "pc_rates p = defaultRates"
    by (simp add: NewPricer_def reindex_def)
  have np: "\<not> (\<forall>k \<in> fst ` set defaultRates. \<not> has_prefix ''gpt-4o-mini-2024'' k)"
    by (simp add: defaultRates_def has_prefix_def)
  then obtain r k where r: "pricer_rate p ''gpt-4o-mini-2024'' = Some r"
    "map_of defaultRates k = Some r" "has_prefix ''gpt-4o-mini-2024'' k"
    "\<forall>k' \<in> fst ` set defaultRates. has_prefix ''gpt-4o-mini-2024'' k' \<longrightarrow> length k' \<le> length k"
    using pricer_longest_prefix [OF p(1), of "''gpt-4o-mini-2024''" 0 0 0 0 0]
    by (cases "pricer_rate p ''gpt-4o-mini-2024''") (auto simp only: p(2) option.case)
  then have "11 \<le> length k" by (simp add: defaultRates_def has_prefix_def)
  with r(2,3) have "k = ''gpt-4o-mini''"
    by (auto simp: defaultRates_def has_prefix_def split: if_splits)
  with r p show ?thesis by (simp add: defaultRates_def)
qed

text \<open>
  Pricing a group is pricing its messages: the query's cost of a sum of rows is the sum of
  their costs, and at the in-memory rate of a model it is the cost the in-memory table gives.
\<close>

theorem cost_additive:
  "sql_cost r (usage_plus a b) = sql_cost r a + sql_cost r b \<and>
   sql_cost (pricer_rate p model) a =
     Pricer_Cost p model (us_input a) (us_output a) (us_cc a) (us_cc1h a) (us_cr a)"
  by (simp add: sql_cost_plus sql_cost_Pricer)

end
