(* ===== verification/Queries.thy ===== *)
theory Queries
  imports Prices
begin

text \<open>
  The dashboard's queries of \<open>server/store.go\<close> over the daily and detail tables. A calendar
  day is its number since 1970-01-01 (the queries print it); the order of rows that depends
  on the database's text order is left open. The flag \<open>up\<close> is \<^term>\<open>False\<close> when the database
  cannot be reached or refuses the text of an argument.
\<close>

section \<open>Filters\<close>

text \<open>\<open>$1 = '' OR user_id = $1\<close>, and the optional half-open range of UTC days.\<close>

definition user_ok :: "string \<Rightarrow> string \<Rightarrow> bool" where
  "user_ok user u \<longleftrightarrow> user = [] \<or> u = user"

definition day_ok :: "gotime \<Rightarrow> gotime \<Rightarrow> int \<Rightarrow> bool" where
  "day_ok fro til day \<longleftrightarrow>
     (is_zero fro \<or> utc_day_no fro \<le> day) \<and> (is_zero til \<or> day < utc_day_no til)"

definition group_ok :: "string \<Rightarrow> gotime \<Rightarrow> gotime \<Rightarrow> int \<times> string \<times> string \<times> string \<times> string \<Rightarrow> bool" where
  "group_ok user fro til = (\<lambda>(day, u, _). user_ok user u \<and> day_ok fro til day)"

section \<open>Usage per day, user, tool and model\<close>

record agg_row =
  ag_Day :: int
  ag_User :: string
  ag_Tool :: string
  ag_Model :: string
  ag_Sum :: usage_sum
  ag_Cost :: rat

definition agg_key :: "usage_group \<Rightarrow> int \<times> string \<times> string \<times> string" where
  "agg_key = (\<lambda>(day, u, m, t, mo). (day, u, t, mo))"

definition agg_groups ::
    "string \<Rightarrow> gotime \<Rightarrow> gotime \<Rightarrow> (usage_group \<times> usage_sum) list \<Rightarrow>
     ((int \<times> string \<times> string \<times> string) \<times> usage_sum) list" where
  "agg_groups user fro til daily =
     group_rows usage_plus (\<lambda>(g, s). (agg_key g, s)) (filter (\<lambda>(g, _). group_ok user fro til g) daily)"

definition Aggregate ::
    "bool \<Rightarrow> (int \<Rightarrow> gotime) \<Rightarrow> price_row list \<Rightarrow> string \<Rightarrow> gotime \<Rightarrow> gotime \<Rightarrow>
     (usage_group \<times> usage_sum) list \<Rightarrow> db_error + agg_row list" where
  "Aggregate up midnight prices user fro til daily =
     (if \<not> up then Inl DbDown
      else
        (let rows = agg_groups user fro til daily in
         if list_all (\<lambda>(_, s). usage_fits s) rows then
           Inr (map (\<lambda>((day, u, t, mo), s).
             \<lparr>ag_Day = day, ag_User = u, ag_Tool = t, ag_Model = mo, ag_Sum = s,
              ag_Cost = sql_cost (map_option pr_Rate (price_lookup midnight prices mo day)) s\<rparr>) rows)
         else Inl DbOverflow))"

section \<open>Edits per language\<close>

definition lang_key :: "edit_group \<Rightarrow> int \<times> string \<times> string \<times> string" where
  "lang_key = (\<lambda>(day, u, m, t, l). (day, u, t, l))"

definition LangAggregate ::
    "bool \<Rightarrow> string \<Rightarrow> gotime \<Rightarrow> gotime \<Rightarrow> (edit_group \<times> edit_sum) list \<Rightarrow>
     db_error + ((int \<times> string \<times> string \<times> string) \<times> edit_sum) list" where
  "LangAggregate up user fro til daily =
     (if \<not> up then Inl DbDown
      else
        (let rows = group_rows edit_plus (\<lambda>(g, s). (lang_key g, s))
               (filter (\<lambda>(g, _). group_ok user fro til g) daily)
         in if list_all (\<lambda>(_, s). edit_fits s) rows then Inr rows else Inl DbOverflow))"

section \<open>Activity per day\<close>

definition sum_tokens :: "usage_sum \<Rightarrow> int" where
  "sum_tokens s = us_input s + us_output s + us_cc s + us_cr s"

text \<open>Tokens and messages; the sum inside \<open>SUM\<close> is a \<open>bigint\<close> of its own.\<close>

definition pair_plus :: "int \<times> int \<Rightarrow> int \<times> int \<Rightarrow> int \<times> int" where
  "pair_plus a b = (fst a + fst b, snd a + snd b)"

definition bigint_sum_ok :: "usage_sum \<Rightarrow> bool" where
  "bigint_sum_ok s \<longleftrightarrow> in_i64 (us_input s + us_output s) \<and>
     in_i64 (us_input s + us_output s + us_cc s) \<and> in_i64 (sum_tokens s)"

definition ActivityAggregate ::
    "bool \<Rightarrow> string \<Rightarrow> gotime \<Rightarrow> gotime \<Rightarrow> (usage_group \<times> usage_sum) list \<Rightarrow>
     db_error + (int \<times> int \<times> int) list" where
  "ActivityAggregate up user fro til daily =
     (if \<not> up then Inl DbDown
      else
        (let kept = filter (\<lambda>(g, _). group_ok user fro til g) daily;
             rows = group_rows pair_plus (\<lambda>(g, s). (fst g, (sum_tokens s, us_messages s))) kept
         in if list_all (\<lambda>(_, s). bigint_sum_ok s) kept \<and>
               list_all (\<lambda>(_, t, n). in_i64 t \<and> in_i64 n) rows
            then Inr (sort_key fst rows) else Inl DbOverflow))"

section \<open>The weekly clock\<close>

record clock_row =
  ck_DOW :: int
  ck_Hour :: int
  ck_Tokens :: int
  ck_Messages :: int
  ck_Cost :: rat

record clock_sum =
  cl_tokens :: int
  cl_msgs :: int
  cl_cost :: rat

definition clock_plus :: "clock_sum \<Rightarrow> clock_sum \<Rightarrow> clock_sum" where
  "clock_plus a b = \<lparr>cl_tokens = cl_tokens a + cl_tokens b, cl_msgs = cl_msgs a + cl_msgs b,
     cl_cost = cl_cost a + cl_cost b\<rparr>"

definition ts_ok :: "gotime \<Rightarrow> gotime \<Rightarrow> gotime \<Rightarrow> bool" where
  "ts_ok fro til t \<longleftrightarrow> (is_zero fro \<or> fro \<le> t) \<and> (is_zero til \<or> t < til)"

text \<open>1970-01-01 was a Thursday.\<close>

definition dow :: "int \<Rightarrow> int" where "dow day = (day + 4) mod 7"

definition hour_of :: "int \<Rightarrow> int" where "hour_of wall = wall mod day_ns div (3600 * ns_per_sec)"

definition clock_groups ::
    "(gotime \<Rightarrow> int) \<Rightarrow> string \<Rightarrow> gotime \<Rightarrow> gotime \<Rightarrow> (usage_key \<times> usage_row) list \<Rightarrow>
     ((int \<times> int \<times> string) \<times> usage_sum) list" where
  "clock_groups wall user fro til detail =
     group_rows usage_plus
       (\<lambda>x. ((wall (ud_ts (snd x)) div day_ns, hour_of (wall (ud_ts (snd x))), ud_model (snd x)),
             snd (usage_proj x)))
       (filter (\<lambda>(_, r). user_ok user (ud_user_id r) \<and> ts_ok fro til (ud_ts r)) detail)"

text \<open>
  The zone is a parameter: the wall clock (as nanoseconds of a UTC clock showing the same)
  of an instant, or \<^term>\<open>None\<close> for a name the database does not know.
\<close>

definition ClockAggregate ::
    "bool \<Rightarrow> (string \<Rightarrow> (gotime \<Rightarrow> int) option) \<Rightarrow> (int \<Rightarrow> gotime) \<Rightarrow> price_row list \<Rightarrow>
     string \<Rightarrow> string \<Rightarrow> gotime \<Rightarrow> gotime \<Rightarrow> (usage_key \<times> usage_row) list \<Rightarrow>
     db_error + clock_row list" where
  "ClockAggregate up zones midnight prices user tz fro til detail =
     (if \<not> up then Inl DbDown
      else (case zones (or_default tz ''UTC'') of
         None \<Rightarrow> Inl DbReject
       | Some wall \<Rightarrow>
           (let rows = group_rows clock_plus
                  (\<lambda>((day, hour, mo), s). ((dow day, hour),
                     \<lparr>cl_tokens = sum_tokens s, cl_msgs = us_messages s,
                      cl_cost = sql_cost (map_option pr_Rate (price_lookup midnight prices mo day)) s\<rparr>))
                  (clock_groups wall user fro til detail)
            in if list_all (\<lambda>(_, c). in_i64 (cl_tokens c) \<and> in_i64 (cl_msgs c)) rows
               then Inr (sort_key (\<lambda>c. ck_DOW c * 24 + ck_Hour c)
                      (map (\<lambda>((d, h), c). \<lparr>ck_DOW = d, ck_Hour = h, ck_Tokens = cl_tokens c,
                                          ck_Messages = cl_msgs c, ck_Cost = cl_cost c\<rparr>) rows))
               else Inl DbOverflow)))"

section \<open>Facts\<close>

interpretation pairs: rollup pair_plus
  by unfold_locales (auto simp: pair_plus_def)

interpretation clock: rollup clock_plus
  by unfold_locales (auto simp: clock_plus_def)

text \<open>The rows a message contributes to, and the message's own totals.\<close>

definition row_ok :: "string \<Rightarrow> gotime \<Rightarrow> gotime \<Rightarrow> usage_key \<times> usage_row \<Rightarrow> bool" where
  "row_ok user fro til x \<longleftrightarrow> user_ok user (ud_user_id (snd x)) \<and> day_ok fro til (utc_day_no (ud_ts (snd x)))"

lemma group_ok_proj: "group_ok user fro til (fst (usage_proj x)) = row_ok user fro til x"
  by (simp add: group_ok_def row_ok_def usage_proj_def split: prod.split)

lemma agg_key_proj:
  "agg_key (fst (usage_proj x)) =
     (utc_day_no (ud_ts (snd x)), ud_user_id (snd x), ud_tool (snd x), ud_model (snd x))"
  by (simp add: agg_key_def usage_proj_def split: prod.split)

lemma agg_groups_lookup:
  assumes "usage_consistent (detail, daily)"
  shows "map_of (agg_groups user fro til daily) k =
    total usage_plus (map (\<lambda>x. snd (usage_proj x))
      (filter (\<lambda>x. row_ok user fro til x \<and>
         (utc_day_no (ud_ts (snd x)), ud_user_id (snd x), ud_tool (snd x), ud_model (snd x)) = k) detail))"
proof -
  have *: "values_at k (map (\<lambda>x. (agg_key (fst (usage_proj x)), snd (usage_proj x)))
        (filter (\<lambda>x. group_ok user fro til (fst (usage_proj x))) xs)) =
      map (\<lambda>x. snd (usage_proj x)) (filter (\<lambda>x. row_ok user fro til x \<and>
         (utc_day_no (ud_ts (snd x)), ud_user_id (snd x), ud_tool (snd x), ud_model (snd x)) = k) xs)" for xs
    by (induction xs) (simp_all add: group_ok_proj agg_key_proj)
  show ?thesis
    unfolding agg_groups_def usage.regroup [OF assms] * ..
qed

definition row_tokens :: "usage_row \<Rightarrow> int" where
  "row_tokens r = ud_input r + ud_output r + ud_cc r + ud_cr r"

lemma tokens_proj [simp]: "sum_tokens (snd (usage_proj x)) = row_tokens (snd x)"
  "us_messages (snd (usage_proj x)) = 1"
  by (simp_all add: sum_tokens_def row_tokens_def usage_proj_def split: prod.split)

lemma tokens_plus: "sum_tokens (usage_plus a b) = sum_tokens a + sum_tokens b"
  "us_messages (usage_plus a b) = us_messages a + us_messages b"
  by (simp_all add: sum_tokens_def usage_plus_def)

lemma total_sum:
  assumes "\<And>a b. f (add a b) = f a + (f b :: int)"
  shows "total add vs = Some s \<Longrightarrow> f s = (\<Sum>v\<leftarrow>vs. f v)"
proof -
  have "f (foldl add v vs) = f v + (\<Sum>v\<leftarrow>vs. f v)" for v vs
    by (induction vs arbitrary: v) (simp_all add: assms)
  then show "total add vs = Some s \<Longrightarrow> ?thesis" by (cases vs) auto
qed

lemma clock_hour_bounds: "0 \<le> hour_of w" "hour_of w \<le> 23" and dow_bounds: "0 \<le> dow d" "dow d \<le> 6"
  by (simp_all add: hour_of_def day_ns_def dow_def)

lemma filtered_sum:
  assumes "usage_consistent (detail, daily)" "\<And>a b. f (usage_plus a b) = f a + f b"
  shows "(\<Sum>x\<leftarrow>filter (\<lambda>(g, _). group_ok user fro til g) daily. f (snd x)) =
    (\<Sum>x\<leftarrow>filter (row_ok user fro til) detail. f (snd (usage_proj x)) :: int)"
proof -
  let ?w = "\<lambda>g s. if group_ok user fro til g then f s else 0"
  have "(\<Sum>x\<leftarrow>filter (\<lambda>(g, _). group_ok user fro til g) xs. f (snd x)) = (\<Sum>(g, s)\<leftarrow>xs. ?w g s)" for xs
    by (induction xs) auto
  moreover have "(\<Sum>(g, s)\<leftarrow>daily. ?w g s) = (\<Sum>x\<leftarrow>detail. ?w (fst (usage_proj x)) (snd (usage_proj x)))"
    by (rule rolled_up_sum [OF assms(1)]) (simp add: assms(2))
  moreover have "(\<Sum>x\<leftarrow>xs. ?w (fst (usage_proj x)) (snd (usage_proj x))) =
      (\<Sum>x\<leftarrow>filter (row_ok user fro til) xs. f (snd (usage_proj x)))" for xs
    by (induction xs) (auto simp: group_ok_proj)
  ultimately show ?thesis by simp
qed

lemma total_cost:
  "total usage_plus (map (\<lambda>x. snd (usage_proj x)) xs) = Some s \<Longrightarrow>
   sql_cost p s = (\<Sum>x\<leftarrow>xs. sql_cost p (snd (usage_proj x)))"
proof -
  have "sql_cost p (foldl usage_plus v vs) = sql_cost p v + (\<Sum>v\<leftarrow>vs. sql_cost p v)" for v vs
    by (induction vs arbitrary: v) (simp_all add: sql_cost_plus)
  then show "total usage_plus (map (\<lambda>x. snd (usage_proj x)) xs) = Some s \<Longrightarrow> ?thesis"
    by (cases xs) (auto simp: comp_def)
qed

lemma agg_total:
  assumes "usage_consistent (detail, daily)" "Aggregate up midnight prices user fro til daily = Inr rows"
  shows "(\<Sum>r\<leftarrow>rows. sum_tokens (ag_Sum r)) = (\<Sum>x\<leftarrow>filter (row_ok user fro til) detail. row_tokens (snd x))"
proof -
  let ?mk = "\<lambda>((day, u, t, mo), s). \<lparr>ag_Day = day, ag_User = u, ag_Tool = t, ag_Model = mo, ag_Sum = s,
              ag_Cost = sql_cost (map_option pr_Rate (price_lookup midnight prices mo day)) s\<rparr>"
  let ?gs = "agg_groups user fro til daily"
  have rows: "rows = map ?mk ?gs"
    using assms(2) by (auto simp: Aggregate_def Let_def split: if_splits)
  have "(\<Sum>r\<leftarrow>rows. sum_tokens (ag_Sum r)) = (\<Sum>x\<leftarrow>?gs. sum_tokens (snd x))"
    by (simp add: rows comp_def case_prod_beta)
  also have "\<dots> = (\<Sum>x\<leftarrow>filter (\<lambda>(g, _). group_ok user fro til g) daily. sum_tokens (snd x))"
    unfolding agg_groups_def sum_group_rows_snd [of sum_tokens, OF tokens_plus(1)]
    by (simp add: case_prod_beta)
  also have "\<dots> = (\<Sum>x\<leftarrow>filter (row_ok user fro til) detail. row_tokens (snd x))"
    using filtered_sum [of _ _ sum_tokens, OF assms(1) tokens_plus(1)] by simp
  finally show ?thesis .
qed

section \<open>Properties\<close>

text \<open>
  C32. The summary reports the stored messages: on daily tables in step with the detail rows,
  each row of the answer sums exactly the messages of its UTC day, user, tool and model in the
  range asked for, its cost is the sum of their costs at that day's price, and the tokens of
  all rows together are those of all messages in the range.
\<close>

theorem summary_exact:
  assumes "usage_consistent (detail, daily)"
    and "Aggregate up midnight prices user fro til daily = Inr rows"
  shows "(\<forall>r \<in> set rows.
      let ms = filter (\<lambda>x. row_ok user fro til x \<and>
        (utc_day_no (ud_ts (snd x)), ud_user_id (snd x), ud_tool (snd x), ud_model (snd x)) =
        (ag_Day r, ag_User r, ag_Tool r, ag_Model r)) detail
      in total usage_plus (map (\<lambda>x. snd (usage_proj x)) ms) = Some (ag_Sum r) \<and>
         ag_Cost r = (\<Sum>x\<leftarrow>ms. sql_cost (map_option pr_Rate
           (price_lookup midnight prices (ag_Model r) (ag_Day r))) (snd (usage_proj x)))) \<and>
    (\<Sum>r\<leftarrow>rows. sum_tokens (ag_Sum r)) = (\<Sum>x\<leftarrow>filter (row_ok user fro til) detail. row_tokens (snd x))"
proof -
  let ?mk = "\<lambda>((day, u, t, mo), s). \<lparr>ag_Day = day, ag_User = u, ag_Tool = t, ag_Model = mo, ag_Sum = s,
              ag_Cost = sql_cost (map_option pr_Rate (price_lookup midnight prices mo day)) s\<rparr>"
  let ?gs = "agg_groups user fro til daily"
  have rows: "rows = map ?mk ?gs"
    using assms(2) by (auto simp: Aggregate_def Let_def split: if_splits)
  have "total usage_plus (map (\<lambda>x. snd (usage_proj x)) (filter (\<lambda>x. row_ok user fro til x \<and>
        (utc_day_no (ud_ts (snd x)), ud_user_id (snd x), ud_tool (snd x), ud_model (snd x)) = k) detail)) = Some s"
    if "(k, s) \<in> set ?gs" for k s
  proof -
    have "map_of ?gs k = Some s"
      unfolding agg_groups_def by (rule map_of_is_SomeI [OF distinct_group_rows that [unfolded agg_groups_def]])
    with agg_groups_lookup [OF assms(1)] show ?thesis by simp
  qed
  note exact = this
  show ?thesis
    using exact total_cost [OF exact] agg_total [OF assms] by (auto simp: rows Let_def)
qed

lemma activity_sums:
  assumes "usage_consistent (detail, daily)" "ActivityAggregate up user fro til daily = Inr days"
  shows "(\<Sum>r\<leftarrow>days. fst (snd r)) = (\<Sum>x\<leftarrow>filter (row_ok user fro til) detail. row_tokens (snd x))"
    and "(\<Sum>r\<leftarrow>days. snd (snd r)) = int (length (filter (row_ok user fro til) detail))"
proof -
  let ?kept = "filter (\<lambda>(g, _). group_ok user fro til g) daily"
  let ?day = "\<lambda>(g, s). (fst g, (sum_tokens s, us_messages s))"
  have days: "mset days = mset (group_rows pair_plus ?day ?kept)"
    using assms(2) by (auto simp: ActivityAggregate_def Let_def split: if_splits)
  have plus: "fst (pair_plus a b) = fst a + fst b" "snd (pair_plus a b) = snd a + snd b" for a b
    by (simp_all add: pair_plus_def)
  show "(\<Sum>r\<leftarrow>days. fst (snd r)) = (\<Sum>x\<leftarrow>filter (row_ok user fro til) detail. row_tokens (snd x))"
    unfolding sum_list_mset [OF days] sum_group_rows_snd [of fst pair_plus, OF plus(1)]
    using filtered_sum [of _ _ sum_tokens, OF assms(1) tokens_plus(1), of user fro til]
    by (simp add: case_prod_beta)
  show "(\<Sum>r\<leftarrow>days. snd (snd r)) = int (length (filter (row_ok user fro til) detail))"
    unfolding sum_list_mset [OF days] sum_group_rows_snd [of snd pair_plus, OF plus(2)]
    using filtered_sum [of _ _ us_messages, OF assms(1) tokens_plus(2), of user fro til]
    by (simp add: case_prod_beta sum_list_triv)
qed

lemma clock_sums:
  assumes "ClockAggregate up zones midnight prices user tz fro til detail = Inr cells"
  shows "(\<Sum>c\<leftarrow>cells. ck_Tokens c) = (\<Sum>x\<leftarrow>filter (\<lambda>x. user_ok user (ud_user_id (snd x)) \<and>
      ts_ok fro til (ud_ts (snd x))) detail. row_tokens (snd x))"
    and "list_all (\<lambda>c. 0 \<le> ck_DOW c \<and> ck_DOW c \<le> 6 \<and> 0 \<le> ck_Hour c \<and> ck_Hour c \<le> 23) cells"
proof -
  obtain wall where wall: "zones (or_default tz ''UTC'') = Some wall"
    using assms by (auto simp: ClockAggregate_def split: if_splits option.splits)
  let ?cell = "\<lambda>((day, hour, mo), s). ((dow day, hour), \<lparr>cl_tokens = sum_tokens s, cl_msgs = us_messages s,
      cl_cost = sql_cost (map_option pr_Rate (price_lookup midnight prices mo day)) s\<rparr>)"
  let ?mk = "\<lambda>((d, h), c). \<lparr>ck_DOW = d, ck_Hour = h, ck_Tokens = cl_tokens c, ck_Messages = cl_msgs c, ck_Cost = cl_cost c\<rparr>"
  let ?gs = "clock_groups wall user fro til detail"
  have cells: "mset cells = mset (map ?mk (group_rows clock_plus ?cell ?gs))"
    using assms wall by (auto simp: ClockAggregate_def Let_def split: if_splits)
  have plus: "cl_tokens (clock_plus a b) = cl_tokens a + cl_tokens b" for a b
    by (simp add: clock_plus_def)
  have "(\<Sum>c\<leftarrow>cells. ck_Tokens c) = (\<Sum>x\<leftarrow>group_rows clock_plus ?cell ?gs. cl_tokens (snd x))"
    unfolding sum_list_mset [OF cells] by (simp add: comp_def case_prod_beta)
  also have "\<dots> = (\<Sum>x\<leftarrow>?gs. sum_tokens (snd x))"
    unfolding sum_group_rows_snd [of cl_tokens clock_plus, OF plus] by (simp add: case_prod_beta)
  also have "\<dots> = (\<Sum>x\<leftarrow>filter (\<lambda>x. user_ok user (ud_user_id (snd x)) \<and> ts_ok fro til (ud_ts (snd x))) detail.
      row_tokens (snd x))"
    unfolding clock_groups_def sum_group_rows_snd [of sum_tokens usage_plus, OF tokens_plus(1)]
    by (simp add: case_prod_unfold)
  finally show "(\<Sum>c\<leftarrow>cells. ck_Tokens c) = (\<Sum>x\<leftarrow>filter (\<lambda>x. user_ok user (ud_user_id (snd x)) \<and>
      ts_ok fro til (ud_ts (snd x))) detail. row_tokens (snd x))" .
  have "0 \<le> ck_DOW c \<and> ck_DOW c \<le> 6 \<and> 0 \<le> ck_Hour c \<and> ck_Hour c \<le> 23" if "c \<in> set cells" for c
  proof -
    from that cells obtain x where x: "x \<in> set (group_rows clock_plus ?cell ?gs)" "c = ?mk x"
      by (metis (no_types, lifting) imageE list.set_map set_mset_mset)
    from group_rows_keys [OF x(1)] obtain y where y: "y \<in> set ?gs" "fst x = fst (?cell y)" by blast
    from group_rows_keys [OF y(1) [unfolded clock_groups_def]] obtain t where
      "fst (snd (fst y)) = hour_of t" by force
    with x(2) y(2) clock_hour_bounds [of t] dow_bounds [of "fst (fst y)"] show ?thesis
      by (simp add: case_prod_beta)
  qed
  then show "list_all (\<lambda>c. 0 \<le> ck_DOW c \<and> ck_DOW c \<le> 6 \<and> 0 \<le> ck_Hour c \<and> ck_Hour c \<le> 23) cells"
    by (simp add: list_all_iff)
qed

definition sample_tables :: usage_tables where
  "sample_tables = snd (Insert plain_pg True ''m'' ''u'' [sample_usage ''a'' 1, sample_usage ''b'' 2] ([], []))"

lemma sample_consistent: "usage_consistent (fst sample_tables, snd sample_tables)"
proof -
  have "usage_consistent ([], [])" by (simp add: rolled_up_def group_rows_def)
  then show ?thesis
    using Insert_consistent [of plain_pg True "''m''" "''u''" _ "([], [])" _ sample_tables]
    by (simp add: sample_tables_def) (metis surjective_pairing)
qed

theorem summary_exact_witness:
  "(\<Sum>r\<leftarrow>projr (Aggregate True (\<lambda>d. d * day_ns) [sample_row ''m'' epoch 1 []] [] zero_time zero_time (snd sample_tables)).
      sum_tokens (ag_Sum r)) = 9"
proof -
  let ?a = "Aggregate True (\<lambda>d. d * day_ns) [sample_row ''m'' epoch 1 []] [] zero_time zero_time (snd sample_tables)"
  have "isl ?a = False" by code_simp
  then have "?a = Inr (projr ?a)" by (cases ?a) auto
  note summary_exact [OF sample_consistent this]
  moreover have "(\<Sum>x\<leftarrow>filter (row_ok [] zero_time zero_time) (fst sample_tables). row_tokens (snd x)) = 9"
    by code_simp
  ultimately show ?thesis by simp
qed



end
