(* ===== verification/Crypto.thy ===== *)
theory Crypto
  imports GoStrings
begin

unbundle bit_operations_syntax

text \<open>
  The two encodings the API keys go through (\<open>server/auth.go\<close>): SHA-256 with its hex text
  (\<open>crypto/sha256\<close>, \<open>encoding/hex\<close>) and unpadded URL-safe base64 (\<open>encoding/base64\<close>).
\<close>

section \<open>SHA-256\<close>

type_synonym w32 = "32 word"

text \<open>The tables of the standard, eight words to a number.\<close>

definition eight_words :: "int \<Rightarrow> w32 list" where
  "eight_words x = map (\<lambda>i. word_of_int (x div 2 ^ (32 * i))) (rev [0..<8])"

definition sha_k :: "w32 list" where
  "sha_k = concat (map eight_words [
     0x428a2f9871374491b5c0fbcfe9b5dba53956c25b59f111f1923f82a4ab1c5ed5,
     0xd807aa9812835b01243185be550c7dc372be5d7480deb1fe9bdc06a7c19bf174,
     0xe49b69c1efbe47860fc19dc6240ca1cc2de92c6f4a7484aa5cb0a9dc76f988da,
     0x983e5152a831c66db00327c8bf597fc7c6e00bf3d5a7914706ca635114292967,
     0x27b70a852e1b21384d2c6dfc53380d13650a7354766a0abb81c2c92e92722c85,
     0xa2bfe8a1a81a664bc24b8b70c76c51a3d192e819d6990624f40e3585106aa070,
     0x19a4c1161e376c082748774c34b0bcb5391c0cb34ed8aa4a5b9cca4f682e6ff3,
     0x748f82ee78a5636f84c878148cc7020890befffaa4506cebbef9a3f7c67178f2])"

definition sha_init :: "w32 list" where
  "sha_init = eight_words 0x6a09e667bb67ae853c6ef372a54ff53a510e527f9b05688c1f83d9ab5be0cd19"

definition big_s0 :: "w32 \<Rightarrow> w32" where
  "big_s0 a = word_rotr 2 a XOR word_rotr 13 a XOR word_rotr 22 a"

definition big_s1 :: "w32 \<Rightarrow> w32" where
  "big_s1 e = word_rotr 6 e XOR word_rotr 11 e XOR word_rotr 25 e"

definition small_s0 :: "w32 \<Rightarrow> w32" where
  "small_s0 w = word_rotr 7 w XOR word_rotr 18 w XOR drop_bit 3 w"

definition small_s1 :: "w32 \<Rightarrow> w32" where
  "small_s1 w = word_rotr 17 w XOR word_rotr 19 w XOR drop_bit 10 w"

text \<open>The message schedule: the sixteen words of a block extended to sixty-four, newest first.\<close>

fun extend :: "nat \<Rightarrow> w32 list \<Rightarrow> w32 list" where
  "extend 0 ws = ws"
| "extend (Suc n) ws =
     extend n ((small_s1 (ws ! 1) + ws ! 6 + small_s0 (ws ! 14) + ws ! 15) # ws)"

definition sha_round :: "w32 list \<Rightarrow> w32 \<times> w32 \<Rightarrow> w32 list" where
  "sha_round st = (\<lambda>(k, w). case st of
     [a, b, c, d, e, f, g, h] \<Rightarrow>
       (let t1 = h + big_s1 e + ((e AND f) XOR (NOT e AND g)) + k + w;
            t2 = big_s0 a + ((a AND b) XOR (a AND c) XOR (b AND c))
        in [t1 + t2, a, b, c, d + t1, e, f, g])
   | _ \<Rightarrow> st)"

definition sha_block :: "w32 list \<Rightarrow> w32 list \<Rightarrow> w32 list" where
  "sha_block st blk =
     map2 (+) st (foldl sha_round st (zip sha_k (rev (extend 48 (rev blk)))))"

fun words_of :: "int list \<Rightarrow> w32 list" where
  "words_of (a # b # c # d # r) = word_of_int (((a * 256 + b) * 256 + c) * 256 + d) # words_of r"
| "words_of _ = []"

definition byte_list :: "nat \<Rightarrow> int \<Rightarrow> int list" where
  "byte_list n x = map (\<lambda>i. (x div 256 ^ i) mod 256) (rev [0..<n])"

text \<open>The message, a one bit, zeros to 56 modulo 64 bytes, and its length in bits.\<close>

definition sha_pad :: "int list \<Rightarrow> int list" where
  "sha_pad m = m @ 0x80 # replicate (nat ((55 - int (length m)) mod 64)) 0 @
     byte_list 8 (8 * int (length m))"

fun blocks_of :: "nat \<Rightarrow> w32 list \<Rightarrow> w32 list list" where
  "blocks_of 0 ws = []"
| "blocks_of (Suc n) ws = take 16 ws # blocks_of n (drop 16 ws)"

definition sha256 :: "int list \<Rightarrow> int list" where
  "sha256 m =
     (let ws = words_of (sha_pad m)
      in concat (map (\<lambda>w. byte_list 4 (uint w)) (foldl sha_block sha_init (blocks_of (length ws div 16) ws))))"

definition hex_digit :: "int \<Rightarrow> char" where
  "hex_digit n = (if n < 10 then char_of (48 + n) else char_of (87 + n))"

definition hex_encode :: "int list \<Rightarrow> string" where
  "hex_encode bs = concat (map (\<lambda>b. [hex_digit (b div 16), hex_digit (b mod 16)]) bs)"

section \<open>Base64\<close>

definition b64_char :: "int \<Rightarrow> char" where
  "b64_char n =
     (if n < 26 then char_of (65 + n) else if n < 52 then char_of (71 + n)
      else if n < 62 then char_of (n - 4) else if n = 62 then CHR ''-'' else CHR ''_'')"

fun b64_encode :: "int list \<Rightarrow> string" where
  "b64_encode (a # b # c # r) =
     b64_char (a div 4) # b64_char (a mod 4 * 16 + b div 16) #
     b64_char (b mod 16 * 4 + c div 64) # b64_char (c mod 64) # b64_encode r"
| "b64_encode [a, b] = [b64_char (a div 4), b64_char (a mod 4 * 16 + b div 16), b64_char (b mod 16 * 4)]"
| "b64_encode [a] = [b64_char (a div 4), b64_char (a mod 4 * 16)]"
| "b64_encode [] = []"

lemma length_b64_encode: "length bs = 3 * n \<Longrightarrow> length (b64_encode bs) = 4 * n"
proof (induction bs arbitrary: n rule: b64_encode.induct)
  case (1 a b c r)
  then have "length r = 3 * (n - 1)" "0 < n" by auto
  with 1(1) [of "n - 1"] show ?case by simp
qed auto

lemma b64_example: "b64_encode [255, 254, 253, 1] = ''__79AQ''"
  by code_simp

text \<open>The test vector of the standard.\<close>

lemma sha256_abc:
  "hex_encode (sha256 [97, 98, 99]) = ''ba7816bf8f01cfea414140de5dae2223b00361a396177a9cb410ff61f20015ad''"
  by code_simp

end
