(* ===== verification/Auth.thy ===== *)
theory Auth
  imports Crypto Store
begin

text \<open>
  Users and API keys (\<open>server/auth.go\<close>): minting, resolving and revoking keys. The random
  bytes of a new key are an argument; only the hash of a key is stored. The flag \<open>up\<close> is
  \<^term>\<open>False\<close> when the database cannot be reached or refuses the text of an argument.
\<close>

section \<open>The tables\<close>

record user_row =
  u_UserID :: string
  u_Email :: "string option"
  u_CreatedAt :: gotime
  u_DisabledAt :: "gotime option"

record key_row =
  k_Hash :: string
  k_Prefix :: string
  k_UserID :: string
  k_Name :: "string option"
  k_CreatedAt :: gotime
  k_LastUsedAt :: "gotime option"
  k_RevokedAt :: "gotime option"

record auth_tables =
  au_users :: "user_row list"
  au_keys :: "key_row list"

datatype auth_error = InvalidKey | UserIDRequired | NoActiveKey | AuthDb db_error | Conflict | NoSuchUser | RandError

section \<open>Keys\<close>

definition KeyPrefix :: string where "KeyPrefix = ''tuk_''"

definition hashKey :: "string \<Rightarrow> string" where
  "hashKey raw = hex_encode (sha256 (map byte_of raw))"

text \<open>\<open>NewAPIKey\<close> on the 24 bytes \<open>rand.Read\<close> fills in: the raw key, its hash, its prefix.\<close>

definition NewAPIKey :: "int list option \<Rightarrow> (string \<times> string \<times> string) option" where
  "NewAPIKey rnd =
     (case rnd of
        None \<Rightarrow> None
      | Some buf \<Rightarrow>
          (let raw = KeyPrefix @ b64_encode buf in Some (raw, hashKey raw, take 12 raw)))"

definition ResolveAPIKey ::
    "bool \<Rightarrow> gotime \<Rightarrow> string \<Rightarrow> auth_tables \<Rightarrow> (auth_error + string) \<times> auth_tables" where
  "ResolveAPIKey up now raw st =
     (if \<not> has_prefix raw KeyPrefix then (Inl InvalidKey, st)
      else if \<not> up then (Inl (AuthDb DbDown), st)
      else
        (let hit = (\<lambda>k. k_Hash k = hashKey raw \<and> k_RevokedAt k = None) in
         case find hit (au_keys st) of
           None \<Rightarrow> (Inl InvalidKey, st)
         | Some k \<Rightarrow>
             (Inr (k_UserID k),
              st\<lparr>au_keys := map (\<lambda>k. if hit k then k\<lparr>k_LastUsedAt := Some now\<rparr> else k) (au_keys st)\<rparr>)))"

section \<open>Administration\<close>

definition CreateUser ::
    "pg \<Rightarrow> bool \<Rightarrow> gotime \<Rightarrow> string \<Rightarrow> string \<Rightarrow> auth_tables \<Rightarrow> auth_error option \<times> auth_tables" where
  "CreateUser p up now userID email st =
     (if userID = [] then (Some UserIDRequired, st)
      else if \<not> up then (Some (AuthDb DbDown), st)
      else (case (pg_arg p userID, pg_arg p email) of
         (Some u, Some e) \<Rightarrow>
           if list_ex (\<lambda>x. u_UserID x = u) (au_users st) then (Some Conflict, st)
           else (None, st\<lparr>au_users := au_users st @
                  [\<lparr>u_UserID = u, u_Email = nullif_empty e, u_CreatedAt = now, u_DisabledAt = None\<rparr>]\<rparr>)
       | _ \<Rightarrow> (Some (AuthDb DbReject), st)))"

definition CreateAPIKey ::
    "pg \<Rightarrow> bool \<Rightarrow> gotime \<Rightarrow> int list option \<Rightarrow> string \<Rightarrow> string \<Rightarrow> auth_tables \<Rightarrow>
     (auth_error + string \<times> string) \<times> auth_tables" where
  "CreateAPIKey p up now rnd userID name st =
     (case NewAPIKey rnd of
        None \<Rightarrow> (Inl RandError, st)
      | Some (raw, hash, pre) \<Rightarrow>
          if \<not> up then (Inl (AuthDb DbDown), st)
          else (case (pg_arg p userID, pg_arg p name) of
             (Some u, Some n) \<Rightarrow>
               if list_ex (\<lambda>k. k_Hash k = hash) (au_keys st) then (Inl Conflict, st)
               else if \<not> list_ex (\<lambda>x. u_UserID x = u) (au_users st) then (Inl NoSuchUser, st)
               else (Inr (raw, pre), st\<lparr>au_keys := au_keys st @
                      [\<lparr>k_Hash = hash, k_Prefix = pre, k_UserID = u, k_Name = nullif_empty n,
                       k_CreatedAt = now, k_LastUsedAt = None, k_RevokedAt = None\<rparr>]\<rparr>)
           | _ \<Rightarrow> (Inl (AuthDb DbReject), st)))"

definition RevokeAPIKey ::
    "bool \<Rightarrow> gotime \<Rightarrow> string \<Rightarrow> auth_tables \<Rightarrow> auth_error option \<times> auth_tables" where
  "RevokeAPIKey up now pre st =
     (let pre = (if 12 \<le> length pre then take 12 pre else pre);
          hit = (\<lambda>k. k_Prefix k = pre \<and> k_RevokedAt k = None)
      in if \<not> up then (Some (AuthDb DbDown), st)
         else if \<not> list_ex hit (au_keys st) then (Some NoActiveKey, st)
         else (None, st\<lparr>au_keys :=
                map (\<lambda>k. if hit k then k\<lparr>k_RevokedAt := Some now\<rparr> else k) (au_keys st)\<rparr>))"

record UserRow =
  uv_UserID :: string
  uv_Email :: string
  uv_CreatedAt :: gotime
  uv_Disabled :: bool

definition user_view_row :: "user_row \<Rightarrow> UserRow" where
  "user_view_row u = \<lparr>uv_UserID = u_UserID u, uv_Email = (case u_Email u of None \<Rightarrow> [] | Some e \<Rightarrow> e),
     uv_CreatedAt = u_CreatedAt u, uv_Disabled = (u_DisabledAt u \<noteq> None)\<rparr>"

text \<open>The lists; the database's text order, which they are printed in, is left open.\<close>

definition ListUsers :: "bool \<Rightarrow> auth_tables \<Rightarrow> db_error + UserRow list" where
  "ListUsers up st = (if \<not> up then Inl DbDown else Inr (map user_view_row (au_users st)))"

record APIKeyRow =
  kv_Prefix :: string
  kv_UserID :: string
  kv_Name :: string
  kv_CreatedAt :: gotime
  kv_LastUsedAt :: "gotime option"
  kv_Revoked :: bool

definition key_view_row :: "key_row \<Rightarrow> APIKeyRow" where
  "key_view_row k = \<lparr>kv_Prefix = k_Prefix k, kv_UserID = k_UserID k,
     kv_Name = (case k_Name k of None \<Rightarrow> [] | Some n \<Rightarrow> n), kv_CreatedAt = k_CreatedAt k,
     kv_LastUsedAt = k_LastUsedAt k, kv_Revoked = (k_RevokedAt k \<noteq> None)\<rparr>"

definition ListAPIKeys :: "bool \<Rightarrow> string \<Rightarrow> auth_tables \<Rightarrow> db_error + APIKeyRow list" where
  "ListAPIKeys up userID st =
     (if \<not> up then Inl DbDown
      else Inr (map key_view_row (filter (\<lambda>k. userID = [] \<or> k_UserID k = userID)
                 (sort_key (\<lambda>k. - k_CreatedAt k) (au_keys st)))))"

section \<open>Facts\<close>

text \<open>Hashes are unique and every key belongs to a user, as the schema's constraints say.\<close>

definition auth_inv :: "auth_tables \<Rightarrow> bool" where
  "auth_inv st \<longleftrightarrow> distinct (map k_Hash (au_keys st)) \<and> distinct (map u_UserID (au_users st)) \<and>
     (\<forall>k \<in> set (au_keys st). k_UserID k \<in> u_UserID ` set (au_users st))"

lemma Resolve_Inr:
  assumes "ResolveAPIKey up now raw st = (Inr u, st')"
  shows "\<exists>k \<in> set (au_keys st). k_Hash k = hashKey raw \<and> k_RevokedAt k = None \<and> k_UserID k = u"
    and "has_prefix raw KeyPrefix" "au_users st' = au_users st"
    and "map (\<lambda>k. k\<lparr>k_LastUsedAt := None\<rparr>) (au_keys st') = map (\<lambda>k. k\<lparr>k_LastUsedAt := None\<rparr>) (au_keys st)"
  using assms by (auto simp: ResolveAPIKey_def Let_def find_Some_iff split: if_splits option.splits)

lemma map_hash_update:
  "map k_Hash (map (\<lambda>k. if P k then k\<lparr>k_LastUsedAt := a\<rparr> else k) ks) = map k_Hash ks"
  "map k_Hash (map (\<lambda>k. if P k then k\<lparr>k_RevokedAt := a\<rparr> else k) ks) = map k_Hash ks"
  by (simp_all add: comp_def if_distrib cong: if_cong)

lemma auth_inv_Resolve: "auth_inv st \<Longrightarrow> auth_inv (snd (ResolveAPIKey up now raw st))"
  by (auto simp: ResolveAPIKey_def auth_inv_def Let_def map_hash_update simp del: map_map
      split: option.split)

lemma auth_inv_CreateUser: "auth_inv st \<Longrightarrow> auth_inv (snd (CreateUser p up now u e st))"
  by (auto simp: CreateUser_def auth_inv_def list_ex_iff split: option.split)

lemma auth_inv_CreateAPIKey: "auth_inv st \<Longrightarrow> auth_inv (snd (CreateAPIKey p up now rnd u n st))"
  by (auto simp: CreateAPIKey_def auth_inv_def list_ex_iff split: option.split)

lemma auth_inv_Revoke: "auth_inv st \<Longrightarrow> auth_inv (snd (RevokeAPIKey up now pre st))"
  by (auto simp: RevokeAPIKey_def auth_inv_def Let_def map_hash_update simp del: map_map)

lemma NewAPIKey_Some:
  assumes "NewAPIKey (Some buf) = Some (raw, hash, pre)" "length buf = 24"
  shows "raw = KeyPrefix @ b64_encode buf" "hash = hashKey raw" "length raw = 36" "pre = take 12 raw"
    "has_prefix raw KeyPrefix"
  using assms length_b64_encode [of buf 8] by (auto simp: NewAPIKey_def KeyPrefix_def Let_def has_prefix_def)

text \<open>A key resolves to its owner from the moment it is minted.\<close>

lemma find_append_None: "find P xs = None \<Longrightarrow> find P (xs @ ys) = find P ys"
  by (induction xs) (auto split: if_splits)

lemma create_then_resolve:
  assumes "auth_inv st" "CreateAPIKey p up now rnd userID name st = (Inr (raw, pre), st')"
    and "pg_arg p userID = Some u"
  shows "fst (ResolveAPIKey True now' raw st') = Inr u"
proof -
  obtain buf where buf: "rnd = Some buf" "NewAPIKey rnd = Some (raw, hashKey raw, pre)"
    using assms(2) by (cases rnd) (auto simp: CreateAPIKey_def NewAPIKey_def Let_def split: if_splits option.splits)
  have raw: "has_prefix raw KeyPrefix"
    using buf by (auto simp: NewAPIKey_def KeyPrefix_def Let_def has_prefix_def)
  have new: "\<not> list_ex (\<lambda>k. k_Hash k = hashKey raw) (au_keys st)"
    and keys: "\<exists>k. au_keys st' = au_keys st @ [k] \<and> k_Hash k = hashKey raw \<and> k_RevokedAt k = None \<and> k_UserID k = u"
    using assms(2,3) buf(2) by (auto simp: CreateAPIKey_def split: if_splits option.splits)
  have "find (\<lambda>k. k_Hash k = hashKey raw \<and> k_RevokedAt k = None) (au_keys st) = None"
    using new by (auto simp: find_None_iff list_ex_iff)
  with keys raw show ?thesis by (auto simp: ResolveAPIKey_def Let_def find_append_None)
qed


section \<open>Runs of operations\<close>

datatype auth_op =
    OpResolve bool gotime string
  | OpCreateUser bool gotime string string
  | OpCreateKey bool gotime "int list option" string string
  | OpRevoke bool gotime string

fun auth_step :: "pg \<Rightarrow> auth_tables \<Rightarrow> auth_op \<Rightarrow> auth_tables" where
  "auth_step p st (OpResolve up now raw) = snd (ResolveAPIKey up now raw st)"
| "auth_step p st (OpCreateUser up now u e) = snd (CreateUser p up now u e st)"
| "auth_step p st (OpCreateKey up now rnd u n) = snd (CreateAPIKey p up now rnd u n st)"
| "auth_step p st (OpRevoke up now pre) = snd (RevokeAPIKey up now pre st)"

abbreviation auth_run :: "pg \<Rightarrow> auth_tables \<Rightarrow> auth_op list \<Rightarrow> auth_tables" where
  "auth_run p \<equiv> foldl (auth_step p)"

fun revokes :: "string \<Rightarrow> auth_op \<Rightarrow> bool" where
  "revokes pre (OpRevoke up now pre') \<longleftrightarrow> take 12 pre' = pre"
| "revokes pre _ \<longleftrightarrow> False"

lemma auth_inv_run: "auth_inv st \<Longrightarrow> auth_inv (auth_run p st ops)"
proof (induction ops arbitrary: st)
  case (Cons op ops)
  then show ?case
    by (cases op) (simp_all add: auth_inv_Resolve auth_inv_CreateUser auth_inv_CreateAPIKey auth_inv_Revoke)
qed simp

text \<open>A key row stays, with its hash, prefix and owner; a revocation stays too.\<close>

definition row_at :: "auth_tables \<Rightarrow> string \<Rightarrow> string \<Rightarrow> string \<Rightarrow> bool \<Rightarrow> bool" where
  "row_at st hash pre u live \<longleftrightarrow>
     (\<exists>k \<in> set (au_keys st). k_Hash k = hash \<and> k_Prefix k = pre \<and> k_UserID k = u \<and>
        (k_RevokedAt k = None) = live)"

lemma row_at_append: "row_at st hash pre u live \<Longrightarrow> au_keys st' = au_keys st @ ks \<Longrightarrow> row_at st' hash pre u live"
  by (auto simp: row_at_def)

lemma row_at_touch:
  assumes "row_at st hash pre u live"
  shows "row_at (st\<lparr>au_keys := map (\<lambda>k. if P k then k\<lparr>k_LastUsedAt := t\<rparr> else k) (au_keys st)\<rparr>) hash pre u live"
proof -
  obtain k where k: "k \<in> set (au_keys st)" "k_Hash k = hash \<and> k_Prefix k = pre \<and> k_UserID k = u \<and>
      (k_RevokedAt k = None) = live" using assms by (auto simp: row_at_def)
  let ?k = "if P k then k\<lparr>k_LastUsedAt := t\<rparr> else k"
  have "?k \<in> (\<lambda>k. if P k then k\<lparr>k_LastUsedAt := t\<rparr> else k) ` set (au_keys st)"
    using k(1) by (rule imageI)
  with k(2) show ?thesis unfolding row_at_def by (intro bexI [of _ ?k]) auto
qed

lemma row_live_step:
  assumes "row_at st hash pre u True" "\<not> revokes pre op"
  shows "row_at (auth_step p st op) hash pre u True"
proof (cases op)
  case (OpRevoke up now pre')
  with assms(2) have "(if 12 \<le> length pre' then take 12 pre' else pre') \<noteq> pre" by (auto split: if_splits)
  with assms(1) OpRevoke show ?thesis
    by (fastforce simp: RevokeAPIKey_def row_at_def Let_def)
qed (use assms(1) in \<open>auto simp: ResolveAPIKey_def CreateUser_def CreateAPIKey_def Let_def row_at_touch
       elim: row_at_append split: option.split\<close>)

lemma row_dead_step:
  assumes "row_at st hash pre u False"
  shows "row_at (auth_step p st op) hash pre u False"
proof -
  from assms obtain k where k: "k \<in> set (au_keys st)" "k_Hash k = hash" "k_Prefix k = pre" "k_UserID k = u"
    "k_RevokedAt k \<noteq> None" by (auto simp: row_at_def)
  then have "k \<in> set (au_keys (auth_step p st op))"
    by (cases op) (force simp: ResolveAPIKey_def CreateUser_def CreateAPIKey_def RevokeAPIKey_def Let_def
        split: option.split)+
  with k show ?thesis by (auto simp: row_at_def)
qed

lemma row_live_run:
  "row_at st hash pre u True \<Longrightarrow> \<forall>op \<in> set ops. \<not> revokes pre op \<Longrightarrow> row_at (auth_run p st ops) hash pre u True"
  by (induction ops arbitrary: st) (simp_all add: row_live_step)

lemma row_dead_run:
  "row_at st hash pre u False \<Longrightarrow> row_at (auth_run p st ops) hash pre u False"
  by (induction ops arbitrary: st) (simp_all add: row_dead_step)

text \<open>What a key's row says is what resolving the key answers.\<close>

lemma same_row:
  assumes "auth_inv st" "k \<in> set (au_keys st)" "k' \<in> set (au_keys st)" "k_Hash k = k_Hash k'"
  shows "k = k'"
  using assms by (auto simp: auth_inv_def distinct_map inj_on_def)

lemma resolve_live:
  assumes "auth_inv st" "row_at st (hashKey raw) pre u True" "has_prefix raw KeyPrefix"
  shows "fst (ResolveAPIKey True now raw st) = Inr u"
proof -
  let ?hit = "\<lambda>k. k_Hash k = hashKey raw \<and> k_RevokedAt k = None"
  from assms(2) obtain k where k: "k \<in> set (au_keys st)" "?hit k" "k_UserID k = u"
    by (auto simp: row_at_def)
  then obtain k' where k': "find ?hit (au_keys st) = Some k'"
    by (cases "find ?hit (au_keys st)") (auto simp: find_None_iff)
  then have "k' \<in> set (au_keys st)" "?hit k'" by (auto simp: find_Some_iff)
  with same_row [OF assms(1)] k have "k' = k" by auto
  with k k' assms(3) show ?thesis by (simp add: ResolveAPIKey_def Let_def)
qed

lemma resolve_dead:
  assumes "auth_inv st" "row_at st (hashKey raw) pre u False"
  shows "fst (ResolveAPIKey True now raw st) = Inl InvalidKey"
proof -
  have "find (\<lambda>k. k_Hash k = hashKey raw \<and> k_RevokedAt k = None) (au_keys st) = None"
    using same_row [OF assms(1)] assms(2) by (fastforce simp: row_at_def find_None_iff)
  then show ?thesis by (simp add: ResolveAPIKey_def)
qed

lemma created_row:
  assumes "CreateAPIKey p up now rnd userID name st = (Inr (raw, pre), st')" "pg_arg p userID = Some u"
  shows "row_at st' (hashKey raw) pre u True" "has_prefix raw KeyPrefix"
  using assms by (auto simp: CreateAPIKey_def NewAPIKey_def Let_def row_at_def KeyPrefix_def has_prefix_def
      split: if_splits option.splits)

lemma revoked_row:
  assumes "row_at st hash pre u live" "take 12 pre' = pre"
  shows "row_at (snd (RevokeAPIKey True now pre' st)) hash pre u False"
proof (cases live)
  case True
  from assms(2) have n: "(if 12 \<le> length pre' then take 12 pre' else pre') = pre" by auto
  from assms(1) True obtain k where k: "k \<in> set (au_keys st)" "k_Hash k = hash" "k_Prefix k = pre"
    "k_UserID k = u" "k_RevokedAt k = None" by (auto simp: row_at_def)
  then have "k\<lparr>k_RevokedAt := Some now\<rparr> \<in> set (au_keys (snd (RevokeAPIKey True now pre' st)))"
    unfolding RevokeAPIKey_def n Let_def by (force simp: list_ex_iff)
  with k show ?thesis
    by (auto simp: row_at_def intro!: bexI [of _ "k\<lparr>k_RevokedAt := Some now\<rparr>"])
next
  case False
  with assms(1) row_dead_step [of st hash pre u undefined "OpRevoke True now pre'"] show ?thesis by simp
qed

section \<open>Properties\<close>

text \<open>
  C31. The life of an API key: from the moment it is minted, through any run of operations that
  revokes no key of its prefix, it resolves to the user it was minted for; and from the moment
  its prefix is revoked, no later operation makes it resolve again.
\<close>

theorem api_key_lifecycle:
  assumes "auth_inv st" and "CreateAPIKey p up now rnd userID name st = (Inr (raw, pre), st1)"
    and "pg_arg p userID = Some u"
  shows "((\<forall>op \<in> set ops. \<not> revokes pre op) \<longrightarrow>
          fst (ResolveAPIKey True t raw (auth_run p st1 ops)) = Inr u) \<and>
    (take 12 pre' = pre \<longrightarrow>
       fst (ResolveAPIKey True t' raw
         (auth_run p (snd (RevokeAPIKey True tr pre' (auth_run p st1 ops))) ops')) = Inl InvalidKey)"
proof -
  have inv: "auth_inv st1" using auth_inv_CreateAPIKey [OF assms(1)] assms(2) by (metis snd_conv)
  note row = created_row [OF assms(2,3)]
  let ?st2 = "auth_run p st1 ops"
  have "row_at ?st2 (hashKey raw) pre u True \<or> row_at ?st2 (hashKey raw) pre u False"
  proof (induction ops rule: rev_induct)
    case (snoc op ops)
    then show ?case
    proof (elim disjE)
      assume live: "row_at (auth_run p st1 ops) (hashKey raw) pre u True"
      show ?thesis
      proof (cases "revokes pre op")
        case True
        then obtain up now pre' where op: "op = OpRevoke up now pre'" "take 12 pre' = pre"
          by (cases op) auto
        with live revoked_row [OF live, of pre'] show ?thesis by (cases up) (auto simp: RevokeAPIKey_def Let_def)
      qed (use row_live_step [OF live] in simp)
    qed (use row_dead_step in auto)
  qed (use row(1) in simp)
  then obtain live where live: "row_at ?st2 (hashKey raw) pre u live" by blast
  have "fst (ResolveAPIKey True t raw ?st2) = Inr u" if "\<forall>op \<in> set ops. \<not> revokes pre op"
    by (rule resolve_live [OF auth_inv_run [OF inv] row_live_run [OF row(1) that] row(2)])
  moreover have "fst (ResolveAPIKey True t' raw (auth_run p (snd (RevokeAPIKey True tr pre' ?st2)) ops')) =
      Inl InvalidKey" if "take 12 pre' = pre"
    by (rule resolve_dead [OF auth_inv_run [OF auth_inv_Revoke [OF auth_inv_run [OF inv]]]
          row_dead_run [OF revoked_row [OF live that]]])
  ultimately show ?thesis by blast
qed

text \<open>
  Only a stored, unrevoked key resolves, to the user it was stored for, who exists; and a
  resolution changes nothing but the time of last use.
\<close>

theorem resolve_sound:
  assumes "auth_inv st" and "ResolveAPIKey up now raw st = (Inr u, st')"
  shows "(\<exists>k \<in> set (au_keys st). k_Hash k = hashKey raw \<and> k_RevokedAt k = None \<and> k_UserID k = u) \<and>
    u \<in> u_UserID ` set (au_users st) \<and> au_users st' = au_users st \<and>
    map (\<lambda>k. k\<lparr>k_LastUsedAt := None\<rparr>) (au_keys st') = map (\<lambda>k. k\<lparr>k_LastUsedAt := None\<rparr>) (au_keys st)"
  using Resolve_Inr [OF assms(2)] assms(1) by (auto simp: auth_inv_def)

section \<open>Samples\<close>

definition sample_auth :: auth_tables where
  "sample_auth = \<lparr>au_users = [\<lparr>u_UserID = ''ann'', u_Email = None, u_CreatedAt = 1, u_DisabledAt = None\<rparr>],
     au_keys = []\<rparr>"

definition sample_raw :: string where "sample_raw = KeyPrefix @ b64_encode (replicate 24 7)"

lemma sample_raw_eq: "sample_raw = ''tuk_BwcHBwcHBwcHBwcHBwcHBwcHBwcHBwcH''" by code_simp

lemma sample_mint:
  "CreateAPIKey plain_pg True 2 (Some (replicate 24 7)) ''ann'' [] sample_auth =
     (Inr (sample_raw, ''tuk_BwcHBwcH''), sample_auth\<lparr>au_keys :=
        [\<lparr>k_Hash = hashKey sample_raw, k_Prefix = ''tuk_BwcHBwcH'', k_UserID = ''ann'', k_Name = None,
          k_CreatedAt = 2, k_LastUsedAt = None, k_RevokedAt = None\<rparr>]\<rparr>)"
proof -
  have "take 12 sample_raw = ''tuk_BwcHBwcH''" by (simp add: sample_raw_eq)
  then have new: "NewAPIKey (Some (replicate 24 7)) = Some (sample_raw, hashKey sample_raw, ''tuk_BwcHBwcH'')"
    by (simp add: NewAPIKey_def sample_raw_def Let_def)
  show ?thesis
    unfolding CreateAPIKey_def new by (simp add: sample_auth_def plain_pg_def nullif_empty_def)
qed

theorem api_key_lifecycle_witness:
  "fst (ResolveAPIKey True 4 sample_raw (auth_run plain_pg (snd (CreateAPIKey plain_pg True 2
     (Some (replicate 24 7)) ''ann'' [] sample_auth)) [OpRevoke True 3 ''tuk_other'', OpCreateUser True 3 ''bob'' []])) =
     Inr ''ann'' \<and>
   fst (ResolveAPIKey True 6 sample_raw (auth_run plain_pg (snd (RevokeAPIKey True 5 sample_raw
     (snd (CreateAPIKey plain_pg True 2 (Some (replicate 24 7)) ''ann'' [] sample_auth))))
     [OpCreateKey True 6 (Some (replicate 24 7)) ''ann'' []])) = Inl InvalidKey"
proof -
  have inv: "auth_inv sample_auth" by (simp add: sample_auth_def auth_inv_def)
  have arg: "pg_arg plain_pg ''ann'' = Some ''ann''" by (simp add: plain_pg_def)
  have t: "take 12 sample_raw = ''tuk_BwcHBwcH''" by (simp add: sample_raw_eq)
  show ?thesis
    using api_key_lifecycle [OF inv sample_mint arg, of "[OpRevoke True 3 ''tuk_other'', OpCreateUser True 3 ''bob'' []]" 4]
      api_key_lifecycle [OF inv sample_mint arg, of "[]" _ sample_raw 6 5
        "[OpCreateKey True 6 (Some (replicate 24 7)) ''ann'' []]"] t
    by (simp add: sample_mint)
qed

theorem resolve_sound_witness:
  "\<exists>k \<in> set (au_keys (snd (CreateAPIKey plain_pg True 2 (Some (replicate 24 7)) ''ann'' [] sample_auth))).
     k_Hash k = hashKey sample_raw \<and> k_RevokedAt k = None \<and> k_UserID k = ''ann''"
proof -
  let ?st = "snd (CreateAPIKey plain_pg True 2 (Some (replicate 24 7)) ''ann'' [] sample_auth)"
  have inv: "auth_inv ?st" by (rule auth_inv_CreateAPIKey) (simp add: sample_auth_def auth_inv_def)
  have arg: "pg_arg plain_pg ''ann'' = Some ''ann''" by (simp add: plain_pg_def)
  have "fst (ResolveAPIKey True 3 sample_raw ?st) = Inr ''ann''"
    using resolve_live [OF inv] created_row [OF sample_mint arg] by (simp add: sample_mint)
  then obtain st' where "ResolveAPIKey True 3 sample_raw ?st = (Inr ''ann'', st')"
    by (metis prod.collapse)
  from resolve_sound [OF inv this] show ?thesis by blast
qed

text \<open>A disabled user's keys keep resolving: the users table is not consulted.\<close>

lemma resolve_ignores_users:
  "fst (ResolveAPIKey up now raw (st\<lparr>au_users := us\<rparr>)) = fst (ResolveAPIKey up now raw st)"
  by (simp add: ResolveAPIKey_def Let_def split: option.split)

end
