(* ===== verification/JsonEnc.thy ===== *)
theory JsonEnc
  imports Json
begin

text \<open>
  \<open>json.Marshal\<close> as the program uses it: strings with the HTML-safe escapes, integers,
  booleans, arrays and objects, and the proof that the parser of \<open>Json\<close> reads each of
  them back from any context it is written in.
\<close>

section \<open>Strings\<close>

definition html_safe :: "char \<Rightarrow> bool" where
  "html_safe c \<longleftrightarrow> 32 \<le> byte_of c \<and> byte_of c < 128 \<and>
     c \<notin> {dquote, bslash, CHR ''<'', CHR ''>'', CHR ''&''}"

definition hex_char :: "int \<Rightarrow> char" where
  "hex_char n = char_of (if n < 10 then 48 + n else 87 + n)"

definition escape_ascii :: "char \<Rightarrow> string" where
  "escape_ascii c =
     (if c = dquote \<or> c = bslash then [bslash, c]
      else if c = CHR 0x08 then [bslash, CHR ''b'']
      else if c = CHR 0x0C then [bslash, CHR ''f'']
      else if c = CHR 0x0A then [bslash, CHR ''n'']
      else if c = CHR 0x0D then [bslash, CHR ''r'']
      else if c = CHR 0x09 then [bslash, CHR ''t'']
      else [bslash, CHR ''u'', CHR ''0'', CHR ''0'', hex_char (byte_of c div 16), hex_char (byte_of c mod 16)])"

text \<open>U+2028 and U+2029 are escaped, an ill-formed byte becomes the escape of U+FFFD.\<close>

definition escape_run :: "string \<Rightarrow> string" where
  "escape_run run =
     (if run = [CHR 0xE2, CHR 0x80, CHR 0xA8] then bslash # ''u2028''
      else if run = [CHR 0xE2, CHR 0x80, CHR 0xA9] then bslash # ''u2029'' else run)"

fun escape_str :: "string \<Rightarrow> string" where
  "escape_str [] = []"
| "escape_str (c # cs) =
     (if byte_of c < 128 then (if html_safe c then [c] else escape_ascii c) @ escape_str cs
      else (case utf8_len (c # cs) of
              0 \<Rightarrow> bslash # ''ufffd'' @ escape_str cs
            | Suc n \<Rightarrow> escape_run (c # take n cs) @ escape_str (drop n cs)))"

definition enc_string :: "string \<Rightarrow> string" where
  "enc_string s = dquote # escape_str s @ [dquote]"

text \<open>What of a byte string survives: its well-formed parts, U+FFFD for the rest.\<close>

fun to_valid :: "string \<Rightarrow> string" where
  "to_valid [] = []"
| "to_valid (c # cs) =
     (case utf8_len (c # cs) of
        0 \<Rightarrow> replacement @ to_valid cs
      | Suc n \<Rightarrow> c # take n cs @ to_valid (drop n cs))"

definition valid_utf8 :: "string \<Rightarrow> bool" where "valid_utf8 s \<longleftrightarrow> to_valid s = s"

definition enc_bool :: "bool \<Rightarrow> string" where "enc_bool b = (if b then ''true'' else ''false'')"

definition enc_array :: "string list \<Rightarrow> string" where
  "enc_array xs = ''['' @ join '','' xs @ '']''"

definition enc_member :: "string \<times> string \<Rightarrow> string" where
  "enc_member = (\<lambda>(k, v). enc_string k @ '':'' @ v)"

definition enc_object :: "(string \<times> string) list \<Rightarrow> string" where
  "enc_object ms = ''{'' @ join '','' (map enc_member ms) @ ''}''"

lemma escape_examples:
  "enc_string (''a<b'' @ [CHR 0x0A, CHR 0xFF, CHR 0xE2, CHR 0x80, CHR 0xA8, CHR 0xC3, CHR 0xA9]) =
     [dquote] @ ''a'' @ [bslash] @ ''u003cb'' @ [bslash, CHR ''n'', bslash] @ ''ufffd'' @ [bslash] @ ''u2028'' @
     [CHR 0xC3, CHR 0xA9, dquote]"
  by code_simp

section \<open>Reading a string back\<close>

text \<open>The head of a well-formed text decides its length, whatever follows.\<close>

lemma utf8_len_cases:
  assumes "utf8_len (c # cs) = Suc n"
  obtains "n = 0" "byte_of c < 128"
  | b r where "n = 1" "cs = b # r" "128 \<le> byte_of c" "128 \<le> byte_of b"
      "\<And>t. utf8_len (c # b # t) = 2"
  | b d r where "n = 2" "cs = b # d # r" "128 \<le> byte_of c" "128 \<le> byte_of b" "128 \<le> byte_of d"
      "\<And>t. utf8_len (c # b # d # t) = 3"
  | b d e r where "n = 3" "cs = b # d # e # r" "128 \<le> byte_of c" "128 \<le> byte_of b" "128 \<le> byte_of d"
      "128 \<le> byte_of e" "\<And>t. utf8_len (c # b # d # e # t) = 4"
  using assms
  by (auto simp: between_def split: if_splits list.splits)

lemma hex_char_val: "0 \<le> n \<Longrightarrow> n < 16 \<Longrightarrow> hex_val (hex_char n) = Some n"
  by (auto simp: hex_val_def hex_char_def Let_def)

lemma byte_of_bounds: "0 \<le> byte_of c" "byte_of c < 256"
  by (cases c; simp add: of_char_def split: if_split)+

lemma lex_str_plain:
  "c \<noteq> dquote \<Longrightarrow> c \<noteq> bslash \<Longrightarrow> 32 \<le> byte_of c \<Longrightarrow>
   lex_str (c # t) = map_option (\<lambda>(x, y). (c # x, y)) (lex_str t)"
  by simp

lemma byte_marks [simp]: "byte_of dquote = 34" "byte_of bslash = 92"
  by simp_all

lemma high_plain: "128 \<le> byte_of c \<Longrightarrow> c \<noteq> dquote \<and> c \<noteq> bslash \<and> 32 \<le> byte_of c"
  by auto

lemma lex_str_u:
  assumes "is_hex a" "is_hex b" "is_hex d" "is_hex e"
  shows "lex_str (bslash # CHR ''u'' # a # b # d # e # t) =
    map_option (\<lambda>(x, y). ([bslash, CHR ''u'', a, b, d, e] @ x, y)) (lex_str t)"
  using assms by simp

lemma lex_str_esc:
  "e \<in> {dquote, bslash, CHR ''b'', CHR ''f'', CHR ''n'', CHR ''r'', CHR ''t''} \<Longrightarrow>
   lex_str (bslash # e # t) = map_option (\<lambda>(x, y). ([bslash, e] @ x, y)) (lex_str t)"
  by auto

lemma is_hex_char: "0 \<le> n \<Longrightarrow> n < 16 \<Longrightarrow> is_hex (hex_char n)"
  by (simp add: is_hex_def hex_char_val)

lemma lex_escape_ascii:
  "byte_of c < 128 \<Longrightarrow>
   lex_str (escape_ascii c @ t) = map_option (\<lambda>(x, y). (escape_ascii c @ x, y)) (lex_str t)"
proof -
  assume c: "byte_of c < 128"
  have h: "is_hex (hex_char (byte_of c div 16))" "is_hex (hex_char (byte_of c mod 16))" "is_hex (CHR ''0'')"
    using c byte_of_bounds [of c] by (auto intro!: is_hex_char) (simp add: is_hex_def hex_val_def)
  show ?thesis
    unfolding escape_ascii_def
    by (simp only: append_Cons append_Nil split: if_split) (use h in \<open>simp add: lex_str_u lex_str_esc\<close>)
qed

lemma unquote_u:
  assumes "hex4 a b d e = Some r" "r < 0xD800 \<or> 0xDC00 \<le> r"
  shows "unquote (bslash # CHR ''u'' # a # b # d # e # t) = utf8_encode r @ unquote t"
  using assms by (auto simp: surrogate_pair_def split: option.split)

lemma unquote_esc: "e \<noteq> CHR ''u'' \<Longrightarrow> unquote (bslash # e # t) = unescape_char e # unquote t"
  by (cases t; cases "tl t"; cases "tl (tl t)"; cases "tl (tl (tl t))") auto

lemma unquote_escape_ascii:
  assumes "byte_of c < 128"
  shows "unquote (escape_ascii c @ t) = c # unquote t"
proof -
  have "hex_val (CHR ''0'') = Some 0" by (simp add: hex_val_def)
  moreover have "hex_val (hex_char (byte_of c div 16)) = Some (byte_of c div 16)"
    "hex_val (hex_char (byte_of c mod 16)) = Some (byte_of c mod 16)"
    using assms byte_of_bounds [of c] by (auto intro!: hex_char_val)
  ultimately have "hex4 (CHR ''0'') (CHR ''0'') (hex_char (byte_of c div 16)) (hex_char (byte_of c mod 16)) =
      Some (byte_of c)"
    using mult_div_mod_eq [of 16 "byte_of c"] by (simp add: hex4_def)
  from unquote_u [OF this] assms show ?thesis
    by (auto simp: escape_ascii_def unquote_esc unescape_char_def utf8_encode_def simp del: unquote.simps)
qed

lemma lex_high_run:
  assumes "list_all (\<lambda>c. 128 \<le> byte_of c) xs"
  shows "lex_str (xs @ t) = map_option (\<lambda>(x, y). (xs @ x, y)) (lex_str t)"
  using assms
proof (induction xs)
  case Nil
  show ?case by (cases "lex_str t") auto
next
  case (Cons c xs)
  with high_plain [of c] show ?case
    by (cases "lex_str t") (auto simp: lex_str_plain simp del: lex_str.simps)
qed

lemma unquote_run:
  assumes "utf8_len (c # cs) = Suc n" "c \<noteq> bslash" "128 \<le> byte_of c"
  shows "unquote ((c # take n cs) @ t) = c # take n cs @ unquote t"
  using assms by (elim utf8_len_cases) (auto simp del: utf8_len.simps)

lemma run_high:
  assumes "utf8_len (c # cs) = Suc n" "128 \<le> byte_of c"
  shows "list_all (\<lambda>c. 128 \<le> byte_of c) (c # take n cs)"
  using assms by (elim utf8_len_cases) auto

lemma escape_run_reads:
  assumes "utf8_len (c # cs) = Suc n" "128 \<le> byte_of c"
  shows "lex_str (escape_run (c # take n cs) @ t) =
      map_option (\<lambda>(x, y). (escape_run (c # take n cs) @ x, y)) (lex_str t)"
    and "unquote (escape_run (c # take n cs) @ t) = c # take n cs @ unquote t"
proof -
  let ?run = "c # take n cs"
  have hex: "is_hex (CHR ''2'')" "is_hex (CHR ''0'')" "is_hex (CHR ''8'')" "is_hex (CHR ''9'')"
    by (simp_all add: is_hex_def hex_val_def)
  have h8: "hex4 (CHR ''2'') (CHR ''0'') (CHR ''2'') (CHR ''8'') = Some 0x2028"
    and h9: "hex4 (CHR ''2'') (CHR ''0'') (CHR ''2'') (CHR ''9'') = Some 0x2029"
    by code_simp+
  have e8: "utf8_encode 0x2028 = [CHR 0xE2, CHR 0x80, CHR 0xA8]"
    and e9: "utf8_encode 0x2029 = [CHR 0xE2, CHR 0x80, CHR 0xA9]"
    by code_simp+
  consider (a) "?run = [CHR 0xE2, CHR 0x80, CHR 0xA8]" | (b) "?run = [CHR 0xE2, CHR 0x80, CHR 0xA9]"
    | (c) "escape_run ?run = ?run" unfolding escape_run_def by metis
  then show "lex_str (escape_run ?run @ t) = map_option (\<lambda>(x, y). (escape_run ?run @ x, y)) (lex_str t)"
  proof cases
    case c
    then show ?thesis by (simp only: lex_high_run [OF run_high [OF assms]])
  qed (simp_all only: escape_run_def append_Cons append_Nil if_True lex_str_u [OF hex(1,2,1,3)]
      lex_str_u [OF hex(1,2,1,4)] list.inject char.inject simp_thms if_False split: if_split)
  consider (a) "?run = [CHR 0xE2, CHR 0x80, CHR 0xA8]" | (b) "?run = [CHR 0xE2, CHR 0x80, CHR 0xA9]"
    | (c) "escape_run ?run = ?run" unfolding escape_run_def by metis
  then show "unquote (escape_run ?run @ t) = c # take n cs @ unquote t"
  proof cases
    case a
    then show ?thesis using unquote_u [OF h8, of t] by (simp add: escape_run_def e8)
  next
    case b
    then show ?thesis using unquote_u [OF h9, of t] by (simp add: escape_run_def e9)
  next
    case c
    then show ?thesis using unquote_run [OF assms(1) _ assms(2), of t] high_plain [OF assms(2)] by simp
  qed
qed

lemma lex_escape_str: "lex_str (escape_str s @ dquote # r) = Some (escape_str s, r)"
proof (induction s rule: escape_str.induct)
  case (2 c cs)
  show ?case
  proof (cases "byte_of c < 128")
    case True
    with 2(1) lex_escape_ascii [OF True] lex_str_plain [of c] show ?thesis by (auto simp: html_safe_def)
  next
    case high: False
    have ufffd: "lex_str (bslash # ''ufffd'' @ t) = map_option (\<lambda>(x, y). (bslash # ''ufffd'' @ x, y)) (lex_str t)" for t
      using lex_str_u [of "CHR ''f''" "CHR ''f''" "CHR ''f''" "CHR ''d''" t] by (simp add: is_hex_def hex_val_def)
    show ?thesis
    proof (cases "utf8_len (c # cs)")
      case 0
      with 2(2) high ufffd show ?thesis by simp
    next
      case (Suc n)
      with 2(3) [OF high Suc] escape_run_reads(1) [OF Suc] high show ?thesis by simp
    qed
  qed
qed simp

lemma unquote_escape_str: "unquote (escape_str s) = to_valid s"
proof (induction s rule: escape_str.induct)
  case (2 c cs)
  show ?case
  proof (cases "byte_of c < 128")
    case True
    then have "utf8_len (c # cs) = Suc 0" by simp
    with 2(1) True unquote_escape_ascii [OF True] show ?thesis by (auto simp: html_safe_def)
  next
    case high: False
    have fffd: "hex4 (CHR ''f'') (CHR ''f'') (CHR ''f'') (CHR ''d'') = Some 0xFFFD" "utf8_encode 0xFFFD = replacement"
      by code_simp+
    have ufffd: "unquote (bslash # ''ufffd'' @ t) = replacement @ unquote t" for t
      using unquote_u [OF fffd(1), of t] by (simp add: fffd(2))
    show ?thesis
    proof (cases "utf8_len (c # cs)")
      case 0
      with 2(2) high ufffd show ?thesis by simp
    next
      case (Suc n)
      with 2(3) [OF high Suc] escape_run_reads(2) [OF Suc] high show ?thesis by simp
    qed
  qed
qed simp

section \<open>Values in context\<close>

text \<open>
  A text is read as a value when the parser finds the value and leaves everything after
  the text, as long as a comma, a closing bracket, a line end or the end of the input follows.
\<close>

definition reads :: "int \<Rightarrow> string \<Rightarrow> json \<Rightarrow> bool" where
  "reads d t v \<longleftrightarrow> t \<noteq> [] \<and> \<not> is_ws (hd t) \<and> hd t \<notin> {CHR '']'', CHR ''}''} \<and>
     (\<forall>rest. (rest = [] \<or> hd rest \<in> {CHR '','', CHR ''}'', CHR '']'', nl}) \<longrightarrow> parse_value d (t @ rest) = Some (v, rest))"

lemma reads_string: "reads d (enc_string s) (JStr (to_valid s))"
  by (simp add: reads_def enc_string_def is_ws_def parse_value.simps lex_escape_str unquote_escape_str)

lemma reads_bool: "reads d (enc_bool b) (JBool b)"
  by (simp add: reads_def enc_bool_def is_ws_def parse_value.simps has_prefix_def)

lemma nat_str_hd: "n \<noteq> 0 \<Longrightarrow> hd (nat_str n) \<noteq> CHR ''0''"
proof (induction n rule: nat_str.induct)
  case (1 n)
  show ?case
  proof (cases "n < 10")
    case True
    then have "digit_val (digit_char n) \<noteq> digit_val (CHR ''0'')"
      using 1(2) by (simp add: digit_char_val) (simp add: digit_val_def)
    with True show ?thesis by (auto simp: nat_str.simps [of n])
  next
    case False
    have "nat_str (n div 10) \<noteq> []" by (simp add: nat_str.simps [of "n div 10"])
    with False 1(1) show ?thesis by (simp add: nat_str.simps [of n])
  qed
qed

lemma nat_str_ne: "nat_str n \<noteq> []"
  by (simp add: nat_str.simps [of n])

lemma lex_num_nat:
  assumes "rest = [] \<or> hd rest \<in> {CHR '','', CHR ''}'', CHR '']'', nl}" "sg = [] \<or> sg = ''-''"
  shows "lex_num (sg @ nat_str n @ rest) = Some (sg @ nat_str n, rest)"
proof -
  have stop: "lex_frac acc rest = Some (acc, rest)" for acc
    using assms(1) by (cases rest) (auto simp: lex_frac_def lex_exp_def)
  have nd: "rest = [] \<or> \<not> is_digit (hd rest)" using assms(1) by (auto simp: is_digit_def)
  then have tw: "takeWhile is_digit (nat_str n @ rest) = nat_str n" "dropWhile is_digit (nat_str n @ rest) = rest"
    using nat_str_digits [of n] by (cases rest; simp add: takeWhile_append dropWhile_append)+
  obtain c cs where c: "nat_str n = c # cs" using nat_str_ne by (cases "nat_str n") auto
  have dc: "is_digit c" using nat_str_digits [of n] c by simp
  then have nm: "c \<noteq> CHR ''-''" by (auto simp: is_digit_def)
  show ?thesis
  proof (cases "n = 0")
    case True
    have "nat_str 0 = ''0''" by code_simp
    with True have "nat_str n = ''0''" by simp
    with assms(2) stop show ?thesis by (auto simp: lex_num_def)
  next
    case False
    then have "c \<noteq> CHR ''0''" using nat_str_hd [of n] c by simp
    with assms(2) stop tw dc nm c show ?thesis by (auto simp: lex_num_def)
  qed
qed

lemma itoa_sign: obtains sg where "itoa i = sg @ nat_str (nat \<bar>i\<bar>)" "sg = (if i < 0 then ''-'' else [])"
  by (auto simp: itoa_def)

lemma reads_int: "reads d (itoa i) (JNum (itoa i))"
proof -
  obtain sg where sg: "itoa i = sg @ nat_str (nat \<bar>i\<bar>)" "sg = (if i < 0 then ''-'' else [])"
    by (rule itoa_sign)
  have "itoa i \<noteq> []" using sg nat_str_ne by simp
  then obtain c cs where c: "itoa i = c # cs" by (meson neq_Nil_conv)
  have "c = CHR ''-'' \<or> c \<in> set (nat_str (nat \<bar>i\<bar>))"
  proof (cases "i < 0")
    case False
    with sg c have "nat_str (nat \<bar>i\<bar>) = c # cs" by simp
    then show ?thesis by simp
  qed (use sg c in simp)
  with nat_str_digits have "c = CHR ''-'' \<or> is_digit c" by blast
  then have first: "c \<notin> {CHR ''{'', CHR ''['', CHR '']'', CHR ''}'', dquote, CHR ''t'', CHR ''f'', CHR ''n''}" "\<not> is_ws c"
    by (auto simp: is_digit_def is_ws_def)
  have "parse_value d (itoa i @ rest) = Some (JNum (itoa i), rest)"
    if "rest = [] \<or> hd rest \<in> {CHR '','', CHR ''}'', CHR '']'', nl}" for rest
  proof -
    have "lex_num (itoa i @ rest) = Some (itoa i, rest)"
      using lex_num_nat [OF that, of sg "nat \<bar>i\<bar>"] sg by auto
    with first show ?thesis by (simp add: c parse_value.simps has_prefix_def)
  qed
  with first c show ?thesis by (simp add: reads_def)
qed

lemma parse_int64_itoa:
  assumes "in_i64 i"
  shows "parse_int64 (itoa i) = Some i"
proof (cases "i < 0")
  case True
  moreover have "list_all is_digit (nat_str (nat (- i)))" by (simp add: list_all_iff nat_str_digits)
  ultimately show ?thesis
    using assms dec_val_nat_str [of "nat (- i)"] nat_str_ne [of "nat (- i)"] by (simp add: parse_int64_def itoa_def)
next
  case False
  obtain c cs where c: "nat_str (nat i) = c # cs" using nat_str_ne by (cases "nat_str (nat i)") auto
  have d: "list_all is_digit (nat_str (nat i))" by (simp add: list_all_iff nat_str_digits)
  then have "c \<noteq> CHR ''-''" using c by (auto simp: is_digit_def)
  moreover have "dec_val (c # cs) = i" using dec_val_nat_str [of "nat i"] False c by simp
  ultimately show ?thesis using assms False c d by (simp add: parse_int64_def itoa_def)
qed

lemma skip_ws_nonws: "s \<noteq> [] \<Longrightarrow> \<not> is_ws (hd s) \<Longrightarrow> skip_ws s = s"
  by (cases s) auto

lemma readsD:
  "reads d t v \<Longrightarrow> hd rest \<in> {CHR '','', CHR ''}'', CHR '']'', nl} \<Longrightarrow> parse_value d (t @ rest) = Some (v, rest)"
  "reads d t v \<Longrightarrow> t \<noteq> []" "reads d t v \<Longrightarrow> \<not> is_ws (hd t)"
  by (auto simp: reads_def)

lemma reads_elems:
  assumes "list_all (\<lambda>(t, v). reads d t v) xs" "xs \<noteq> []"
  shows "parse_elems d (join '','' (map fst xs) @ '']'' @ rest) = Some (xs, rest)"
  using assms
proof (induction xs)
  case (Cons x xs)
  obtain t v where x: "x = (t, v)" by (cases x)
  have r: "reads d t v" using Cons.prems x by simp
  show ?case
  proof (cases xs)
    case Nil
    have "parse_value d (t @ '']'' @ rest) = Some (v, '']'' @ rest)" by (rule readsD(1) [OF r]) simp
    then show ?thesis using x Nil by (simp add: parse_elems.simps is_ws_def)
  next
    case (Cons y ys)
    let ?tail = "join '','' (map fst xs) @ '']'' @ rest"
    obtain z where z: "?tail = z" by blast
    have p: "parse_value d (t @ CHR '','' # z) = Some (v, CHR '','' # z)" by (rule readsD(1) [OF r]) simp
    have y: "reads d (fst y) (snd y)" using Cons.prems Cons by auto
    have "?tail \<noteq> []" by simp
    moreover have "\<not> is_ws (hd ?tail)" using readsD(2,3) [OF y] by (cases ys) (auto simp: Cons)
    ultimately have ws: "skip_ws ?tail = ?tail" by (rule skip_ws_nonws)
    have IH: "parse_elems d ?tail = Some (xs, rest)" using Cons.IH Cons.prems Cons by simp
    have "join '','' (map fst (x # xs)) @ '']'' @ rest = t @ CHR '','' # z"
      unfolding z [symmetric] using x Cons by simp
    moreover have "skip_ws (CHR '','' # z) = CHR '','' # z" by (simp add: is_ws_def)
    then have "parse_elems d (t @ CHR '','' # z) = Some ((t, v) # xs, rest)"
      using ws IH unfolding z by (subst parse_elems.simps) (simp add: p del: dropWhile.simps)
    ultimately show ?thesis using x by simp
  qed
qed simp

lemma reads_array:
  assumes "list_all (\<lambda>(t, v). reads (d - 1) t v) xs" "0 < d"
  shows "reads d (enc_array (map fst xs)) (JArr xs)"
proof -
  have "parse_value d (enc_array (map fst xs) @ rest) = Some (JArr xs, rest)" for rest
  proof (cases xs)
    case Nil
    then show ?thesis using assms(2) by (simp add: enc_array_def parse_value_arr is_ws_def)
  next
    case (Cons y ys)
    let ?b = "join '','' (map fst xs) @ '']'' @ rest"
    have y: "reads (d - 1) (fst y) (snd y)" using assms Cons by auto
    obtain c cs where c: "fst y = c # cs" using readsD(2) [OF y] by (cases "fst y") auto
    have "hd ?b = c" using c by (cases ys) (auto simp: Cons)
    then obtain u where u: "?b = c # u" by (cases ?b) auto
    have "\<not> is_ws c" "c \<noteq> CHR '']''" using y c by (auto simp: reads_def)
    moreover have "parse_elems (d - 1) ?b = Some (xs, rest)"
      using assms Cons by (intro reads_elems) auto
    ultimately show ?thesis using assms(2) u by (simp add: enc_array_def parse_value_arr)
  qed
  then show ?thesis by (simp add: reads_def enc_array_def is_ws_def)
qed

text \<open>Keys are plain: the encoder writes them as they are.\<close>

definition plain_key :: "string \<Rightarrow> bool" where
  "plain_key k \<longleftrightarrow> list_all html_safe k"

lemma plain_key_enc: "plain_key k \<Longrightarrow> escape_str k = k \<and> to_valid k = k"
  by (induction k) (auto simp: plain_key_def html_safe_def)

lemma reads_members:
  assumes "list_all (\<lambda>(k, t, v). plain_key k \<and> reads d t v) ms" "ms \<noteq> []"
  shows "parse_members d (join '','' (map (\<lambda>(k, t, v). enc_member (k, t)) ms) @ ''}'' @ rest) = Some (ms, rest)"
  using assms
proof (induction ms)
  case (Cons m ms)
  obtain k t v where m: "m = (k, t, v)" by (cases m)
  have k: "escape_str k = k" "to_valid k = k" and r: "reads d t v"
    using Cons.prems m plain_key_enc by auto
  have lex: "lex_str (k @ dquote # s) = Some (k, s)" for s using lex_escape_str [of k s] k by simp
  have un: "unquote k = k" using unquote_escape_str [of k] k by simp
  have step: "parse_members d (enc_member (k, t) @ y # u) =
      (if y = CHR ''}'' then Some ([(k, t, v)], u)
       else map_option (\<lambda>(ms, r'). ((k, t, v) # ms, r')) (parse_members d (skip_ws u)))"
    if "y \<in> {CHR '','', CHR ''}''}" for y u
  proof -
    have p: "parse_value d (t @ y # u) = Some (v, y # u)" by (rule readsD(1) [OF r]) (use that in auto)
    have ws: "skip_ws (t @ y # u) = t @ y # u" by (rule skip_ws_nonws) (use readsD(2,3) [OF r] in auto)
    have y: "skip_ws (y # u) = y # u" using that by (auto simp: is_ws_def)
    have colon: "skip_ws (CHR '':'' # z) = CHR '':'' # z" for z by (simp add: is_ws_def)
    have le: "length (skip_ws u) < length (enc_member (k, t) @ y # u)"
      using length_dropWhile_le [of is_ws u] by simp
    have "enc_member (k, t) @ y # u = dquote # (k @ dquote # CHR '':'' # t @ y # u)"
      by (simp add: enc_member_def enc_string_def k)
    with le that show ?thesis
      by (auto simp only: parse_members.simps lex option.case prod.case colon list.case ws p y un Let_def
          simp_thms if_True if_False) (auto simp: le_imp_less_Suc)
  qed
  show ?case
  proof (cases ms)
    case Nil
    have "parse_members d (enc_member (k, t) @ CHR ''}'' # rest) = Some ([(k, t, v)], rest)"
      by (subst step) simp_all
    then show ?thesis using m Nil by simp
  next
    case (Cons y ys)
    let ?tail = "join '','' (map (\<lambda>(k, t, v). enc_member (k, t)) ms) @ ''}'' @ rest"
    have "hd ?tail = dquote" using Cons by (cases y; cases ys) (auto simp: enc_member_def enc_string_def)
    then have ws: "skip_ws ?tail = ?tail" by (intro skip_ws_nonws) (auto simp: is_ws_def)
    have IH: "parse_members d ?tail = Some (ms, rest)" using Cons.IH Cons.prems Cons by simp
    have "parse_members d (enc_member (k, t) @ CHR '','' # ?tail) = Some ((k, t, v) # ms, rest)"
      by (subst step) (simp_all only: ws IH, simp_all)
    then show ?thesis using m Cons by simp
  qed
qed simp

text \<open>An object ends with its brace: nothing is asked of what follows.\<close>

lemma parse_object:
  assumes "list_all (\<lambda>(k, t, v). plain_key k \<and> reads (d - 1) t v) ms" "0 < d"
  shows "parse_value d (enc_object (map (\<lambda>(k, t, v). (k, t)) ms) @ rest) = Some (JObj ms, rest)"
proof -
  have eq: "map enc_member (map (\<lambda>(k, t, v). (k, t)) ms) = map (\<lambda>(k, t, v). enc_member (k, t)) ms"
    by (simp add: case_prod_unfold)
  show ?thesis
  proof (cases ms)
    case Nil
    then show ?thesis using assms(2) by (simp add: enc_object_def parse_value_obj is_ws_def)
  next
    case (Cons y ys)
    let ?b = "join '','' (map (\<lambda>(k, t, v). enc_member (k, t)) ms) @ ''}'' @ rest"
    have "hd ?b = dquote" using Cons by (cases y; cases ys) (auto simp: enc_member_def enc_string_def)
    then obtain u where u: "?b = dquote # u" by (cases ?b) auto
    have "parse_members (d - 1) ?b = Some (ms, rest)"
      using assms Cons by (intro reads_members) auto
    then show ?thesis using assms(2) u unfolding enc_object_def eq
      by (simp add: parse_value_obj is_ws_def)
  qed
qed

lemma reads_object:
  assumes "list_all (\<lambda>(k, t, v). plain_key k \<and> reads (d - 1) t v) ms" "0 < d"
  shows "reads d (enc_object (map (\<lambda>(k, t, v). (k, t)) ms)) (JObj ms)"
  using parse_object [OF assms] by (simp add: reads_def enc_object_def is_ws_def)

end
