(* ===== verification/TimeFormat.thy ===== *)
theory TimeFormat
  imports GoTime
begin

text \<open>
  Formatting instants: the civil date of a day and the layouts \<open>RFC3339\<close> and
  \<open>RFC3339Nano\<close> in UTC, with the round trip through the parser of \<open>GoTime\<close>.
\<close>

section \<open>The date of a day\<close>

definition civil_year :: "int \<Rightarrow> int" where
  "civil_year n =
     (let y = n * 400 div 146097 + 1970 in
      if n < days_from_civil y 1 1 then y - 1
      else if days_from_civil (y + 1) 1 1 \<le> n then y + 1 else y)"

definition civil_month :: "int \<Rightarrow> int" where
  "civil_month n = last (filter (\<lambda>m. days_from_civil (civil_year n) m 1 \<le> n) [1, 2, 3, 4, 5, 6, 7, 8, 9, 10, 11, 12])"

definition civil_day :: "int \<Rightarrow> int" where
  "civil_day n = n - days_from_civil (civil_year n) (civil_month n) 1 + 1"

lemma days_linear: "days_from_civil y m d = days_from_civil y m 1 + d - 1"
  by (simp add: days_from_civil_def Let_def)

lemma civil_inverse: "days_from_civil (civil_year n) (civil_month n) (civil_day n) = n"
  by (simp add: civil_day_def days_linear [of _ _ "n - _ + 1"])

lemma div_pred:
  assumes "0 < (k::int)"
  shows "y div k = (y - 1) div k + (if y mod k = 0 then 1 else 0)"
proof (cases "y mod k = 0")
  case True
  then have "y - 1 = k * (y div k - 1) + (k - 1)"
    by (simp add: algebra_simps) (metis add.right_neutral mult_div_mod_eq)
  then have "(y - 1) div k = y div k - 1"
    by (rule int_div_pos_eq) (use assms in auto)
  with True show ?thesis by simp
next
  case False
  have r: "0 \<le> y mod k" "y mod k < k" using assms by auto
  have "y - 1 = k * (y div k) + (y mod k - 1)" by simp
  then have "(y - 1) div k = y div k"
    by (rule int_div_pos_eq) (use False r in auto)
  with False show ?thesis by simp
qed

lemma leap_multiples: "(y::int) mod 400 = 0 \<Longrightarrow> y mod 100 = 0" "(y::int) mod 100 = 0 \<Longrightarrow> y mod 4 = 0"
proof -
  have "(100::int) dvd 400" "(4::int) dvd 100" by simp_all
  then show "y mod 400 = 0 \<Longrightarrow> y mod 100 = 0" "y mod 100 = 0 \<Longrightarrow> y mod 4 = 0"
    by (meson dvd_trans mod_0_imp_dvd dvd_imp_mod_0)+
qed

text \<open>The leap days up to the start of March of a year, kept opaque to arithmetic.\<close>

definition leaps :: "int \<Rightarrow> int" where "leaps y = y div 4 - y div 100 + y div 400"

lemma days_leaps:
  "days_from_civil y m d =
     (let y' = (if m \<le> 2 then y - 1 else y)
      in 365 * y' + leaps y' + (153 * ((m + 9) mod 12) + 2) div 5 + d - 719469)"
  by (simp add: days_from_civil_def leaps_def Let_def)

lemma leaps_carry: "leaps y = leaps (y - 1) + (if leap_year y then 1 else 0)"
proof -
  obtain a b c a' b' c' where d: "a = y div 4" "b = y div 100" "c = y div 400"
    "a' = (y - 1) div 4" "b' = (y - 1) div 100" "c' = (y - 1) div 400" by blast
  have "a = a' + (if y mod 4 = 0 then 1 else 0)" "b = b' + (if y mod 100 = 0 then 1 else 0)"
    "c = c' + (if y mod 400 = 0 then 1 else 0)"
    unfolding d by (rule div_pred, simp)+
  moreover have "(if leap_year y then 1 else 0 :: int) =
      (if y mod 4 = 0 then 1 else 0) - (if y mod 100 = 0 then 1 else 0) + (if y mod 400 = 0 then 1 else 0)"
    unfolding leap_year_def using leap_multiples [of y] by presburger
  ultimately show ?thesis unfolding leaps_def d [symmetric] by linarith
qed

lemma div_interval: "0 < (k::int) \<Longrightarrow> k * (w div k) \<le> w \<and> w < k * (w div k) + k"
  by (metis add_less_cancel_left mult_div_mod_eq pos_mod_bound pos_mod_sign le_add_same_cancel1)

lemma leaps_bounds: "97 * w - 699 \<le> 400 * leaps w" "400 * leaps w \<le> 97 * w + 396"
proof -
  obtain a b c where d: "a = w div 4" "b = w div 100" "c = w div 400" by blast
  have "4 * a \<le> w \<and> w < 4 * a + 4" "100 * b \<le> w \<and> w < 100 * b + 100" "400 * c \<le> w \<and> w < 400 * c + 400"
    unfolding d by (rule div_interval, simp)+
  then show "97 * w - 699 \<le> 400 * leaps w" "400 * leaps w \<le> 97 * w + 396"
    unfolding leaps_def d [symmetric] by auto
qed

lemma month_days:
  assumes "m \<in> {1, 2, 3, 4, 5, 6, 7, 8, 9, 10, 11}"
  shows "days_from_civil y (m + 1) 1 = days_from_civil y m 1 + days_in m y"
  using assms leaps_carry [of y]
  by (elim insertE emptyE) (simp_all add: days_leaps days_in_def)

lemma december_days: "days_from_civil (y + 1) 1 1 = days_from_civil y 12 1 + 31"
  by (simp add: days_leaps)

lemma january_first: "days_from_civil y 1 1 = 365 * (y - 1) + leaps (y - 1) - 719162"
  by (simp add: days_leaps)

text \<open>The mean year of 146097/400 days is never off by more than a year.\<close>

lemma civil_year_bounds:
  "days_from_civil (civil_year n) 1 1 \<le> n \<and> n < days_from_civil (civil_year n + 1) 1 1"
proof -
  obtain q where q: "q = n * 400 div 146097" by blast
  have n: "146097 * q \<le> n * 400 \<and> n * 400 < 146097 * q + 146097"
    unfolding q by (rule div_interval) simp
  have lo: "400 * days_from_civil (1970 + k) 1 1 \<le> 146097 * k + 600"
    and hi: "146097 * k - 600 \<le> 400 * days_from_civil (1970 + k) 1 1" for k
    using leaps_bounds [of "1970 + k - 1"] unfolding january_first by auto
  have y: "civil_year n = (if n < days_from_civil (1970 + q) 1 1 then 1970 + (q - 1)
      else if days_from_civil (1970 + (q + 1)) 1 1 \<le> n then 1970 + (q + 1) else 1970 + q)"
    by (simp add: civil_year_def Let_def q ac_simps)
  have next': "1970 + (q - 1) + 1 = 1970 + q" "1970 + (q + 1) + 1 = 1970 + (q + 2)" "1970 + q + 1 = 1970 + (q + 1)"
    by simp_all
  show ?thesis
    unfolding y using n lo [of "q - 1"] hi [of "q + 2"] by (simp add: next' split del: if_split split: if_split)
qed

lemma sorted_filter': "sorted xs \<Longrightarrow> sorted (filter P xs)"
  by (induction xs) auto

lemma sorted_last_max: "x \<in> set xs \<Longrightarrow> sorted xs \<Longrightarrow> x \<le> last xs"
  by (induction xs) (auto split: if_splits)

lemma civil_month_day:
  "1 \<le> civil_month n" "civil_month n \<le> 12" "1 \<le> civil_day n"
  "civil_day n \<le> days_in (civil_month n) (civil_year n)"
proof -
  let ?y = "civil_year n" and ?ms = "[1, 2, 3, 4, 5, 6, 7, 8, 9, 10, 11, 12] :: int list"
  let ?fs = "filter (\<lambda>m. days_from_civil ?y m 1 \<le> n) ?ms"
  have set_fs: "m \<in> set ?fs \<longleftrightarrow> m \<in> set ?ms \<and> days_from_civil ?y m 1 \<le> n" for m
    by (simp only: set_filter) blast
  have one: "1 \<in> set ?ms" by simp
  have "1 \<in> set ?fs" unfolding set_fs using civil_year_bounds one by blast
  then have ne: "?fs \<noteq> []" by force
  have "civil_month n \<in> set ?fs"
    unfolding civil_month_def by (rule last_in_set [OF ne])
  then have m: "civil_month n \<in> set ?ms" "days_from_civil ?y (civil_month n) 1 \<le> n"
    unfolding set_fs by blast+
  from m(1) show "1 \<le> civil_month n" "civil_month n \<le> 12" by auto
  from m(2) show "1 \<le> civil_day n" by (simp add: civil_day_def)
  show "civil_day n \<le> days_in (civil_month n) (civil_year n)"
  proof (cases "civil_month n = 12")
    case True
    with civil_year_bounds [of n] december_days [of ?y] show ?thesis
      by (simp add: civil_day_def days_in_def)
  next
    case False
    with m(1) have m11: "civil_month n \<in> {1, 2, 3, 4, 5, 6, 7, 8, 9, 10, 11}" by auto
    have "sorted ?ms" by simp
    then have "sorted ?fs" by (rule sorted_filter')
    have "\<not> days_from_civil ?y (civil_month n + 1) 1 \<le> n"
    proof
      assume le: "days_from_civil ?y (civil_month n + 1) 1 \<le> n"
      from m11 have "civil_month n + 1 \<in> set ?ms" by auto
      with le have "civil_month n + 1 \<in> set ?fs" unfolding set_fs by blast
      then have "civil_month n + 1 \<le> last ?fs"
        using \<open>sorted ?fs\<close> sorted_last_max by blast
      then show False by (simp add: civil_month_def)
    qed
    with month_days [OF m11, of ?y] show ?thesis by (simp add: civil_day_def)
  qed
qed

section \<open>Layouts\<close>

definition pad2 :: "int \<Rightarrow> string" where
  "pad2 n = [digit_char (nat (n div 10 mod 10)), digit_char (nat (n mod 10))]"

definition pad4 :: "int \<Rightarrow> string" where "pad4 n = pad2 (n div 100) @ pad2 n"

definition pad9 :: "int \<Rightarrow> string" where
  "pad9 n = digit_char (nat (n div 100000000)) # pad4 (n div 10000) @ pad4 n"

text \<open>A calendar day as the queries print it.\<close>

definition fmt_day :: "int \<Rightarrow> string" where
  "fmt_day n = pad4 (civil_year n) @ ''-'' @ pad2 (civil_month n) @ ''-'' @ pad2 (civil_day n)"

definition fmt_clock :: "int \<Rightarrow> string" where
  "fmt_clock s = pad2 (s div 3600) @ '':'' @ pad2 (s div 60 mod 60) @ '':'' @ pad2 (s mod 60)"

definition fmt_rfc3339 :: "gotime \<Rightarrow> string" where
  "fmt_rfc3339 t = fmt_day (utc_day_no t) @ ''T'' @ fmt_clock (t mod day_ns div ns_per_sec) @ ''Z''"

definition fmt_frac :: "int \<Rightarrow> string" where
  "fmt_frac ns = (if ns = 0 then [] else CHR ''.'' # rev (dropWhile (\<lambda>c. c = CHR ''0'') (rev (pad9 ns))))"

definition fmt_rfc3339nano :: "gotime \<Rightarrow> string" where
  "fmt_rfc3339nano t = fmt_day (utc_day_no t) @ ''T'' @ fmt_clock (t mod day_ns div ns_per_sec) @
     fmt_frac (t mod ns_per_sec) @ ''Z''"

definition year_ok :: "gotime \<Rightarrow> bool" where
  "year_ok t \<longleftrightarrow> 0 \<le> civil_year (utc_day_no t) \<and> civil_year (utc_day_no t) \<le> 9999"

lemma format_examples:
  "fmt_rfc3339 0 = ''1970-01-01T00:00:00Z''"
  "fmt_rfc3339nano 1782900002500000000 = ''2026-07-01T10:00:02.5Z''"
  "fmt_day 20635 = ''2026-07-01''" "fmt_day 19782 = ''2024-02-29''" "fmt_day 10957 = ''2000-01-01''"
  by code_simp+

section \<open>Reading back what was printed\<close>

lemma pad2_digits [simp]: "length (pad2 n) = 2" "length (pad4 n) = 4"
  by (simp_all add: pad2_def pad4_def)

lemma pad2_parts:
  assumes "0 \<le> n" "n \<le> 99"
  shows "list_all is_digit (pad2 n) \<and> dec_val (pad2 n) = n"
proof -
  have "nat (n div 10 mod 10) < 10" "nat (n mod 10) < 10" "n div 10 < 10" "0 \<le> n div 10" using assms by auto
  then show ?thesis
    using digit_char_val [of "nat (n div 10 mod 10)"] digit_char_val [of "nat (n mod 10)"] assms
    by (simp add: pad2_def dec_val_def)
qed

lemma dec_val_app: "dec_val (xs @ ys) = dec_val xs * 10 ^ length ys + dec_val ys"
  by (induction ys rule: rev_induct) (simp_all add: dec_val_append [symmetric] dec_val_def algebra_simps)

lemma mod_div: "0 < b \<Longrightarrow> 0 \<le> c \<Longrightarrow> a mod (b * c) div b = a div b mod (c::int)"
  by (simp add: zmod_zmult2_eq)

lemma pad2_mod: "pad2 n = pad2 (n mod 100)"
proof -
  have "n mod 100 div 10 = n div 10 mod 10" "n mod 100 mod 10 = n mod 10"
    using mod_div [of 10 10 n] by (simp_all add: mod_mod_cancel)
  then show ?thesis unfolding pad2_def by simp
qed

lemma pad4_parts:
  assumes "0 \<le> n" "n \<le> 9999"
  shows "list_all is_digit (pad4 n) \<and> dec_val (pad4 n) = n"
proof -
  have "list_all is_digit (pad2 (n div 100)) \<and> dec_val (pad2 (n div 100)) = n div 100"
    "list_all is_digit (pad2 (n mod 100)) \<and> dec_val (pad2 (n mod 100)) = n mod 100"
    using assms by (auto intro!: pad2_parts)
  then show ?thesis
    by (simp add: pad4_def dec_val_app pad2_mod [of n] mult_div_mod_eq mult.commute)
qed

lemma parse_uint_pad:
  "0 \<le> lo \<Longrightarrow> hi \<le> 99 \<Longrightarrow> lo \<le> n \<Longrightarrow> n \<le> hi \<Longrightarrow> parse_uint (pad2 n) lo hi = Some n"
  "0 \<le> n \<Longrightarrow> n \<le> 9999 \<Longrightarrow> parse_uint (pad4 n) 0 9999 = Some n"
  using pad2_parts [of n] pad4_parts [of n] by (simp_all add: parse_uint_def)

lemma pad4_mod: "pad4 n = pad4 (n mod 10000)"
proof -
  have eq: "n mod 10000 div 100 = n div 100 mod 100" "n mod 10000 mod 100 = n mod 100"
    using mod_div [of 100 100 n] by (simp_all add: mod_mod_cancel)
  have "pad2 (n mod 10000) = pad2 n" using pad2_mod [of "n mod 10000"] unfolding eq(2) pad2_mod [of n, symmetric] .
  then show ?thesis unfolding pad4_def eq(1) pad2_mod [of "n div 100", symmetric] by simp
qed

lemma pad9_parts:
  assumes "0 \<le> n" "n < ns_per_sec"
  shows "length (pad9 n) = 9" "list_all is_digit (pad9 n)" "dec_val (pad9 n) = n"
proof -
  have d: "list_all is_digit (pad4 (n div 10000)) \<and> dec_val (pad4 (n div 10000)) = n div 10000 mod 10000"
    "list_all is_digit (pad4 n) \<and> dec_val (pad4 n) = n mod 10000"
    using pad4_parts [of "n div 10000 mod 10000"] pad4_parts [of "n mod 10000"]
    by (simp_all add: pad4_mod [of "n div 10000"] pad4_mod [of n])
  have "n div 100000000 < 10" "0 \<le> n div 100000000" using assms by auto
  then have h: "digit_val (digit_char (nat (n div 100000000))) = n div 100000000 \<and>
      is_digit (digit_char (nat (n div 100000000)))"
    using digit_char_val [of "nat (n div 100000000)"] by auto
  show "length (pad9 n) = 9" by (simp add: pad9_def)
  show "list_all is_digit (pad9 n)" using d h by (simp add: pad9_def)
  have "dec_val (pad9 n) = n div 100000000 * 10 ^ 8 + (n div 10000 mod 10000 * 10 ^ 4 + n mod 10000)"
  proof -
    have "pad9 n = [digit_char (nat (n div 100000000))] @ pad4 (n div 10000) @ pad4 n" by (simp add: pad9_def)
    moreover have "dec_val [digit_char (nat (n div 100000000))] = n div 100000000"
      using h by (simp add: dec_val_def)
    ultimately show ?thesis using d by (simp only: dec_val_app length_append pad2_digits) simp
  qed
  also have "\<dots> = n"
  proof -
    obtain a b where ab: "a = n div 10000" "b = n div 10000 div 10000" by blast
    have "n div 100000000 = b" by (simp add: ab zdiv_zmult2_eq [symmetric])
    moreover have "10000 * b + a mod 10000 = a" "10000 * a + n mod 10000 = n"
      unfolding ab by (rule mult_div_mod_eq)+
    ultimately show ?thesis unfolding ab(1) [symmetric] by simp
  qed
  finally show "dec_val (pad9 n) = n" .
qed

text \<open>Trailing zeros do not change the value of a fraction.\<close>

lemma strip_zeros:
  assumes "ds = rev (dropWhile (\<lambda>c. c = CHR ''0'') (rev xs))"
  shows "xs = ds @ replicate (length xs - length ds) (CHR ''0'')"
proof -
  let ?z = "takeWhile (\<lambda>c. c = CHR ''0'') (rev xs)"
  have z: "?z = replicate (length ?z) (CHR ''0'')"
    by (rule replicate_length_same [symmetric]) (auto dest: set_takeWhileD)
  have "rev xs = ?z @ dropWhile (\<lambda>c. c = CHR ''0'') (rev xs)" by simp
  then have "xs = ds @ rev ?z" unfolding assms by (metis rev_append rev_rev_ident)
  moreover from this have "length xs - length ds = length ?z" by (metis add_diff_cancel_left' length_append length_rev)
  ultimately show ?thesis using z by (metis rev_replicate)
qed

lemma fmt_frac_parse:
  assumes "0 < ns" "ns < ns_per_sec"
  obtains ds where "fmt_frac ns = CHR ''.'' # ds" "ds \<noteq> []" "list_all is_digit ds" "parse_nanos ds = ns"
proof -
  obtain ds where ds: "ds = rev (dropWhile (\<lambda>c. c = CHR ''0'') (rev (pad9 ns)))" by blast
  note p9 = pad9_parts [of ns]
  have eq: "pad9 ns = ds @ replicate (9 - length ds) (CHR ''0'')"
    using strip_zeros [OF ds] p9(1) assms by simp
  have "ds \<noteq> []"
  proof
    assume "ds = []"
    with eq have "pad9 ns = replicate 9 (CHR ''0'')" by simp
    then have "dec_val (pad9 ns) = 0" by (simp add: numeral_eq_Suc dec_val_def digit_val_def)
    with p9(3) assms show False by simp
  qed
  moreover have "list_all is_digit ds" using p9(2) assms unfolding eq by simp
  moreover have "parse_nanos ds = ns" using p9 assms by (simp add: parse_nanos_def eq [symmetric])
  moreover have "fmt_frac ns = CHR ''.'' # ds" using assms by (simp add: fmt_frac_def ds)
  ultimately show ?thesis using that by blast
qed

lemma parse_civil:
  assumes "0 \<le> y" "y \<le> 9999" "1 \<le> mo" "mo \<le> 12" "1 \<le> d" "d \<le> days_in mo y"
    and "0 \<le> h" "h \<le> 23" "0 \<le> mi" "mi \<le> 59" "0 \<le> sec" "sec \<le> 59" "0 \<le> ns" "ns < ns_per_sec"
  shows "parse_rfc3339 (pad4 y @ ''-'' @ pad2 mo @ ''-'' @ pad2 d @ ''T'' @ pad2 h @ '':'' @ pad2 mi @ '':'' @
      pad2 sec @ fmt_frac ns @ ''Z'') = Some (date_utc y mo d h mi sec ns)"
proof -
  have d31: "days_in mo y \<le> 31" by (simp add: days_in_def)
  obtain r where r: "r = fmt_frac ns @ ''Z''" by blast
  obtain s where s: "s = pad4 y @ ''-'' @ pad2 mo @ ''-'' @ pad2 d @ ''T'' @ pad2 h @ '':'' @ pad2 mi @ '':'' @
      pad2 sec @ r" by blast
  have slices: "slice s 0 4 = pad4 y" "slice s 5 7 = pad2 mo" "slice s 8 10 = pad2 d" "slice s 11 13 = pad2 h"
    "slice s 14 16 = pad2 mi" "slice s 17 19 = pad2 sec" "drop 19 s = r"
    "s ! 4 = CHR ''-''" "s ! 7 = CHR ''-''" "s ! 10 = CHR ''T''" "s ! 13 = CHR '':''" "s ! 16 = CHR '':''"
    "\<not> length s < 19"
    by (simp_all add: s slice_def pad4_def pad2_def)
  have pu: "parse_uint (pad4 y) 0 9999 = Some y" "parse_uint (pad2 mo) 1 12 = Some mo"
    "parse_uint (pad2 d) 1 (days_in mo y) = Some d" "parse_uint (pad2 h) 0 23 = Some h"
    "parse_uint (pad2 mi) 0 59 = Some mi" "parse_uint (pad2 sec) 0 59 = Some sec"
    using assms d31 by (auto intro!: parse_uint_pad)
  let ?f = "if 2 \<le> length r \<and> hd r = CHR ''.'' \<and> is_digit (r ! 1) then takeWhile is_digit (tl r) else []"
  have "parse_nanos ?f = ns \<and> parse_zone (if ?f = [] then r else drop (Suc (length ?f)) r) = Some 0"
  proof (cases "ns = 0")
    case True
    have "parse_nanos [] = 0" by code_simp
    then show ?thesis using True by (simp add: r fmt_frac_def parse_zone_def)
  next
    case False
    with assms obtain ds where ds: "fmt_frac ns = CHR ''.'' # ds" "ds \<noteq> []" "list_all is_digit ds" "parse_nanos ds = ns"
      using fmt_frac_parse [of ns] by auto
    have "\<not> is_digit (CHR ''Z'')" by (simp add: is_digit_def)
    then have "takeWhile is_digit (ds @ ''Z'') = ds"
      using ds(3) by (subst takeWhile_append2) (auto simp: list_all_iff)
    moreover have "is_digit ((ds @ ''Z'') ! 0)" using ds(2,3) by (cases ds) auto
    ultimately show ?thesis using ds by (simp add: r parse_zone_def)
  qed
  moreover obtain fr where fr: "?f = fr" by blast
  ultimately have val: "parse_nanos fr = ns"
    and zone: "parse_zone (if fr = [] then r else drop (Suc (length fr)) r) = Some 0" unfolding fr by blast+
  have "parse_rfc3339 s = Some (date_utc y mo d h mi sec 0 + parse_nanos fr - 0 * ns_per_sec)"
    unfolding parse_rfc3339_def
    by (simp only: slices pu option.case prod.case Let_def fr zone if_False not_True_eq_False simp_thms)
      (simp only: date_utc_def add_0_right mult_zero_left diff_zero)
  then have "parse_rfc3339 s = Some (date_utc y mo d h mi sec ns)" by (simp add: val date_utc_def)
  then show ?thesis by (simp add: s r)
qed

lemma parse_fmt_nano:
  assumes "year_ok t"
  shows "parse_rfc3339 (fmt_rfc3339nano t) = Some t"
proof -
  define s where "s = t mod day_ns div ns_per_sec"
  have day: "0 \<le> t mod day_ns" "t mod day_ns < 86400 * ns_per_sec"
    by (simp_all add: day_ns_def)
  have s: "0 \<le> s" "s < 86400" unfolding s_def using day by (auto simp: div_less_iff_less_mult)
  have hms: "0 \<le> s div 3600" "s div 3600 \<le> 23" "0 \<le> s div 60 mod 60" "s div 60 mod 60 \<le> 59" "0 \<le> s mod 60" "s mod 60 \<le> 59"
    using s by auto
  have recomp: "s div 3600 * 3600 + s div 60 mod 60 * 60 + s mod 60 = s"
  proof -
    have "s div 3600 = s div 60 div 60" by (simp add: zdiv_zmult2_eq [symmetric])
    then show ?thesis using mult_div_mod_eq [of 60 "s div 60"] mult_div_mod_eq [of 60 s] by linarith
  qed
  have "t mod day_ns mod ns_per_sec = t mod ns_per_sec" by (simp add: day_ns_def mod_mod_cancel)
  then have split: "t = utc_day_no t * day_ns + s * ns_per_sec + t mod ns_per_sec"
    unfolding s_def utc_day_no_def using mult_div_mod_eq [of day_ns t] mult_div_mod_eq [of ns_per_sec "t mod day_ns"]
    by (simp only: mult.commute [of _ day_ns] mult.commute [of _ ns_per_sec] add.assoc)
  have "parse_rfc3339 (fmt_rfc3339nano t) =
      Some (date_utc (civil_year (utc_day_no t)) (civil_month (utc_day_no t)) (civil_day (utc_day_no t))
        (s div 3600) (s div 60 mod 60) (s mod 60) (t mod ns_per_sec))"
    using parse_civil [OF _ _ civil_month_day hms, of "utc_day_no t" "t mod ns_per_sec"] assms
    by (simp add: fmt_rfc3339nano_def fmt_day_def fmt_clock_def s_def year_ok_def)
  also have "date_utc (civil_year (utc_day_no t)) (civil_month (utc_day_no t)) (civil_day (utc_day_no t))
        (s div 3600) (s div 60 mod 60) (s mod 60) (t mod ns_per_sec) = t"
    using split recomp unfolding date_utc_def civil_inverse by (simp add: day_ns_def algebra_simps)
  finally show ?thesis .
qed

end
