(* ===== verification/Wire.thy ===== *)
theory Wire
  imports JsonEnc TimeFormat Types
begin

text \<open>
  The ingest request on the wire: \<open>json.Marshal\<close> of \<open>types.IngestRequest\<close> on the watcher,
  and the server's strict streaming decoder. A timestamp is written in UTC; the zone Go
  keeps with a time does not change the instant that is read back.
\<close>

section \<open>Decoding\<close>

text \<open>\<open>DisallowUnknownFields\<close>: a member with no field is an error, found or not before.\<close>

definition strict_step :: "(string \<times> 'r decoder) list \<Rightarrow> 'r \<times> bool \<Rightarrow> string \<times> jval \<Rightarrow> 'r \<times> bool" where
  "strict_step fs = (\<lambda>(r, ok) (k, x).
     (case find_field fs k of
        None \<Rightarrow> (r, False)
      | Some dec \<Rightarrow> (let (r', ok') = dec x r in (r', ok \<and> ok'))))"

definition dec_strict :: "(string \<times> 'r decoder) list \<Rightarrow> 'r decoder" where
  "dec_strict fs v old =
     (case snd v of
        JObj ms \<Rightarrow> foldl (strict_step fs) (old, True) ms
      | JNull \<Rightarrow> (old, True)
      | _ \<Rightarrow> (old, False))"

text \<open>\<open>time.Time.UnmarshalJSON\<close> on the bytes of the value, escapes and all.\<close>

fun dec_time :: "gotime decoder" where
  "dec_time (raw, JStr _) old =
     (case parse_rfc3339 (butlast (tl raw)) of Some t \<Rightarrow> (t, True) | None \<Rightarrow> (zero_time, False))"
| "dec_time (_, JNull) old = (old, True)"
| "dec_time _ old = (old, False)"

definition zero_usage_record :: usage_record where
  "zero_usage_record = \<lparr>ur_MessageID = [], ur_RequestID = [], ur_SessionID = [], ur_Tool = [], ur_Model = [],
     ur_Timestamp = zero_time, ur_InputTokens = 0, ur_OutputTokens = 0, ur_CacheCreationTokens = 0,
     ur_CacheCreation1hTokens = 0, ur_CacheReadTokens = 0, ur_ProjectPath = [], ur_Backfill = False\<rparr>"

definition usage_record_decoders :: "(string \<times> usage_record decoder) list" where
  "usage_record_decoders =
     [fld ''message_id'' dec_string ur_MessageID ur_MessageID_update,
      fld ''request_id'' dec_string ur_RequestID ur_RequestID_update,
      fld ''session_id'' dec_string ur_SessionID ur_SessionID_update,
      fld ''tool'' dec_string ur_Tool ur_Tool_update,
      fld ''model'' dec_string ur_Model ur_Model_update,
      fld ''timestamp'' dec_time ur_Timestamp ur_Timestamp_update,
      fld ''input_tokens'' dec_int64 ur_InputTokens ur_InputTokens_update,
      fld ''output_tokens'' dec_int64 ur_OutputTokens ur_OutputTokens_update,
      fld ''cache_creation_tokens'' dec_int64 ur_CacheCreationTokens ur_CacheCreationTokens_update,
      fld ''cache_creation_1h_tokens'' dec_int64 ur_CacheCreation1hTokens ur_CacheCreation1hTokens_update,
      fld ''cache_read_tokens'' dec_int64 ur_CacheReadTokens ur_CacheReadTokens_update,
      fld ''project_path'' dec_string ur_ProjectPath ur_ProjectPath_update,
      fld ''backfill'' dec_bool ur_Backfill ur_Backfill_update]"

definition zero_edit_record :: edit_record where
  "zero_edit_record = \<lparr>er_EventID = [], er_SessionID = [], er_Tool = [], er_Timestamp = zero_time,
     er_Lang = [], er_LinesAdded = 0, er_LinesRemoved = 0, er_ProjectPath = [], er_Backfill = False\<rparr>"

definition edit_record_decoders :: "(string \<times> edit_record decoder) list" where
  "edit_record_decoders =
     [fld ''event_id'' dec_string er_EventID er_EventID_update,
      fld ''session_id'' dec_string er_SessionID er_SessionID_update,
      fld ''tool'' dec_string er_Tool er_Tool_update,
      fld ''timestamp'' dec_time er_Timestamp er_Timestamp_update,
      fld ''lang'' dec_string er_Lang er_Lang_update,
      fld ''lines_added'' dec_int64 er_LinesAdded er_LinesAdded_update,
      fld ''lines_removed'' dec_int64 er_LinesRemoved er_LinesRemoved_update,
      fld ''project_path'' dec_string er_ProjectPath er_ProjectPath_update,
      fld ''backfill'' dec_bool er_Backfill er_Backfill_update]"

definition zero_request :: ingest_request where
  "zero_request = \<lparr>iq_MachineID = [], iq_Records = [], iq_Edits = []\<rparr>"

definition request_decoders :: "(string \<times> ingest_request decoder) list" where
  "request_decoders =
     [fld ''machine_id'' dec_string iq_MachineID iq_MachineID_update,
      fld ''records'' (dec_slice zero_usage_record (dec_strict usage_record_decoders)) iq_Records iq_Records_update,
      fld ''edits'' (dec_slice zero_edit_record (dec_strict edit_record_decoders)) iq_Edits iq_Edits_update]"

text \<open>
  \<open>json.Decoder.Decode\<close>: the first value of the stream, whatever follows it. A scalar only
  ends with the byte after it, so one cut off by a read error is not delivered.
\<close>

fun is_scalar :: "json \<Rightarrow> bool" where
  "is_scalar (JArr _) = False"
| "is_scalar (JObj _) = False"
| "is_scalar _ = True"

definition json_first :: "string \<Rightarrow> bool \<Rightarrow> jval option" where
  "json_first s clean =
     (let t = skip_ws s in
      case parse_value max_depth t of
        None \<Rightarrow> None
      | Some (v, r) \<Rightarrow>
          if r = [] \<and> \<not> clean \<and> is_scalar v then None else Some (take (length t - length r) t, v))"

definition decode_request :: "string \<Rightarrow> bool \<Rightarrow> ingest_request option" where
  "decode_request s clean =
     (case json_first s clean of
        None \<Rightarrow> None
      | Some v \<Rightarrow> (let (q, ok) = dec_strict request_decoders v zero_request in if ok then Some q else None))"

section \<open>Encoding\<close>

definition enc_time :: "gotime \<Rightarrow> string" where "enc_time t = enc_string (fmt_rfc3339nano t)"

text \<open>\<open>omitempty\<close>.\<close>

definition unless_zero :: "bool \<Rightarrow> 'a \<Rightarrow> 'a list" where "unless_zero z m = (if z then [] else [m])"

definition enc_usage_record :: "usage_record \<Rightarrow> string" where
  "enc_usage_record r = enc_object
     ([(''message_id'', enc_string (ur_MessageID r))] @
      unless_zero (ur_RequestID r = []) (''request_id'', enc_string (ur_RequestID r)) @
      [(''session_id'', enc_string (ur_SessionID r))] @
      unless_zero (ur_Tool r = []) (''tool'', enc_string (ur_Tool r)) @
      [(''model'', enc_string (ur_Model r)),
       (''timestamp'', enc_time (ur_Timestamp r)),
       (''input_tokens'', itoa (ur_InputTokens r)),
       (''output_tokens'', itoa (ur_OutputTokens r)),
       (''cache_creation_tokens'', itoa (ur_CacheCreationTokens r))] @
      unless_zero (ur_CacheCreation1hTokens r = 0)
        (''cache_creation_1h_tokens'', itoa (ur_CacheCreation1hTokens r)) @
      [(''cache_read_tokens'', itoa (ur_CacheReadTokens r))] @
      unless_zero (ur_ProjectPath r = []) (''project_path'', enc_string (ur_ProjectPath r)) @
      unless_zero (\<not> ur_Backfill r) (''backfill'', enc_bool (ur_Backfill r)))"

definition enc_edit_record :: "edit_record \<Rightarrow> string" where
  "enc_edit_record r = enc_object
     ([(''event_id'', enc_string (er_EventID r)),
       (''session_id'', enc_string (er_SessionID r))] @
      unless_zero (er_Tool r = []) (''tool'', enc_string (er_Tool r)) @
      [(''timestamp'', enc_time (er_Timestamp r)),
       (''lang'', enc_string (er_Lang r)),
       (''lines_added'', itoa (er_LinesAdded r)),
       (''lines_removed'', itoa (er_LinesRemoved r))] @
      unless_zero (er_ProjectPath r = []) (''project_path'', enc_string (er_ProjectPath r)) @
      unless_zero (\<not> er_Backfill r) (''backfill'', enc_bool (er_Backfill r)))"

text \<open>\<open>json.Marshal\<close> fails on a year that RFC 3339 cannot write.\<close>

definition marshal_request :: "ingest_request \<Rightarrow> string option" where
  "marshal_request q =
     (if list_all (\<lambda>r. year_ok (ur_Timestamp r)) (iq_Records q) \<and> list_all (\<lambda>r. year_ok (er_Timestamp r)) (iq_Edits q)
      then Some (enc_object
        ([(''machine_id'', enc_string (iq_MachineID q))] @
         unless_zero (iq_Records q = []) (''records'', enc_array (map enc_usage_record (iq_Records q))) @
         unless_zero (iq_Edits q = []) (''edits'', enc_array (map enc_edit_record (iq_Edits q)))))
      else None)"

section \<open>The round trip\<close>

definition valid_usage :: "usage_record \<Rightarrow> usage_record" where
  "valid_usage r = r\<lparr>ur_MessageID := to_valid (ur_MessageID r), ur_RequestID := to_valid (ur_RequestID r),
     ur_SessionID := to_valid (ur_SessionID r), ur_Tool := to_valid (ur_Tool r), ur_Model := to_valid (ur_Model r),
     ur_ProjectPath := to_valid (ur_ProjectPath r)\<rparr>"

definition valid_edit :: "edit_record \<Rightarrow> edit_record" where
  "valid_edit r = r\<lparr>er_EventID := to_valid (er_EventID r), er_SessionID := to_valid (er_SessionID r),
     er_Tool := to_valid (er_Tool r), er_Lang := to_valid (er_Lang r),
     er_ProjectPath := to_valid (er_ProjectPath r)\<rparr>"

definition valid_request :: "ingest_request \<Rightarrow> ingest_request" where
  "valid_request q = \<lparr>iq_MachineID = to_valid (iq_MachineID q), iq_Records = map valid_usage (iq_Records q),
     iq_Edits = map valid_edit (iq_Edits q)\<rparr>"

text \<open>The counters of a record are \<open>int64\<close> values.\<close>

definition usage_i64 :: "usage_record \<Rightarrow> bool" where
  "usage_i64 r \<longleftrightarrow> in_i64 (ur_InputTokens r) \<and> in_i64 (ur_OutputTokens r) \<and> in_i64 (ur_CacheCreationTokens r) \<and>
     in_i64 (ur_CacheCreation1hTokens r) \<and> in_i64 (ur_CacheReadTokens r)"

definition edit_i64 :: "edit_record \<Rightarrow> bool" where
  "edit_i64 r \<longleftrightarrow> in_i64 (er_LinesAdded r) \<and> in_i64 (er_LinesRemoved r)"

text \<open>The members of an encoded record with the values the parser finds in them.\<close>

definition usage_values :: "usage_record \<Rightarrow> (string \<times> string \<times> json) list" where
  "usage_values r =
     (let str = (\<lambda>k s. (k, enc_string s, JStr (to_valid s))); num = (\<lambda>k i. (k, itoa i, JNum (itoa i))) in
      [str ''message_id'' (ur_MessageID r)] @
      unless_zero (ur_RequestID r = []) (str ''request_id'' (ur_RequestID r)) @
      [str ''session_id'' (ur_SessionID r)] @
      unless_zero (ur_Tool r = []) (str ''tool'' (ur_Tool r)) @
      [str ''model'' (ur_Model r), str ''timestamp'' (fmt_rfc3339nano (ur_Timestamp r)),
       num ''input_tokens'' (ur_InputTokens r), num ''output_tokens'' (ur_OutputTokens r),
       num ''cache_creation_tokens'' (ur_CacheCreationTokens r)] @
      unless_zero (ur_CacheCreation1hTokens r = 0) (num ''cache_creation_1h_tokens'' (ur_CacheCreation1hTokens r)) @
      [num ''cache_read_tokens'' (ur_CacheReadTokens r)] @
      unless_zero (ur_ProjectPath r = []) (str ''project_path'' (ur_ProjectPath r)) @
      unless_zero (\<not> ur_Backfill r) (''backfill'', enc_bool (ur_Backfill r), JBool (ur_Backfill r)))"

definition edit_values :: "edit_record \<Rightarrow> (string \<times> string \<times> json) list" where
  "edit_values r =
     (let str = (\<lambda>k s. (k, enc_string s, JStr (to_valid s))); num = (\<lambda>k i. (k, itoa i, JNum (itoa i))) in
      [str ''event_id'' (er_EventID r), str ''session_id'' (er_SessionID r)] @
      unless_zero (er_Tool r = []) (str ''tool'' (er_Tool r)) @
      [str ''timestamp'' (fmt_rfc3339nano (er_Timestamp r)), str ''lang'' (er_Lang r),
       num ''lines_added'' (er_LinesAdded r), num ''lines_removed'' (er_LinesRemoved r)] @
      unless_zero (er_ProjectPath r = []) (str ''project_path'' (er_ProjectPath r)) @
      unless_zero (\<not> er_Backfill r) (''backfill'', enc_bool (er_Backfill r), JBool (er_Backfill r)))"

lemma map_unless_zero: "map f (unless_zero z m) = unless_zero z (f m)"
  by (simp add: unless_zero_def)

lemma list_all_unless_zero: "list_all P (unless_zero z m) \<longleftrightarrow> z \<or> P m"
  by (simp add: unless_zero_def)

lemma enc_usage_values: "enc_usage_record r = enc_object (map (\<lambda>(k, t, v). (k, t)) (usage_values r))"
  by (simp add: enc_usage_record_def usage_values_def map_unless_zero enc_time_def)

lemma enc_edit_values: "enc_edit_record r = enc_object (map (\<lambda>(k, t, v). (k, t)) (edit_values r))"
  by (simp add: enc_edit_record_def edit_values_def map_unless_zero enc_time_def)

lemma usage_values_read: "list_all (\<lambda>(k, t, v). plain_key k \<and> reads d t v) (usage_values r)"
  by (simp add: usage_values_def list_all_unless_zero reads_string reads_int reads_bool plain_key_def html_safe_def)

lemma edit_values_read: "list_all (\<lambda>(k, t, v). plain_key k \<and> reads d t v) (edit_values r)"
  by (simp add: edit_values_def list_all_unless_zero reads_string reads_int reads_bool plain_key_def html_safe_def)

text \<open>One member at a time: an omitted member leaves the zero its field already holds.\<close>

lemma foldl_unless_zero:
  "(z \<Longrightarrow> f s m = s) \<Longrightarrow> foldl f s (unless_zero z m @ ms) = foldl f (f s m) ms"
  "(z \<Longrightarrow> f s m = s) \<Longrightarrow> foldl f s (unless_zero z m) = f s m"
  by (simp_all add: unless_zero_def)

lemma digit_safe: "is_digit c \<Longrightarrow> html_safe c"
  by (auto simp: is_digit_def html_safe_def)

lemma pad_safe: "list_all html_safe (pad2 n)" "list_all html_safe (pad4 n)"
proof -
  have d: "html_safe (digit_char (nat (m mod 10)))" for m
    using digit_char_val [of "nat (m mod 10)"] by (intro digit_safe) auto
  show "list_all html_safe (pad2 n)" by (simp add: pad2_def d)
  then show "list_all html_safe (pad4 n)" by (simp add: pad4_def pad2_def d)
qed

lemma plain_time: "plain_key (fmt_rfc3339nano t)"
proof -
  have "list_all html_safe (fmt_frac ns)" if ns: "0 \<le> ns" "ns < ns_per_sec" for ns
  proof (cases "ns = 0")
    case False
    with ns obtain ds where "fmt_frac ns = CHR ''.'' # ds" "list_all is_digit ds"
      using fmt_frac_parse [of ns] by auto
    then show ?thesis by (auto simp: list_all_iff digit_safe) (simp add: html_safe_def)
  qed (simp add: fmt_frac_def)
  then show ?thesis
    by (simp add: plain_key_def fmt_rfc3339nano_def fmt_day_def fmt_clock_def pad_safe)
      (simp add: html_safe_def)
qed

lemma dec_time_enc:
  assumes "year_ok t"
  shows "dec_time (enc_string (fmt_rfc3339nano t), JStr s) old = (t, True)"
  using plain_key_enc [OF plain_time [of t]] parse_fmt_nano [OF assms]
  by (simp add: enc_string_def butlast_append)

lemmas member_steps = strict_step_def find_field_def fld_def

lemma dec_usage_values:
  assumes "usage_i64 r" "year_ok (ur_Timestamp r)"
  shows "dec_strict usage_record_decoders (raw, JObj (usage_values r)) zero_usage_record = (valid_usage r, True)"
proof -
  note num = parse_int64_itoa
  have i: "in_i64 (ur_InputTokens r)" "in_i64 (ur_OutputTokens r)" "in_i64 (ur_CacheCreationTokens r)"
    "in_i64 (ur_CacheCreation1hTokens r)" "in_i64 (ur_CacheReadTokens r)"
    using assms(1) by (simp_all add: usage_i64_def)
  show ?thesis
    unfolding dec_strict_def usage_values_def Let_def
    by (simp add: usage_record_decoders_def member_steps zero_usage_record_def valid_usage_def num i
        dec_time_enc [OF assms(2)] foldl_unless_zero del: dec_time.simps)
qed

lemma dec_edit_values:
  assumes "edit_i64 r" "year_ok (er_Timestamp r)"
  shows "dec_strict edit_record_decoders (raw, JObj (edit_values r)) zero_edit_record = (valid_edit r, True)"
proof -
  note num = parse_int64_itoa
  have i: "in_i64 (er_LinesAdded r)" "in_i64 (er_LinesRemoved r)"
    using assms(1) by (simp_all add: edit_i64_def)
  show ?thesis
    unfolding dec_strict_def edit_values_def Let_def
    by (simp add: edit_record_decoders_def member_steps zero_edit_record_def valid_edit_def num i
        dec_time_enc [OF assms(2)] foldl_unless_zero del: dec_time.simps)
qed

lemma dec_slice_fresh:
  assumes "\<And>x. x \<in> set xs \<Longrightarrow> dec (t x, v x) zero = (f x, True)"
  shows "dec_slice zero dec (raw, JArr (map (\<lambda>x. (t x, v x)) xs)) [] = (map f xs, True)"
proof -
  have "zip (map (\<lambda>x. (t x, v x)) xs) (replicate (length xs) zero) = map (\<lambda>x. ((t x, v x), zero)) xs"
    by (induction xs) auto
  then show ?thesis using assms by (auto simp: dec_slice_def Let_def list_all_iff)
qed

definition request_values :: "ingest_request \<Rightarrow> (string \<times> string \<times> json) list" where
  "request_values q =
     [(''machine_id'', enc_string (iq_MachineID q), JStr (to_valid (iq_MachineID q)))] @
     unless_zero (iq_Records q = []) (''records'', enc_array (map enc_usage_record (iq_Records q)),
       JArr (map (\<lambda>r. (enc_usage_record r, JObj (usage_values r))) (iq_Records q))) @
     unless_zero (iq_Edits q = []) (''edits'', enc_array (map enc_edit_record (iq_Edits q)),
       JArr (map (\<lambda>r. (enc_edit_record r, JObj (edit_values r))) (iq_Edits q)))"

lemma request_values_read:
  assumes "3 \<le> d"
  shows "list_all (\<lambda>(k, t, v). plain_key k \<and> reads (d - 1) t v) (request_values q)"
proof -
  have u: "reads (d - 2) (enc_usage_record r) (JObj (usage_values r))" for r
    unfolding enc_usage_values by (rule reads_object [OF usage_values_read]) (use assms in simp)
  have e: "reads (d - 2) (enc_edit_record r) (JObj (edit_values r))" for r
    unfolding enc_edit_values by (rule reads_object [OF edit_values_read]) (use assms in simp)
  have "reads (d - 1) (enc_array (map enc_usage_record rs))
      (JArr (map (\<lambda>r. (enc_usage_record r, JObj (usage_values r))) rs))" for rs
    using reads_array [of "d - 1" "map (\<lambda>r. (enc_usage_record r, JObj (usage_values r))) rs"] u assms
    by (simp add: list_all_iff comp_def)
  moreover have "reads (d - 1) (enc_array (map enc_edit_record rs))
      (JArr (map (\<lambda>r. (enc_edit_record r, JObj (edit_values r))) rs))" for rs
    using reads_array [of "d - 1" "map (\<lambda>r. (enc_edit_record r, JObj (edit_values r))) rs"] e assms
    by (simp add: list_all_iff comp_def)
  ultimately show ?thesis
    by (simp add: request_values_def list_all_unless_zero reads_string plain_key_def html_safe_def)
qed

definition request_i64 :: "ingest_request \<Rightarrow> bool" where
  "request_i64 q \<longleftrightarrow> list_all usage_i64 (iq_Records q) \<and> list_all edit_i64 (iq_Edits q)"

lemma decode_marshal:
  assumes "marshal_request q = Some body" "request_i64 q"
  shows "decode_request (body @ rest) clean = Some (valid_request q)"
proof -
  have years: "\<forall>r \<in> set (iq_Records q). year_ok (ur_Timestamp r)" "\<forall>r \<in> set (iq_Edits q). year_ok (er_Timestamp r)"
    and body: "body = enc_object (map (\<lambda>(k, t, v). (k, t)) (request_values q))"
    using assms(1) by (auto simp: marshal_request_def request_values_def map_unless_zero list_all_iff split: if_splits)
  have i64: "\<forall>r \<in> set (iq_Records q). usage_i64 r" "\<forall>r \<in> set (iq_Edits q). edit_i64 r"
    using assms(2) by (auto simp: request_i64_def list_all_iff)
  have parse: "parse_value max_depth (body @ rest) = Some (JObj (request_values q), rest)"
    unfolding body by (rule parse_object [OF request_values_read]) (simp_all add: max_depth_def)
  have ws: "skip_ws (body @ rest) = body @ rest"
    by (simp add: body enc_object_def is_ws_def)
  have us: "dec_slice zero_usage_record (dec_strict usage_record_decoders)
      (raw, JArr (map (\<lambda>r. (enc_usage_record r, JObj (usage_values r))) (iq_Records q))) [] =
      (map valid_usage (iq_Records q), True)" for raw
    by (rule dec_slice_fresh) (use dec_usage_values years i64 in auto)
  have es: "dec_slice zero_edit_record (dec_strict edit_record_decoders)
      (raw, JArr (map (\<lambda>r. (enc_edit_record r, JObj (edit_values r))) (iq_Edits q))) [] =
      (map valid_edit (iq_Edits q), True)" for raw
    by (rule dec_slice_fresh) (use dec_edit_values years i64 in auto)
  have "dec_strict request_decoders (raw, JObj (request_values q)) zero_request = (valid_request q, True)" for raw
    unfolding dec_strict_def request_values_def
    by (simp add: request_decoders_def member_steps zero_request_def valid_request_def us es unless_zero_def)
  then show ?thesis
    by (simp add: decode_request_def json_first_def ws parse)
qed

section \<open>Properties\<close>

text \<open>
  C21. What the watcher marshals the server's strict decoder accepts and reads back: every record
  and every edit with its counters and its instant exact and its texts with ill-formed UTF-8
  replaced, whatever follows the request on the connection.
\<close>

theorem wire_roundtrip:
  assumes "marshal_request q = Some body" "request_i64 q"
  shows "decode_request (body @ rest) clean = Some (valid_request q)"
  using assms by (rule decode_marshal)

section \<open>Samples\<close>

definition sample_request :: ingest_request where
  "sample_request = \<lparr>iq_MachineID = ''box'',
     iq_Records = [\<lparr>ur_MessageID = ''m<1>'', ur_RequestID = [], ur_SessionID = ''s'', ur_Tool = ''pi'', ur_Model = ''x'',
       ur_Timestamp = 1782900002500000000, ur_InputTokens = 12, ur_OutputTokens = -3, ur_CacheCreationTokens = 0,
       ur_CacheCreation1hTokens = 0, ur_CacheReadTokens = 7, ur_ProjectPath = [], ur_Backfill = True\<rparr>],
     iq_Edits = []\<rparr>"

lemma sample_marshal: "marshal_request sample_request = Some (jq (
   ''{~machine_id~:~box~,~records~:[{~message_id~:~m'' @ [bslash] @ ''u003c1'' @ [bslash] @ ''u003e~,~session_id~:~s~,~tool~:~pi~,'' @
   ''~model~:~x~,~timestamp~:~2026-07-01T10:00:02.5Z~,~input_tokens~:12,~output_tokens~:-3,'' @
   ''~cache_creation_tokens~:0,~cache_read_tokens~:7,~backfill~:true}]}''))"
  by code_simp

theorem wire_roundtrip_witness:
  "decode_request (the (marshal_request sample_request)) True = Some sample_request"
proof -
  have "request_i64 sample_request" "valid_request sample_request = sample_request" by code_simp+
  then show ?thesis
    using wire_roundtrip [of sample_request _ "[]" True] sample_marshal by simp
qed

end
