(* ===== verification/Api.thy ===== *)
theory Api
  imports Queries Auth Wire
begin

text \<open>
  The HTTP interface of the server (\<open>server/api.go\<close>): routing, authentication, ingest and
  the dashboard's reads. A response body is kept as the value that is encoded; the texts of
  JSON decoding errors are not spelled out. Whether the database answers each statement of
  a request, and its clock, are part of the request's environment.
\<close>

section \<open>Requests and responses\<close>

record http_request =
  rq_Method :: string
  rq_Path :: string
  rq_RawQuery :: string
  rq_Authorization :: string
  rq_Body :: string
  rq_BodyClean :: bool

record summaryRow =
  sm_Day :: string
  sm_User :: string
  sm_Tool :: string
  sm_Model :: string
  sm_Input :: int
  sm_Output :: int
  sm_CacheCC :: int
  sm_CacheCC1h :: int
  sm_CacheRR :: int
  sm_Total :: int
  sm_Messages :: int
  sm_Cost :: rat

record langRow =
  lr_Day :: string
  lr_User :: string
  lr_Tool :: string
  lr_Lang :: string
  lr_LinesAdded :: int
  lr_LinesRemoved :: int
  lr_Edits :: int

record activityRow =
  ar_Day :: string
  ar_Tokens :: int
  ar_Messages :: int

record userView =
  vw_UserID :: string
  vw_Email :: string
  vw_CreatedAt :: string
  vw_Disabled :: bool

record priceView =
  pv_Model :: string
  pv_ValidFrom :: string
  pv_ValidTo :: string
  pv_Rate :: rate
  pv_Source :: string

datatype resp_body =
    ErrorText string
  | DecodeError
  | HealthOK
  | IngestBody ingest_response
  | SummaryBody "summaryRow list"
  | LangBody "langRow list"
  | ClockBody "clock_row list"
  | ActivityBody "activityRow list"
  | UsersBody "userView list"
  | PricesBody "priceView list"
  | IndexPage
  | StaticFile string

record http_response =
  rs_Status :: int
  rs_Body :: resp_body

definition http_error :: "string \<Rightarrow> int \<Rightarrow> http_response" where
  "http_error msg code = \<lparr>rs_Status = code, rs_Body = ErrorText msg\<rparr>"

definition http_ok :: "resp_body \<Rightarrow> http_response" where
  "http_ok b = \<lparr>rs_Status = 200, rs_Body = b\<rparr>"

text \<open>The server's state, and what happens around one request.\<close>

record server_state =
  sv_Auth :: auth_tables
  sv_Usage :: usage_tables
  sv_Edits :: edit_tables
  sv_Prices :: "price_row list"

record req_env =
  en_pg :: pg
  en_now :: gotime
  en_authUp :: bool
  en_usageUp :: bool
  en_editsUp :: bool
  en_queryUp :: bool
  en_midnight :: "int \<Rightarrow> gotime"
  en_zones :: "string \<Rightarrow> (gotime \<Rightarrow> int) option"

section \<open>Query strings\<close>

text \<open>\<open>url.QueryUnescape\<close>.\<close>

fun query_unescape :: "string \<Rightarrow> string option" where
  "query_unescape [] = Some []"
| "query_unescape (c # cs) =
     (if c = CHR ''%'' then
        (case cs of
           a # b # r \<Rightarrow>
             (case (hex_val a, hex_val b) of
                (Some x, Some y) \<Rightarrow> map_option (Cons (char_of (16 * x + y))) (query_unescape r)
              | _ \<Rightarrow> None)
         | _ \<Rightarrow> None)
      else map_option (Cons (if c = CHR ''+'' then CHR '' '' else c)) (query_unescape cs))"

text \<open>
  \<open>url.ParseQuery\<close>: pairs with a semicolon, an empty pair or a bad escape are dropped.
\<close>

definition query_pair :: "string \<Rightarrow> (string \<times> string) option" where
  "query_pair s =
     (if CHR '';'' \<in> set s \<or> s = [] then None
      else (case (query_unescape (takeWhile (\<lambda>c. c \<noteq> CHR ''='') s),
                  query_unescape (tl (dropWhile (\<lambda>c. c \<noteq> CHR ''='') s))) of
         (Some k, Some v) \<Rightarrow> Some (k, v)
       | _ \<Rightarrow> None))"

definition query_get :: "string \<Rightarrow> string \<Rightarrow> string" where
  "query_get raw k =
     (case map_of (List.map_filter query_pair (split_on (CHR ''&'') raw)) k of
        Some v \<Rightarrow> v | None \<Rightarrow> [])"

text \<open>\<open>strconv.ParseInt(s, 10, 64)\<close> takes a sign of either kind.\<close>

definition parse_int10 :: "string \<Rightarrow> int option" where
  "parse_int10 s =
     (case s of
        c # r \<Rightarrow> if c = CHR ''+'' then (if r \<noteq> [] \<and> hd r = CHR ''-'' then None else parse_int64 r)
                else parse_int64 s
      | [] \<Rightarrow> None)"

text \<open>\<open>time.Unix(n, 0)\<close>: the seconds since year 1 wrap around in \<open>int64\<close>.\<close>

definition time_unix :: "int \<Rightarrow> gotime" where
  "time_unix n = (i64 (n + 62135596800) - 62135596800) * ns_per_sec"

definition parseTime :: "string \<Rightarrow> gotime" where
  "parseTime s =
     (if s = [] then zero_time
      else (case parse_rfc3339 s of
         Some t \<Rightarrow> t
       | None \<Rightarrow> (case parse_int10 s of Some n \<Rightarrow> time_unix n | None \<Rightarrow> zero_time)))"

section \<open>Ingest\<close>

definition extractBearer :: "string \<Rightarrow> string" where
  "extractBearer h =
     (if has_prefix h ''Bearer '' then trim_space (drop 7 h) else [])"

definition max_body :: nat where "max_body = 16777216"

text \<open>The handler from the decoded request on, then the whole handler.\<close>

definition store_request ::
    "req_env \<Rightarrow> string \<Rightarrow> ingest_request \<Rightarrow> server_state \<Rightarrow> http_response \<times> server_state" where
  "store_request e userID req st =
     (if iq_MachineID req = [] then (http_error ''machine_id required'' 400, st)
      else (case Insert (en_pg e) (en_usageUp e) (iq_MachineID req) userID (iq_Records req) (sv_Usage st) of
         (Inl _, _) \<Rightarrow> (http_error ''store error'' 500, st)
       | (Inr (acc, dup), usage') \<Rightarrow>
           let st' = st\<lparr>sv_Usage := usage'\<rparr> in
           (case InsertEdits (en_pg e) (en_editsUp e) (iq_MachineID req) userID (iq_Edits req) (sv_Edits st) of
              (Inl _, _) \<Rightarrow> (http_error ''store error'' 500, st')
            | (Inr (eacc, edup), edits') \<Rightarrow>
                (http_ok (IngestBody \<lparr>ip_Accepted = acc, ip_Duplicates = dup,
                                     ip_EditsAccepted = eacc, ip_EditsDuplicates = edup\<rparr>),
                 st'\<lparr>sv_Edits := edits'\<rparr>))))"

definition handleIngest :: "req_env \<Rightarrow> http_request \<Rightarrow> server_state \<Rightarrow> http_response \<times> server_state" where
  "handleIngest e r st =
     (if rq_Method r \<noteq> ''POST'' then (http_error ''method not allowed'' 405, st)
      else let bearer = extractBearer (rq_Authorization r) in
      if bearer = [] then (http_error ''missing api key (Authorization: Bearer tuk_...)'' 401, st)
      else (case ResolveAPIKey (en_authUp e) (en_now e) bearer (sv_Auth st) of
         (Inl err, _) \<Rightarrow>
           (if err = InvalidKey then http_error ''invalid or revoked api key'' 401
            else http_error ''auth error'' 500, st)
       | (Inr userID, auth') \<Rightarrow>
           (case decode_request (take max_body (rq_Body r)) (rq_BodyClean r \<and> length (rq_Body r) \<le> max_body) of
              None \<Rightarrow> (\<lparr>rs_Status = 400, rs_Body = DecodeError\<rparr>, st\<lparr>sv_Auth := auth'\<rparr>)
            | Some req \<Rightarrow> store_request e userID req (st\<lparr>sv_Auth := auth'\<rparr>))))"

section \<open>The dashboard's reads\<close>

text \<open>The cost of a row: the database's, or the in-memory table's where that is zero.\<close>

definition summary_cost :: "pricer \<Rightarrow> agg_row \<Rightarrow> rat" where
  "summary_cost pricer row =
     (if ag_Cost row = 0
      then Pricer_Cost pricer (ag_Model row) (us_input (ag_Sum row)) (us_output (ag_Sum row))
             (us_cc (ag_Sum row)) (us_cc1h (ag_Sum row)) (us_cr (ag_Sum row))
      else ag_Cost row)"

definition summary_row :: "pricer \<Rightarrow> agg_row \<Rightarrow> summaryRow" where
  "summary_row pricer row =
     (let s = ag_Sum row in
      \<lparr>sm_Day = fmt_day (ag_Day row), sm_User = ag_User row, sm_Tool = ag_Tool row, sm_Model = ag_Model row,
       sm_Input = us_input s, sm_Output = us_output s, sm_CacheCC = us_cc s, sm_CacheCC1h = us_cc1h s,
       sm_CacheRR = us_cr s, sm_Total = i64 (us_input s + us_output s + us_cc s + us_cr s),
       sm_Messages = us_messages s, sm_Cost = summary_cost pricer row\<rparr>)"

text \<open>The frame the reads share: \<open>GET\<close> only, 500 when the store fails.\<close>

definition read_handler :: "http_request \<Rightarrow> (db_error + 'a) \<Rightarrow> ('a \<Rightarrow> resp_body) \<Rightarrow> http_response" where
  "read_handler r res body =
     (if rq_Method r \<noteq> ''GET'' then http_error ''method not allowed'' 405
      else (case res of Inl _ \<Rightarrow> http_error ''store error'' 500 | Inr x \<Rightarrow> http_ok (body x)))"

definition handleSummary :: "req_env \<Rightarrow> pricer \<Rightarrow> http_request \<Rightarrow> server_state \<Rightarrow> http_response" where
  "handleSummary e pricer r st =
     (let q = query_get (rq_RawQuery r) in
      read_handler r
        (Aggregate (en_queryUp e) (en_midnight e) (sv_Prices st) (q ''user'') (parseTime (q ''from''))
           (parseTime (q ''to'')) (snd (sv_Usage st)))
        (\<lambda>rows. SummaryBody (map (summary_row pricer) rows)))"

definition handleLangs :: "req_env \<Rightarrow> http_request \<Rightarrow> server_state \<Rightarrow> http_response" where
  "handleLangs e r st =
     (let q = query_get (rq_RawQuery r) in
      read_handler r
        (LangAggregate (en_queryUp e) (q ''user'') (parseTime (q ''from'')) (parseTime (q ''to''))
           (snd (sv_Edits st)))
        (\<lambda>rows. LangBody (map (\<lambda>((day, u, t, l), s).
           \<lparr>lr_Day = fmt_day day, lr_User = u, lr_Tool = t, lr_Lang = l, lr_LinesAdded = es_added s,
            lr_LinesRemoved = es_removed s, lr_Edits = es_edits s\<rparr>) rows)))"

definition handleClock :: "req_env \<Rightarrow> http_request \<Rightarrow> server_state \<Rightarrow> http_response" where
  "handleClock e r st =
     (let q = query_get (rq_RawQuery r) in
      read_handler r
        (ClockAggregate (en_queryUp e) (en_zones e) (en_midnight e) (sv_Prices st) (q ''user'') (q ''tz'')
           (parseTime (q ''from'')) (parseTime (q ''to'')) (fst (sv_Usage st)))
        ClockBody)"

definition handleActivity :: "req_env \<Rightarrow> http_request \<Rightarrow> server_state \<Rightarrow> http_response" where
  "handleActivity e r st =
     (let q = query_get (rq_RawQuery r) in
      read_handler r
        (ActivityAggregate (en_queryUp e) (q ''user'') (parseTime (q ''from'')) (parseTime (q ''to''))
           (snd (sv_Usage st)))
        (\<lambda>rows. ActivityBody (map (\<lambda>(day, t, n).
           \<lparr>ar_Day = fmt_day day, ar_Tokens = t, ar_Messages = n\<rparr>) rows)))"

definition handleUsers :: "req_env \<Rightarrow> http_request \<Rightarrow> server_state \<Rightarrow> http_response" where
  "handleUsers e r st =
     read_handler r (ListUsers (en_queryUp e) (sv_Auth st))
       (\<lambda>us. UsersBody (map (\<lambda>u. \<lparr>vw_UserID = uv_UserID u, vw_Email = uv_Email u,
          vw_CreatedAt = fmt_rfc3339 (uv_CreatedAt u), vw_Disabled = uv_Disabled u\<rparr>) us))"

definition price_view :: "price_row \<Rightarrow> priceView" where
  "price_view p = \<lparr>pv_Model = pr_ModelPrefix p, pv_ValidFrom = fmt_rfc3339 (pr_ValidFrom p),
     pv_ValidTo = (case pr_ValidTo p of Some t \<Rightarrow> fmt_rfc3339 t | None \<Rightarrow> []),
     pv_Rate = pr_Rate p, pv_Source = pr_Source p\<rparr>"

definition handlePrices :: "req_env \<Rightarrow> http_request \<Rightarrow> server_state \<Rightarrow> http_response" where
  "handlePrices e r st =
     (let q = query_get (rq_RawQuery r) in
      read_handler r
        (if q ''active'' = ''1'' then ListActivePrices (en_queryUp e) (sv_Prices st)
         else ListPriceHistory (en_queryUp e) (q ''model'') (sv_Prices st))
        (\<lambda>ps. PricesBody (map price_view ps)))"

definition handleHealth :: http_response where "handleHealth = http_ok HealthOK"

text \<open>
  The embedded dashboard (\<open>server/web.go\<close>), by path; \<open>StaticFile\<close> stands for whatever the file
  server answers for the rest of the path.
\<close>

definition webHandler :: "http_request \<Rightarrow> http_response" where
  "webHandler r =
     (if rq_Path r = ''/'' \<or> rq_Path r = ''/index.html'' then http_ok IndexPage
      else if has_prefix (rq_Path r) ''/static/'' then http_ok (StaticFile (drop 8 (rq_Path r)))
      else http_error ''404 page not found'' 404)"

text \<open>\<open>Register\<close>: exact paths, everything else to the dashboard.\<close>

definition serve :: "req_env \<Rightarrow> pricer \<Rightarrow> http_request \<Rightarrow> server_state \<Rightarrow> http_response \<times> server_state" where
  "serve e pricer r st =
     (if rq_Path r = ''/ingest'' then handleIngest e r st
      else
        (if rq_Path r = ''/summary'' then handleSummary e pricer r st
         else if rq_Path r = ''/langs'' then handleLangs e r st
         else if rq_Path r = ''/clock'' then handleClock e r st
         else if rq_Path r = ''/activity'' then handleActivity e r st
         else if rq_Path r = ''/users'' then handleUsers e r st
         else if rq_Path r = ''/prices'' then handlePrices e r st
         else if rq_Path r = ''/healthz'' then handleHealth
         else webHandler r, st))"

section \<open>What the statements leave\<close>

lemma map_opt_mem:
  assumes "map_opt f xs = Some ys"
  shows "x \<in> set xs \<Longrightarrow> \<exists>y \<in> set ys. f x = Some y" "y \<in> set ys \<Longrightarrow> \<exists>x \<in> set xs. f x = Some y"
proof -
  have "list_all2 (\<lambda>x y. f x = Some y) xs ys" using assms by (simp add: map_opt_Some)
  then show "x \<in> set xs \<Longrightarrow> \<exists>y \<in> set ys. f x = Some y" "y \<in> set ys \<Longrightarrow> \<exists>x \<in> set xs. f x = Some y"
    by (induction rule: list_all2_induct) auto
qed

lemma usage_input_owner:
  assumes "usage_input p u m recs = Some rows" "(k, row) \<in> set rows"
  shows "pg_arg p u = Some (ud_user_id row)" "pg_arg p m = Some (ud_machine_id row)"
proof -
  obtain u' m' rs where a: "pg_arg p u = Some u'" "pg_arg p m = Some m'"
    "map_opt (usage_select p u' m') rs = Some rows"
    using assms(1) by (auto simp: usage_input_def split: option.splits)
  from map_opt_mem(2) [OF a(3) assms(2)] obtain r where "usage_select p u' m' r = Some (k, row)" by blast
  with a show "pg_arg p u = Some (ud_user_id row)" "pg_arg p m = Some (ud_machine_id row)"
    by (auto simp: usage_select_def split: option.splits)
qed

lemma edit_input_owner:
  assumes "edit_input p u m recs = Some rows" "(k, row) \<in> set rows"
  shows "pg_arg p u = Some (ed_user_id row)" "pg_arg p m = Some (ed_machine_id row)"
proof -
  obtain u' m' rs where a: "pg_arg p u = Some u'" "pg_arg p m = Some m'"
    "map_opt (edit_select p u' m') rs = Some rows"
    using assms(1) by (auto simp: edit_input_def split: option.splits)
  from map_opt_mem(2) [OF a(3) assms(2)] obtain r where "edit_select p u' m' r = Some (k, row)" by blast
  with a show "pg_arg p u = Some (ed_user_id row)" "pg_arg p m = Some (ed_machine_id row)"
    by (auto simp: edit_select_def split: option.splits)
qed

lemma ingest_set:
  assumes "ingest_rows add fits proj rows tabs = Some (n, tabs')"
  shows "set (fst tabs') \<subseteq> set (fst tabs) \<union> set rows"
proof -
  obtain detail' ins where ins: "insert_new (fst tabs) rows = (detail', ins)" by force
  then have "fst tabs' = detail'"
    using assms by (cases tabs) (auto simp: ingest_rows_def Let_def split: if_splits)
  with insert_new_append [OF ins] insert_new_subset [OF ins] show ?thesis by auto
qed

lemma Insert_owner:
  assumes "Insert p up m u recs tabs = (res, tabs')" "(k, row) \<in> set (fst tabs')"
  shows "(k, row) \<in> set (fst tabs) \<or> pg_arg p u = Some (ud_user_id row)"
  using assms(1)
proof (cases rule: Insert_cases)
  case (stored rows n)
  with ingest_set [OF stored(4)] usage_input_owner(1) [OF stored(3)] assms(2) show ?thesis by blast
qed (use assms(2) in auto)

lemma InsertEdits_owner:
  assumes "InsertEdits p up m u recs tabs = (res, tabs')" "(k, row) \<in> set (fst tabs')"
  shows "(k, row) \<in> set (fst tabs) \<or> pg_arg p u = Some (ed_user_id row)"
  using assms(1)
proof (cases rule: InsertEdits_cases)
  case (stored rows n)
  with ingest_set [OF stored(4)] edit_input_owner(1) [OF stored(3)] assms(2) show ?thesis by blast
qed (use assms(2) in auto)

text \<open>Every record with an id is stored under its ids, by this statement or an earlier one.\<close>

lemma Insert_durable:
  assumes "Insert p up m u recs tabs = (Inr x, tabs')"
    and "r \<in> set recs" "usage_texts p r = Some r'" "ur_MessageID r' \<noteq> []"
  shows "map_of (fst tabs') (ur_MessageID r', ur_RequestID r') \<noteq> None"
  using assms(1)
proof (cases rule: Insert_cases)
  case (stored rows n)
  obtain rs u' m' where rs: "map_opt (usage_texts p) recs = Some rs"
    "map_opt (usage_select p u' m') (filter (\<lambda>r. ur_MessageID r \<noteq> []) rs) = Some rows"
    using stored(3) by (auto simp: usage_input_def split: option.splits)
  have "r' \<in> set rs" using map_opt_mem(1) [OF rs(1) assms(2)] assms(3) by auto
  then obtain k row where "usage_select p u' m' r' = Some (k, row)" "(k, row) \<in> set rows"
    using map_opt_mem(1) [OF rs(2), of r'] assms(4) by auto
  moreover from this have "k = (ur_MessageID r', ur_RequestID r')"
    by (auto simp: usage_select_def split: option.splits)
  ultimately show ?thesis using ingest_keys stored(4) by (metis prod.collapse)
qed (use assms in auto)

lemma InsertEdits_durable:
  assumes "InsertEdits p up m u recs tabs = (Inr x, tabs')"
    and "r \<in> set recs" "edit_texts p r = Some r'" "er_EventID r' \<noteq> []"
  shows "map_of (fst tabs') (er_EventID r') \<noteq> None"
  using assms(1)
proof (cases rule: InsertEdits_cases)
  case (stored rows n)
  obtain rs u' m' where rs: "map_opt (edit_texts p) recs = Some rs"
    "map_opt (edit_select p u' m') (filter (\<lambda>r. er_EventID r \<noteq> []) rs) = Some rows"
    using stored(3) by (auto simp: edit_input_def split: option.splits)
  have "r' \<in> set rs" using map_opt_mem(1) [OF rs(1) assms(2)] assms(3) by auto
  then obtain k row where "edit_select p u' m' r' = Some (k, row)" "(k, row) \<in> set rows"
    using map_opt_mem(1) [OF rs(2), of r'] assms(4) by auto
  moreover from this have "k = er_EventID r'"
    by (auto simp: edit_select_def split: option.splits)
  ultimately show ?thesis using ingest_keys stored(4) by (metis prod.collapse)
qed (use assms in auto)

text \<open>What a request did, by its outcome.\<close>

definition resolve_of :: "req_env \<Rightarrow> http_request \<Rightarrow> server_state \<Rightarrow> (auth_error + string) \<times> auth_tables" where
  "resolve_of e r st = ResolveAPIKey (en_authUp e) (en_now e) (extractBearer (rq_Authorization r)) (sv_Auth st)"

definition body_of :: "http_request \<Rightarrow> ingest_request option" where
  "body_of r = decode_request (take max_body (rq_Body r)) (rq_BodyClean r \<and> length (rq_Body r) \<le> max_body)"

lemma handleIngest_cases:
  assumes "handleIngest e r st = (rs, st')"
  obtains (refused) "sv_Usage st' = sv_Usage st" "sv_Edits st' = sv_Edits st" "sv_Prices st' = sv_Prices st"
      "sv_Auth st' = sv_Auth st \<or> sv_Auth st' = snd (resolve_of e r st)" "rs_Status rs \<in> {400, 401, 405, 500}"
  | (processed) u auth' q where "resolve_of e r st = (Inr u, auth')" "body_of r = Some q" "rq_Method r = ''POST''"
      "store_request e u q (st\<lparr>sv_Auth := auth'\<rparr>) = (rs, st')"
proof -
  consider (a) "rs_Status rs \<in> {400, 401, 405, 500}" "sv_Usage st' = sv_Usage st" "sv_Edits st' = sv_Edits st"
      "sv_Prices st' = sv_Prices st" "sv_Auth st' = sv_Auth st \<or> sv_Auth st' = snd (resolve_of e r st)"
    | (b) u auth' q where "resolve_of e r st = (Inr u, auth')" "body_of r = Some q" "rq_Method r = ''POST''"
      "store_request e u q (st\<lparr>sv_Auth := auth'\<rparr>) = (rs, st')"
  proof (cases "resolve_of e r st")
    case (Pair x auth')
    show ?thesis
    proof (cases "rq_Method r \<noteq> ''POST'' \<or> extractBearer (rq_Authorization r) = []")
      case True
      then have "rs_Status rs \<in> {400, 401, 405, 500} \<and> st' = st"
        using assms by (auto simp: handleIngest_def http_error_def Let_def split: if_splits)
      then show ?thesis using that(1) by auto
    next
      case False
      show ?thesis
      proof (cases x)
        case (Inl err)
        with False Pair have "rs_Status rs \<in> {400, 401, 405, 500} \<and> st' = st"
          using assms by (auto simp: handleIngest_def http_error_def resolve_of_def split: if_splits)
        then show ?thesis using that(1) by auto
      next
        case (Inr u)
        show ?thesis
        proof (cases "body_of r")
          case None
          with False Pair Inr have "rs_Status rs = 400 \<and> st' = st\<lparr>sv_Auth := auth'\<rparr>"
            using assms by (auto simp: handleIngest_def resolve_of_def body_of_def)
          then show ?thesis using that(1) Pair by auto
        next
          case (Some q)
          with False Pair Inr have "store_request e u q (st\<lparr>sv_Auth := auth'\<rparr>) = (rs, st')"
            using assms by (auto simp: handleIngest_def resolve_of_def body_of_def)
          then show ?thesis using that(2) Pair Inr Some False by auto
        qed
      qed
    qed
  qed
  then show ?thesis using that by cases blast+
qed

lemma store_request_cases:
  assumes "store_request e u q st = (rs, st')"
  obtains (no_machine) "iq_MachineID q = []" "rs_Status rs = 400" "st' = st"
  | (failed) "rs_Status rs = 500" "st' = st"
  | (half) n ut err et where "iq_MachineID q \<noteq> []" "rs_Status rs = 500" "st' = st\<lparr>sv_Usage := ut\<rparr>"
      "Insert (en_pg e) (en_usageUp e) (iq_MachineID q) u (iq_Records q) (sv_Usage st) = (Inr n, ut)"
      "InsertEdits (en_pg e) (en_editsUp e) (iq_MachineID q) u (iq_Edits q) (sv_Edits st) = (Inl err, et)"
  | (stored) n ut m et where "iq_MachineID q \<noteq> []" "rs = http_ok (IngestBody \<lparr>ip_Accepted = fst n, ip_Duplicates = snd n,
        ip_EditsAccepted = fst m, ip_EditsDuplicates = snd m\<rparr>)"
      "st' = st\<lparr>sv_Usage := ut, sv_Edits := et\<rparr>"
      "Insert (en_pg e) (en_usageUp e) (iq_MachineID q) u (iq_Records q) (sv_Usage st) = (Inr n, ut)"
      "InsertEdits (en_pg e) (en_editsUp e) (iq_MachineID q) u (iq_Edits q) (sv_Edits st) = (Inr m, et)"
proof -
  obtain a ut where Pair: "Insert (en_pg e) (en_usageUp e) (iq_MachineID q) u (iq_Records q) (sv_Usage st) = (a, ut)"
    by (meson surj_pair)
  obtain b et where e: "InsertEdits (en_pg e) (en_editsUp e) (iq_MachineID q) u (iq_Edits q) (sv_Edits st) = (b, et)"
    by (meson surj_pair)
  show ?thesis
  proof (cases "iq_MachineID q = []")
    case True
    with assms show ?thesis by (intro no_machine) (auto simp: store_request_def http_error_def)
  next
    case False
    show ?thesis
    proof (cases a)
      case (Inl x)
      with assms Pair False show ?thesis by (intro failed) (auto simp: store_request_def http_error_def)
    next
      case (Inr n)
      show ?thesis
      proof (cases b)
        case (Inl y)
        with assms Pair Inr False e show ?thesis
          by (intro half [where n = n and ut = ut and err = y and et = et]) (auto simp: store_request_def http_error_def split: prod.splits)
      next
        case b: (Inr m)
        with assms Pair Inr False e show ?thesis
          by (intro stored [where n = n and m = m and ut = ut and et = et]) (auto simp: store_request_def http_ok_def split: prod.splits)
      qed
    qed
  qed
qed

section \<open>Properties\<close>

definition server_inv :: "server_state \<Rightarrow> bool" where
  "server_inv st \<longleftrightarrow> auth_inv (sv_Auth st) \<and> usage_consistent (sv_Usage st) \<and> edit_consistent (sv_Edits st) \<and>
     prices_inv (sv_Prices st)"

lemma auth_inv_resolve_of: "auth_inv (sv_Auth st) \<Longrightarrow> auth_inv (snd (resolve_of e r st))"
  by (simp add: resolve_of_def auth_inv_Resolve)

lemma store_request_inv:
  assumes "server_inv st" "store_request e u q st = (rs, st')"
  shows "server_inv st'"
  using assms(2)
proof (cases rule: store_request_cases)
  case (half n ut err et)
  with assms(1) Insert_consistent [of _ _ _ _ _ "sv_Usage st"] show ?thesis by (auto simp: server_inv_def)
next
  case (stored n ut m et)
  with assms(1) Insert_consistent [of _ _ _ _ _ "sv_Usage st"] InsertEdits_consistent [of _ _ _ _ _ "sv_Edits st"]
  show ?thesis by (auto simp: server_inv_def)
qed (use assms(1) in auto)

text \<open>
  C18. An acknowledged batch is stored: when ingest answers 200, the key resolved to a user, the
  body decoded to a request naming a machine, and every record with a message id and every
  edit with an event id of it has its row in the detail tables.
\<close>

theorem ingest_ack_durable:
  assumes "handleIngest e r st = (rs, st')" "rs_Status rs = 200"
  shows "\<exists>u q. fst (resolve_of e r st) = Inr u \<and> body_of r = Some q \<and> iq_MachineID q \<noteq> [] \<and>
    (\<forall>x \<in> set (iq_Records q). \<forall>y. usage_texts (en_pg e) x = Some y \<longrightarrow> ur_MessageID y \<noteq> [] \<longrightarrow>
       map_of (fst (sv_Usage st')) (ur_MessageID y, ur_RequestID y) \<noteq> None) \<and>
    (\<forall>x \<in> set (iq_Edits q). \<forall>y. edit_texts (en_pg e) x = Some y \<longrightarrow> er_EventID y \<noteq> [] \<longrightarrow>
       map_of (fst (sv_Edits st')) (er_EventID y) \<noteq> None)"
  using assms(1)
proof (cases rule: handleIngest_cases)
  case refused
  with assms(2) show ?thesis by simp
next
  case (processed u auth' q)
  from processed(4) show ?thesis
  proof (cases rule: store_request_cases)
    case (stored n ut m et)
    from Insert_durable [OF stored(4)] InsertEdits_durable [OF stored(5)] processed stored(1,3) show ?thesis
      by (intro exI [of _ u] exI [of _ q]) auto
  qed (use assms(2) in auto)
qed

text \<open>
  C20. Rows belong to the owner of the key: a row that a request adds, usage or edit, carries the
  user of a stored, unrevoked key with the hash of the presented one, whatever the body says;
  a request without such a key adds no row.
\<close>

theorem ingest_rows_owned:
  assumes "handleIngest e r st = (rs, st')"
    and "(k, row) \<in> set (fst (sv_Usage st')) - set (fst (sv_Usage st)) \<and> u = ud_user_id row \<or>
         (k', row') \<in> set (fst (sv_Edits st')) - set (fst (sv_Edits st)) \<and> u = ed_user_id row'"
  shows "\<exists>key \<in> set (au_keys (sv_Auth st)). k_Hash key = hashKey (extractBearer (rq_Authorization r)) \<and>
    k_RevokedAt key = None \<and> pg_arg (en_pg e) (k_UserID key) = Some u"
  using assms(1)
proof (cases rule: handleIngest_cases)
  case refused
  with assms(2) show ?thesis by auto
next
  case (processed v auth' q)
  have "pg_arg (en_pg e) v = Some u"
    using processed(4)
  proof (cases rule: store_request_cases)
    case (half n ut err et)
    with assms(2) Insert_owner [OF half(4), of k row] show ?thesis by auto
  next
    case (stored n ut m et)
    with assms(2) Insert_owner [OF stored(4), of k row] InsertEdits_owner [OF stored(5), of k' row'] show ?thesis by auto
  qed (use assms(2) in auto)
  with Resolve_Inr(1) [OF processed(1) [unfolded resolve_of_def]] show ?thesis by auto
qed

text \<open>The tables a request leaves do not depend on what resolving the key wrote.\<close>

lemma store_request_auth:
  assumes "sv_Usage st1 = sv_Usage st2" "sv_Edits st1 = sv_Edits st2"
  shows "fst (store_request e u q st1) = fst (store_request e u q st2)"
    "sv_Usage (snd (store_request e u q st1)) = sv_Usage (snd (store_request e u q st2))"
    "sv_Edits (snd (store_request e u q st1)) = sv_Edits (snd (store_request e u q st2))"
  using assms by (auto simp: store_request_def http_error_def http_ok_def Let_def split: sum.splits prod.splits)

lemma find_map_same:
  assumes "\<And>x. P (f x) = P x"
  shows "find P (map f xs) = map_option f (find P xs)"
  using assms by (induction xs) auto

lemma resolve_again:
  "fst (ResolveAPIKey up now raw (snd (ResolveAPIKey up' now' raw st))) = fst (ResolveAPIKey up now raw st)"
proof -
  let ?hit = "\<lambda>k. k_Hash k = hashKey raw \<and> k_RevokedAt k = None"
  let ?f = "\<lambda>k. if ?hit k then k\<lparr>k_LastUsedAt := Some now'\<rparr> else k"
  have "find ?hit (map ?f (au_keys st)) = map_option ?f (find ?hit (au_keys st))"
    by (rule find_map_same) simp
  then show ?thesis
    by (auto simp: ResolveAPIKey_def Let_def split: option.split)
qed

lemma Insert_same:
  assumes "Insert p up m u recs tabs = (Inr n, ut)" "Insert p up' m u recs tabs = (Inr n', ut')"
  shows "ut' = ut"
  using assms by (auto simp: Insert_def split: if_splits option.splits)

lemma InsertEdits_same:
  assumes "InsertEdits p up m u recs tabs = (Inr n, ut)" "InsertEdits p up' m u recs tabs = (Inr n', ut')"
  shows "ut' = ut"
  using assms by (auto simp: InsertEdits_def split: if_splits option.splits)

lemma Insert_repeat:
  assumes "Insert p up m u recs tabs = (Inr n, ut)"
  shows "\<exists>n'. Insert p up m u recs ut = (Inr n', ut)"
proof (cases "recs = []")
  case False
  with assms have "up" by (auto simp: Insert_def split: if_splits)
  with Insert_again [of p up m u recs tabs "fst n" "snd n"] assms show ?thesis by auto
qed (simp add: Insert_def)

lemma InsertEdits_repeat:
  assumes "InsertEdits p up m u recs tabs = (Inr n, ut)"
  shows "\<exists>n'. InsertEdits p up m u recs ut = (Inr n', ut)"
proof (cases "recs = []")
  case False
  with assms have "up" by (auto simp: InsertEdits_def split: if_splits)
  with InsertEdits_again [of p up m u recs tabs "fst n" "snd n"] assms show ?thesis by auto
qed (simp add: InsertEdits_def)

lemma Insert_after:
  assumes "Insert p up m u recs tabs = (Inr n, ut)" "tabs' = tabs \<or> tabs' = ut"
  shows "\<exists>n'. Insert p up m u recs tabs' = (Inr n', ut)"
  using assms Insert_repeat by blast

lemma InsertEdits_after:
  assumes "InsertEdits p up m u recs tabs = (Inr n, ut)" "tabs' = tabs \<or> tabs' = ut"
  shows "\<exists>n'. InsertEdits p up m u recs tabs' = (Inr n', ut)"
  using assms InsertEdits_repeat by blast

text \<open>What an acknowledged request did, and what an earlier attempt at it may have done already.\<close>

lemma handleIngest_ok:
  assumes "handleIngest e r st = (rs, st2)" "rs_Status rs = 200"
  obtains u auth' q n ut m et where "resolve_of e r st = (Inr u, auth')" "body_of r = Some q" "rq_Method r = ''POST''"
    "extractBearer (rq_Authorization r) \<noteq> []" "iq_MachineID q \<noteq> []"
    "st2 = st\<lparr>sv_Auth := auth', sv_Usage := ut, sv_Edits := et\<rparr>"
    "Insert (en_pg e) (en_usageUp e) (iq_MachineID q) u (iq_Records q) (sv_Usage st) = (Inr n, ut)"
    "InsertEdits (en_pg e) (en_editsUp e) (iq_MachineID q) u (iq_Edits q) (sv_Edits st) = (Inr m, et)"
proof -
  from assms obtain u auth' q where u: "resolve_of e r st = (Inr u, auth')" "body_of r = Some q" "rq_Method r = ''POST''"
    "store_request e u q (st\<lparr>sv_Auth := auth'\<rparr>) = (rs, st2)"
    by (cases rule: handleIngest_cases) auto
  have b: "extractBearer (rq_Authorization r) \<noteq> []"
    using assms by (auto simp: handleIngest_def http_error_def split: if_splits)
  from u(4) assms(2) obtain n ut m et where s: "iq_MachineID q \<noteq> []"
    "st2 = st\<lparr>sv_Auth := auth', sv_Usage := ut, sv_Edits := et\<rparr>"
    "Insert (en_pg e) (en_usageUp e) (iq_MachineID q) u (iq_Records q) (sv_Usage st) = (Inr n, ut)"
    "InsertEdits (en_pg e) (en_editsUp e) (iq_MachineID q) u (iq_Edits q) (sv_Edits st) = (Inr m, et)"
    by (cases rule: store_request_cases) auto
  show thesis by (rule that [OF u(1-3) b s])
qed

lemma earlier_attempt:
  assumes "handleIngest e1 r st = (rs1, st1)" "en_pg e1 = en_pg e"
    and "resolve_of e r st = (Inr u, auth')" "body_of r = Some q"
    and usage: "Insert (en_pg e) up (iq_MachineID q) u (iq_Records q) (sv_Usage st) = (Inr n, ut)"
    and edits: "InsertEdits (en_pg e) up' (iq_MachineID q) u (iq_Edits q) (sv_Edits st) = (Inr m, et)"
  shows "(sv_Usage st1 = sv_Usage st \<or> sv_Usage st1 = ut) \<and> (sv_Edits st1 = sv_Edits st \<or> sv_Edits st1 = et) \<and>
    (sv_Auth st1 = sv_Auth st \<or> sv_Auth st1 = snd (resolve_of e1 r st))"
  using assms(1)
proof (cases rule: handleIngest_cases)
  case (processed u' a' q')
  have "u' = u" using processed(1) assms(3) by (auto simp: resolve_of_def ResolveAPIKey_def Let_def split: if_splits option.splits)
  moreover have "q' = q" using processed(2) assms(4) by simp
  ultimately have "store_request e1 u q (st\<lparr>sv_Auth := a'\<rparr>) = (rs1, st1)" using processed(4) by simp
  then show ?thesis
  proof (cases rule: store_request_cases)
    case (half n' ut' err et')
    with Insert_same [OF usage] processed(1) assms(2) show ?thesis by auto
  next
    case (stored n' ut' m' et')
    with Insert_same [OF usage] InsertEdits_same [OF edits] processed(1) assms(2) show ?thesis by auto
  qed (use processed(1) in auto)
qed blast

text \<open>
  C19. Retrying converges: a request that the server answers with 200 leaves the same tables, and
  is answered with 200, after any first attempt at it, one that failed before, between or
  after its two statements included.
\<close>

theorem ingest_retry_converges:
  assumes "en_pg e1 = en_pg e" and "rs_Status (fst (handleIngest e r st)) = 200"
  shows "rs_Status (fst (handleIngest e r (snd (handleIngest e1 r st)))) = 200 \<and>
    sv_Usage (snd (handleIngest e r (snd (handleIngest e1 r st)))) = sv_Usage (snd (handleIngest e r st)) \<and>
    sv_Edits (snd (handleIngest e r (snd (handleIngest e1 r st)))) = sv_Edits (snd (handleIngest e r st))"
proof -
  obtain rs st2 where ok: "handleIngest e r st = (rs, st2)" "rs_Status rs = 200"
    using assms(2) by (cases "handleIngest e r st") auto
  obtain u auth' q n ut m et where u: "resolve_of e r st = (Inr u, auth')" "body_of r = Some q" "rq_Method r = ''POST''"
    and bearer: "extractBearer (rq_Authorization r) \<noteq> []"
    and s: "iq_MachineID q \<noteq> []" "st2 = st\<lparr>sv_Auth := auth', sv_Usage := ut, sv_Edits := et\<rparr>"
    "Insert (en_pg e) (en_usageUp e) (iq_MachineID q) u (iq_Records q) (sv_Usage st) = (Inr n, ut)"
    "InsertEdits (en_pg e) (en_editsUp e) (iq_MachineID q) u (iq_Edits q) (sv_Edits st) = (Inr m, et)"
    by (rule handleIngest_ok [OF ok])
  obtain rs1 st1 where h1: "handleIngest e1 r st = (rs1, st1)" by force
  note st1 = earlier_attempt [OF h1 assms(1) u(1,2) s(3,4)]
  have "fst (resolve_of e r st1) = Inr u"
    using st1 u(1) resolve_again [of "en_authUp e" "en_now e" "extractBearer (rq_Authorization r)" "en_authUp e1" "en_now e1" "sv_Auth st"]
    by (auto simp: resolve_of_def)
  then obtain auth2 where a2: "resolve_of e r st1 = (Inr u, auth2)" by (metis prod.collapse)
  obtain n2 where i2: "Insert (en_pg e) (en_usageUp e) (iq_MachineID q) u (iq_Records q) (sv_Usage st1) = (Inr n2, ut)"
    using Insert_after [OF s(3)] st1 by blast
  obtain m2 where e2: "InsertEdits (en_pg e) (en_editsUp e) (iq_MachineID q) u (iq_Edits q) (sv_Edits st1) = (Inr m2, et)"
    using InsertEdits_after [OF s(4)] st1 by blast
  have "handleIngest e r st1 = store_request e u q (st1\<lparr>sv_Auth := auth2\<rparr>)"
    using a2 u(2,3) bearer by (simp add: handleIngest_def resolve_of_def body_of_def)
  also have "\<dots> = (http_ok (IngestBody \<lparr>ip_Accepted = fst n2, ip_Duplicates = snd n2, ip_EditsAccepted = fst m2,
      ip_EditsDuplicates = snd m2\<rparr>), st1\<lparr>sv_Auth := auth2, sv_Usage := ut, sv_Edits := et\<rparr>)"
    using s(1) i2 e2 by (simp add: store_request_def case_prod_unfold)
  finally show ?thesis using ok s(2) h1 by (simp add: http_ok_def)
qed

lemma itoa_shape: "\<forall>i < length (itoa n). 0 < i \<longrightarrow> is_digit (itoa n ! i)"
proof -
  have "\<forall>c \<in> set (nat_str m). is_digit c" for m by (rule nat_str_digits)
  then have "is_digit (nat_str m ! i)" if "i < length (nat_str m)" for m i using that nth_mem by blast
  then show ?thesis by (auto simp: itoa_def nth_Cons split: nat.split)
qed

lemma parse_rfc3339_itoa: "parse_rfc3339 (itoa n) = None"
proof (cases "length (itoa n) < 19")
  case False
  then have "is_digit (itoa n ! 4)" using itoa_shape [of n, rule_format, of 4] by simp
  then have "itoa n ! 4 \<noteq> CHR ''-''" by (auto simp: is_digit_def)
  then show ?thesis by (auto simp: parse_rfc3339_def split: option.split)
qed (simp add: parse_rfc3339_def)

lemma parse_int10_itoa:
  assumes "in_i64 n"
  shows "parse_int10 (itoa n) = Some n"
proof -
  obtain c cs where c: "itoa n = c # cs" using nat_str_ne by (cases "itoa n") (auto simp: itoa_def split: if_splits)
  have "c \<noteq> CHR ''+''"
  proof (cases "n < 0")
    case False
    then have "nat_str (nat n) = c # cs" using c by (simp add: itoa_def)
    then have "is_digit c" using nat_str_digits [of "nat n"] by simp
    then show ?thesis by (auto simp: is_digit_def)
  qed (use c in \<open>auto simp: itoa_def\<close>)
  with c parse_int64_itoa [OF assms] show ?thesis by (simp add: parse_int10_def)
qed

text \<open>
  The time parameters of the dashboard: an instant printed in RFC 3339 with nanoseconds reads
  back exactly, a count of seconds reads as that Unix time, and a text that is neither stands
  for no bound.
\<close>

lemma parseTime_forms:
  "(year_ok t \<longrightarrow> parseTime (fmt_rfc3339nano t) = t) \<and>
   (in_i64 n \<and> in_i64 (n + 62135596800) \<longrightarrow> parseTime (itoa n) = n * 1000000000) \<and>
   (parse_rfc3339 s = None \<and> parse_int10 s = None \<longrightarrow> is_zero (parseTime s))"
proof -
  have "fmt_rfc3339nano t \<noteq> []" by (simp add: fmt_rfc3339nano_def)
  moreover have "itoa n \<noteq> []" using nat_str_ne by (simp add: itoa_def)
  ultimately show ?thesis
    using parse_fmt_nano [of t] parse_rfc3339_itoa [of n] parse_int10_itoa [of n] i64_id [of "n + 62135596800"]
    by (auto simp: parseTime_def time_unix_def is_zero_def)
qed

lemma i64_mod: "i64 x mod 2 ^ 64 = x mod 2 ^ 64"
proof -
  have "i64 x mod 2 ^ 64 = (x + 2 ^ 63 - 2 ^ 63) mod 2 ^ 64"
    unfolding i64_def by (rule mod_diff_left_eq)
  then show ?thesis by simp
qed

lemma i64_add: "i64 (i64 x + y) = i64 (x + y)"
  by (rule i64_cong) (rule mod_add_cong [OF i64_mod refl])

lemma i64_sum: "i64 (\<Sum>x\<leftarrow>xs. i64 (f x)) = i64 (\<Sum>x\<leftarrow>xs. f x)"
proof (induction xs)
  case (Cons x xs)
  have "i64 (i64 (f x) + (\<Sum>x\<leftarrow>xs. i64 (f x))) = i64 (i64 (\<Sum>x\<leftarrow>xs. i64 (f x)) + f x)"
    unfolding i64_add by (simp only: add.commute)
  also have "\<dots> = i64 (f x + (\<Sum>x\<leftarrow>xs. f x))"
    unfolding Cons.IH i64_add by (simp only: add.commute)
  finally show ?case by simp
qed simp

text \<open>
  C33. The dashboard's views agree: for one user and range, the totals of the summary and the
  tokens of the activity view add up, as 64-bit integers, to the tokens of the stored messages
  of those days, and the activity view counts each of those messages once.
\<close>

theorem dashboards_agree:
  assumes "server_inv st"
    and "handleSummary e pricer r st = http_ok (SummaryBody rows)"
    and "handleActivity e r st = http_ok (ActivityBody days)"
  shows "let q = query_get (rq_RawQuery r);
             ms = filter (row_ok (q ''user'') (parseTime (q ''from'')) (parseTime (q ''to''))) (fst (sv_Usage st))
         in i64 (\<Sum>x\<leftarrow>rows. sm_Total x) = i64 (\<Sum>x\<leftarrow>ms. row_tokens (snd x)) \<and>
            (\<Sum>x\<leftarrow>days. ar_Tokens x) = (\<Sum>x\<leftarrow>ms. row_tokens (snd x)) \<and>
            (\<Sum>x\<leftarrow>days. ar_Messages x) = int (length ms)"
proof -
  define q where "q = query_get (rq_RawQuery r)"
  obtain detail daily where t: "sv_Usage st = (detail, daily)" by force
  have inv: "usage_consistent (detail, daily)" using assms(1) t by (simp add: server_inv_def)
  obtain aggs where agg: "Aggregate (en_queryUp e) (en_midnight e) (sv_Prices st) (q ''user'') (parseTime (q ''from''))
      (parseTime (q ''to'')) daily = Inr aggs" and rows: "rows = map (summary_row pricer) aggs"
    using assms(2) t by (auto simp: handleSummary_def read_handler_def http_ok_def http_error_def Let_def q_def
        split: if_splits sum.splits)
  obtain acts where act: "ActivityAggregate (en_queryUp e) (q ''user'') (parseTime (q ''from''))
      (parseTime (q ''to'')) daily = Inr acts"
    and days: "days = map (\<lambda>(day, t, n). \<lparr>ar_Day = fmt_day day, ar_Tokens = t, ar_Messages = n\<rparr>) acts"
    using assms(3) t by (auto simp: handleActivity_def read_handler_def http_ok_def http_error_def Let_def q_def
        split: if_splits sum.splits)
  have "(\<Sum>x\<leftarrow>rows. sm_Total x) = (\<Sum>x\<leftarrow>aggs. i64 (sum_tokens (ag_Sum x)))"
    by (simp add: rows comp_def summary_row_def Let_def sum_tokens_def)
  then have "i64 (\<Sum>x\<leftarrow>rows. sm_Total x) = i64 (\<Sum>x\<leftarrow>aggs. sum_tokens (ag_Sum x))" by (simp add: i64_sum)
  moreover have "(\<Sum>x\<leftarrow>aggs. sum_tokens (ag_Sum x)) =
      (\<Sum>x\<leftarrow>filter (row_ok (q ''user'') (parseTime (q ''from'')) (parseTime (q ''to''))) detail. row_tokens (snd x))"
    using agg_total [OF inv agg] .
  moreover have "(\<Sum>x\<leftarrow>days. ar_Tokens x) = (\<Sum>x\<leftarrow>acts. fst (snd x))" "(\<Sum>x\<leftarrow>days. ar_Messages x) = (\<Sum>x\<leftarrow>acts. snd (snd x))"
    by (simp_all add: days comp_def case_prod_unfold)
  ultimately show ?thesis
    using activity_sums [OF inv act] t by (simp add: q_def Let_def)
qed

section \<open>Samples\<close>

definition sample_server :: server_state where
  "sample_server = \<lparr>sv_Auth = snd (CreateAPIKey plain_pg True 2 (Some (replicate 24 7)) ''ann'' [] sample_auth),
     sv_Usage = ([], []), sv_Edits = ([], []), sv_Prices = []\<rparr>"

definition sample_env :: "bool \<Rightarrow> bool \<Rightarrow> req_env" where
  "sample_env usageUp editsUp = \<lparr>en_pg = plain_pg, en_now = 3, en_authUp = True, en_usageUp = usageUp,
     en_editsUp = editsUp, en_queryUp = True, en_midnight = (\<lambda>d. d * day_ns), en_zones = (\<lambda>_. None)\<rparr>"

definition sample_batch :: ingest_request where
  "sample_batch = sample_request\<lparr>iq_Edits := [sample_edit ''e'']\<rparr>"

definition sample_http :: http_request where
  "sample_http = \<lparr>rq_Method = ''POST'', rq_Path = ''/ingest'', rq_RawQuery = [],
     rq_Authorization = ''Bearer '' @ sample_raw, rq_Body = the (marshal_request sample_batch), rq_BodyClean = True\<rparr>"

definition sample_get :: "string \<Rightarrow> http_request" where
  "sample_get path = \<lparr>rq_Method = ''GET'', rq_Path = path, rq_RawQuery = ''user=ann&from='', rq_Authorization = [],
     rq_Body = [], rq_BodyClean = True\<rparr>"

lemma sample_server_inv: "server_inv sample_server"
proof -
  have "auth_inv sample_auth" by (simp add: sample_auth_def auth_inv_def)
  from auth_inv_CreateAPIKey [OF this] show ?thesis
    by (simp add: server_inv_def sample_server_def rolled_up_def group_rows_def prices_inv_def)
qed

lemma sample_bearer: "extractBearer (rq_Authorization sample_http) = sample_raw"
  unfolding sample_http_def sample_raw_eq by code_simp

lemma sample_body: "body_of sample_http = Some sample_batch"
proof -
  have m: "marshal_request sample_batch = Some (the (marshal_request sample_batch))"
    and len: "length (the (marshal_request sample_batch)) \<le> 400"
    and i: "request_i64 sample_batch" "valid_request sample_batch = sample_batch"
    by code_simp+
  from decode_marshal [OF m i(1), of "[]" True] i(2)
  have "decode_request (the (marshal_request sample_batch)) True = Some sample_batch" by simp
  with len show ?thesis by (simp add: body_of_def sample_http_def max_body_def)
qed

lemma sample_resolves:
  obtains auth' where "resolve_of (sample_env a b) sample_http sample_server = (Inr ''ann'', auth')"
    "ResolveAPIKey True 3 sample_raw (sv_Auth sample_server) = (Inr ''ann'', auth')"
proof -
  have inv: "auth_inv (sv_Auth sample_server)" using sample_server_inv by (simp add: server_inv_def)
  have arg: "pg_arg plain_pg ''ann'' = Some ''ann''" by (simp add: plain_pg_def)
  have "fst (ResolveAPIKey True 3 sample_raw (sv_Auth sample_server)) = Inr ''ann''"
    using resolve_live [OF inv] created_row [OF sample_mint arg] by (simp add: sample_mint sample_server_def)
  then obtain auth' where r: "ResolveAPIKey True 3 sample_raw (sv_Auth sample_server) = (Inr ''ann'', auth')"
    by (metis prod.collapse)
  moreover have "resolve_of (sample_env a b) sample_http sample_server = (Inr ''ann'', auth')"
    unfolding resolve_of_def sample_bearer using r by (simp add: sample_env_def)
  ultimately show ?thesis using that by blast
qed

lemma sample_ingest:
  "handleIngest (sample_env a b) sample_http sample_server =
     store_request (sample_env a b) ''ann'' sample_batch
       (sample_server\<lparr>sv_Auth := snd (ResolveAPIKey True 3 sample_raw (sv_Auth sample_server))\<rparr>)"
proof -
  obtain auth' where r: "resolve_of (sample_env a b) sample_http sample_server = (Inr ''ann'', auth')"
    "ResolveAPIKey True 3 sample_raw (sv_Auth sample_server) = (Inr ''ann'', auth')"
    by (rule sample_resolves)
  have "sample_raw \<noteq> []" "rq_Method sample_http = ''POST''" by (simp_all add: sample_raw_eq sample_http_def)
  then show ?thesis
    using r(1) [unfolded resolve_of_def sample_bearer]
    by (simp add: handleIngest_def sample_bearer sample_body [unfolded body_of_def] r(2))
qed

lemma sample_stored:
  "fst (handleIngest (sample_env True True) sample_http sample_server) =
     http_ok (IngestBody \<lparr>ip_Accepted = 1, ip_Duplicates = 0, ip_EditsAccepted = 1, ip_EditsDuplicates = 0\<rparr>)"
proof -
  have "fst (Insert plain_pg True ''box'' ''ann'' (iq_Records sample_batch) ([], [])) = Inr (1, 0)"
    "fst (InsertEdits plain_pg True ''box'' ''ann'' (iq_Edits sample_batch) ([], [])) = Inr (1, 0)"
    by code_simp+
  then obtain ut et where i: "Insert plain_pg True ''box'' ''ann'' (iq_Records sample_batch) ([], []) = (Inr (1, 0), ut)"
    "InsertEdits plain_pg True ''box'' ''ann'' (iq_Edits sample_batch) ([], []) = (Inr (1, 0), et)"
    by (metis prod.collapse)
  have m: "iq_MachineID sample_batch = ''box''" by (simp add: sample_batch_def sample_request_def)
  show ?thesis
    unfolding sample_ingest store_request_def m by (simp add: sample_env_def sample_server_def i)
qed

theorem ingest_ack_durable_witness:
  "map_of (fst (sv_Usage (snd (handleIngest (sample_env True True) sample_http sample_server)))) (''m<1>'', []) \<noteq> None"
proof -
  let ?h = "handleIngest (sample_env True True) sample_http sample_server"
  have "rs_Status (fst ?h) = 200" by (simp add: sample_stored http_ok_def)
  with ingest_ack_durable [of "sample_env True True" sample_http sample_server "fst ?h" "snd ?h"]
  obtain q where q: "body_of sample_http = Some q" "\<forall>x \<in> set (iq_Records q). \<forall>y. usage_texts plain_pg x = Some y \<longrightarrow>
      ur_MessageID y \<noteq> [] \<longrightarrow> map_of (fst (sv_Usage (snd ?h))) (ur_MessageID y, ur_RequestID y) \<noteq> None"
    by (auto simp: sample_env_def)
  let ?x = "hd (iq_Records sample_batch)"
  have "usage_texts plain_pg ?x = Some ?x" by (simp add: usage_texts_def plain_pg_def)
  moreover have "?x \<in> set (iq_Records sample_batch)" "ur_MessageID ?x = ''m<1>''" "ur_RequestID ?x = []"
    by (simp_all add: sample_batch_def sample_request_def)
  ultimately show ?thesis using q(2) sample_body q(1) by fastforce
qed

theorem ingest_retry_converges_witness:
  "sv_Edits (snd (handleIngest (sample_env True True) sample_http
      (snd (handleIngest (sample_env True False) sample_http sample_server)))) =
   sv_Edits (snd (handleIngest (sample_env True True) sample_http sample_server))"
proof -
  have "rs_Status (fst (handleIngest (sample_env True True) sample_http sample_server)) = 200"
    by (simp add: sample_stored http_ok_def)
  moreover have "en_pg (sample_env True False) = en_pg (sample_env True True)" by (simp add: sample_env_def)
  ultimately show ?thesis using ingest_retry_converges by blast
qed

theorem ingest_rows_owned_witness:
  "\<exists>key \<in> set (au_keys (sv_Auth sample_server)). k_Hash key = hashKey sample_raw \<and> k_RevokedAt key = None \<and>
     pg_arg plain_pg (k_UserID key) = Some ''ann''"
proof -
  let ?h = "handleIngest (sample_env True False) sample_http sample_server"
  let ?i = "Insert plain_pg True ''box'' ''ann'' (iq_Records sample_batch) ([], [])"
  have "fst ?i = Inr (1, 0)" "map (\<lambda>x. (fst x, ud_user_id (snd x))) (fst (snd ?i)) = [((''m<1>'', []), ''ann'')]"
    by code_simp+
  then obtain row ut where i: "?i = (Inr (1, 0), ut)" "((''m<1>'', []), row) \<in> set (fst ut)" "ud_user_id row = ''ann''"
    by (cases ?i) auto
  have "fst (InsertEdits plain_pg False ''box'' ''ann'' (iq_Edits sample_batch) ([], [])) = Inl DbDown" by code_simp
  then obtain et where e: "InsertEdits plain_pg False ''box'' ''ann'' (iq_Edits sample_batch) ([], []) = (Inl DbDown, et)"
    by (metis prod.collapse)
  have m: "iq_MachineID sample_batch = ''box''" by (simp add: sample_batch_def sample_request_def)
  have "sv_Usage (snd ?h) = ut"
    unfolding sample_ingest store_request_def m by (simp add: sample_env_def sample_server_def i e)
  with i(2,3) have "((''m<1>'', []), row) \<in> set (fst (sv_Usage (snd ?h))) - set (fst (sv_Usage sample_server)) \<and>
      ''ann'' = ud_user_id row" by (simp add: sample_server_def)
  with ingest_rows_owned [of "sample_env True False" sample_http sample_server "fst ?h" "snd ?h" "(''m<1>'', [])" row "''ann''"]
  show ?thesis by (auto simp: sample_bearer sample_env_def)
qed

definition sample_server2 :: server_state where
  "sample_server2 = \<lparr>sv_Auth = sample_auth,
     sv_Usage = snd (Insert plain_pg True ''box'' ''ann'' (iq_Records sample_batch) ([], [])),
     sv_Edits = ([], []), sv_Prices = []\<rparr>"

theorem dashboards_agree_witness:
  "(\<Sum>x\<leftarrow>[\<lparr>ar_Day = ''2026-07-01'', ar_Tokens = 16, ar_Messages = 1\<rparr>]. ar_Tokens x) =
   (\<Sum>x\<leftarrow>filter (row_ok ''ann'' zero_time zero_time) (fst (sv_Usage sample_server2)). row_tokens (snd x))"
proof -
  have "auth_inv sample_auth" by (simp add: sample_auth_def auth_inv_def)
  moreover have "usage_consistent ([], [])" by (simp add: rolled_up_def group_rows_def)
  then have "usage_consistent (snd (Insert plain_pg True ''box'' ''ann'' (iq_Records sample_batch) ([], [])))"
    using Insert_consistent by (metis surjective_pairing)
  ultimately have inv: "server_inv sample_server2"
    by (simp add: server_inv_def sample_server2_def rolled_up_def group_rows_def prices_inv_def)
  have q: "query_get (rq_RawQuery (sample_get ''/summary'')) ''user'' = ''ann''"
    "parseTime (query_get (rq_RawQuery (sample_get ''/summary'')) ''from'') = zero_time"
    "parseTime (query_get (rq_RawQuery (sample_get ''/summary'')) ''to'') = zero_time"
    by code_simp+
  have get: "rq_Method (sample_get ''/summary'') = ''GET''" by (simp add: sample_get_def)
  have up: "en_queryUp (sample_env True True) = True" by (simp add: sample_env_def)
  have day: "fmt_day 20635 = ''2026-07-01''" by code_simp
  have act: "ActivityAggregate True ''ann'' zero_time zero_time (snd (sv_Usage sample_server2)) = Inr [(20635, 16, 1)]"
    by code_simp
  have "isl (Aggregate True (\<lambda>d. d * day_ns) [] ''ann'' zero_time zero_time (snd (sv_Usage sample_server2))) = False"
    by code_simp
  then obtain aggs where agg: "Aggregate True (\<lambda>d. d * day_ns) [] ''ann'' zero_time zero_time
      (snd (sv_Usage sample_server2)) = Inr aggs" by (metis isl_def sum.exhaust)
  have s: "handleSummary (sample_env True True) (reindex []) (sample_get ''/summary'') sample_server2 =
      http_ok (SummaryBody (map (summary_row (reindex [])) aggs))"
    unfolding handleSummary_def Let_def q up using agg
    by (simp add: read_handler_def get sample_env_def sample_server2_def)
  have d: "handleActivity (sample_env True True) (sample_get ''/summary'') sample_server2 =
      http_ok (ActivityBody [\<lparr>ar_Day = ''2026-07-01'', ar_Tokens = 16, ar_Messages = 1\<rparr>])"
    unfolding handleActivity_def Let_def q up act by (simp add: read_handler_def get day)
  from dashboards_agree [OF inv s d] show ?thesis unfolding q Let_def by blast
qed

end
