(* ===== verification/TailScan.thy ===== *)
theory TailScan
  imports Types
begin

text \<open>
  The incremental read shared by the parsers of append-only JSONL files (the \<open>Scan\<close>
  methods of \<open>claudecode.go\<close> and \<open>pi.go\<close>, which are the same code around different
  line parsers): where to resume, the \<open>ReadBytes\<close> loop that only consumes complete
  lines, and the interface \<open>tail_source\<close> a scan of this kind fulfils. The client's
  theorem is proved once in the locale: over any number of ticks on a growing file,
  failed and unacknowledged ones included, every complete line is emitted exactly once.
\<close>

section \<open>The scan\<close>

text \<open>\<open>br.ReadBytes('\n')\<close>: up to and including the newline, or all that is left.\<close>

fun read_bytes :: "string \<Rightarrow> string \<times> string" where
  "read_bytes [] = ([], [])"
| "read_bytes (c # cs) =
     (if c = nl then ([c], cs) else (let (l, r) = read_bytes cs in (c # l, r)))"

lemma read_bytes_append: "read_bytes s = (l, r) \<Longrightarrow> l @ r = s"
  by (induction s arbitrary: l) (auto split: if_splits prod.splits)

lemma read_bytes_shorter: "(l, r) = read_bytes s \<Longrightarrow> l \<noteq> [] \<Longrightarrow> length r < length s"
  using read_bytes_append [of s l r] by auto

definition ends_line :: "string \<Rightarrow> bool" where
  "ends_line l \<longleftrightarrow> l \<noteq> [] \<and> last l = nl"

function tail_loop :: "(string \<Rightarrow> scan_result) \<Rightarrow> int \<Rightarrow> scan_result \<Rightarrow> string \<Rightarrow> scan_result \<times> int" where
  "tail_loop emit cur res s =
     (let (line, rest) = read_bytes s in
      if ends_line line
      then tail_loop emit (i64 (cur + int (length line))) (append_result res (emit line)) rest
      else (res, cur))"
  by pat_completeness auto
termination
  by (relation "measure (\<lambda>(_, _, _, s). length s)")
    (auto simp: ends_line_def dest: read_bytes_shorter)

declare tail_loop.simps [simp del]

definition resume_offset :: "file_state \<Rightarrow> int \<Rightarrow> int \<Rightarrow> int" where
  "resume_offset prev inode sz =
     (if fs_Inode prev = 0 \<and> fs_Offset prev = 0 then 0
      else if fs_Inode prev \<noteq> 0 \<and> inode \<noteq> 0 \<and> fs_Inode prev \<noteq> inode then 0
      else if sz < fs_Offset prev then 0
      else fs_Offset prev)"

definition tail_scan :: "(string \<Rightarrow> scan_result) \<Rightarrow> file_obs \<Rightarrow> file_state \<Rightarrow> scan_return" where
  "tail_scan emit ob prev =
     (case fo_stat ob of
        None \<Rightarrow> (empty_result, zero_file_state, Some StatError)
      | Some (inode, sz) \<Rightarrow>
          (let offset = resume_offset prev inode sz in
           if sz = offset then
             (empty_result, \<lparr>fs_Inode = inode, fs_Offset = offset\<rparr>, None)
           else if \<not> fo_opens ob then (empty_result, zero_file_state, Some OpenError)
           else if offset < 0 then (empty_result, zero_file_state, Some SeekError)
           else
             (let (res, cur) = tail_loop emit offset empty_result (drop (nat offset) (fo_data ob))
              in (res, \<lparr>fs_Inode = inode, fs_Offset = cur\<rparr>,
                  if fo_read_fails ob then Some ReadError else None))))"

section \<open>Complete lines\<close>

function complete_lines :: "string \<Rightarrow> string list" where
  "complete_lines s =
     (let (l, r) = read_bytes s in if ends_line l then l # complete_lines r else [])"
  by pat_completeness auto
termination
  by (relation "measure length") (auto simp: ends_line_def dest: read_bytes_shorter)

declare complete_lines.simps [simp del]

text \<open>What is left after the last newline is the partial line.\<close>

abbreviation partial_line :: "string \<Rightarrow> string" where "partial_line \<equiv> after_last nl"

lemma read_bytes_no_newline: "nl \<notin> set s \<Longrightarrow> read_bytes s = (s, [])"
  by (induction s) auto

lemma read_bytes_newline: "nl \<notin> set l \<Longrightarrow> read_bytes (l @ nl # r) = (l @ [nl], r)"
  by (induction l) auto

lemma complete_lines_no_newline: "nl \<notin> set s \<Longrightarrow> complete_lines s = []"
  by (subst complete_lines.simps) (auto simp: read_bytes_no_newline ends_line_def dest: last_in_set)

lemma complete_lines_Cons:
  "nl \<notin> set l \<Longrightarrow> complete_lines (l @ nl # r) = (l @ [nl]) # complete_lines r"
  by (subst complete_lines.simps) (simp add: read_bytes_newline ends_line_def)

lemma line_cases:
  obtains (partial) "nl \<notin> set s" | (line) l r where "s = l @ nl # r" "nl \<notin> set l"
  using split_list_first [of nl s] by blast

lemma partial_line_no_newline: "nl \<notin> set s \<Longrightarrow> partial_line s = s"
proof -
  assume "nl \<notin> set s"
  then have "takeWhile (\<lambda>x. x \<noteq> nl) (rev s) = rev s"
    by (subst takeWhile_eq_all_conv) auto
  then show ?thesis by (simp only: after_last_def rev_rev_ident)
qed

lemma partial_line_Cons: "partial_line (l @ nl # r) = partial_line r"
proof (cases "nl \<in> set r")
  case True
  then show ?thesis by (auto simp: after_last_def takeWhile_append)
next
  case False
  then show ?thesis
    by (simp add: after_last_composed partial_line_no_newline)
qed

lemma partial_line_Nil_iff: "partial_line s = [] \<longleftrightarrow> s = [] \<or> last s = nl"
  by (cases s rule: rev_cases) (simp_all add: after_last_def)

lemma partial_line_append:
  "partial_line a = [] \<Longrightarrow> partial_line b = [] \<Longrightarrow> partial_line (a @ b) = []"
  by (auto simp: partial_line_Nil_iff last_append)

lemma complete_lines_partial: "concat (complete_lines s) @ partial_line s = s"
proof (induction s rule: complete_lines.induct)
  case (1 s)
  show ?case
  proof (cases s rule: line_cases)
    case partial
    then show ?thesis by (simp add: complete_lines_no_newline partial_line_no_newline)
  next
    case (line l r)
    with 1 [of "(l @ [nl], r)" "l @ [nl]" r] show ?thesis
      by (simp add: complete_lines_Cons partial_line_Cons read_bytes_newline ends_line_def)
  qed
qed

lemma complete_lines_append:
  "partial_line a = [] \<Longrightarrow> complete_lines (a @ b) = complete_lines a @ complete_lines b"
proof (induction a rule: complete_lines.induct)
  case (1 a)
  show ?case
  proof (cases a rule: line_cases)
    case partial
    with 1(2) show ?thesis by (simp add: complete_lines_no_newline partial_line_no_newline)
  next
    case (line l r)
    with 1 show ?thesis
      by (simp add: complete_lines_Cons partial_line_Cons read_bytes_newline ends_line_def)
  qed
qed

lemma complete_lines_end: "ln \<in> set (complete_lines s) \<Longrightarrow> ends_line ln"
proof (induction s rule: complete_lines.induct)
  case (1 s)
  then show ?case
    by (cases s rule: line_cases)
      (auto simp: complete_lines_no_newline complete_lines_Cons read_bytes_newline ends_line_def)
qed

text \<open>The chunks \<open>ReadBytes\<close> returns up to the end of the file, a last partial one included.\<close>

function all_lines :: "string \<Rightarrow> string list" where
  "all_lines s = (if s = [] then [] else (let (l, r) = read_bytes s in l # all_lines r))"
  by pat_completeness auto
termination
proof (relation "measure length", goal_cases)
  case (2 s x l r)
  then have "l \<noteq> []" by (cases s) (auto split: if_splits prod.splits)
  with 2 show ?case by (auto dest: read_bytes_shorter)
qed simp

declare all_lines.simps [simp del]

lemma all_lines_Nil [simp]: "all_lines [] = []"
  by (simp add: all_lines.simps)

lemma all_lines_append:
  "partial_line a = [] \<Longrightarrow> all_lines (a @ b) = all_lines a @ all_lines b"
proof (induction a rule: all_lines.induct)
  case (1 a)
  show ?case
  proof (cases a rule: line_cases)
    case partial
    with 1(2) show ?thesis by (simp add: partial_line_no_newline)
  next
    case (line l r)
    have "all_lines (l @ nl # s) = (l @ [nl]) # all_lines s" for s
      using line(2) by (subst all_lines.simps) (simp add: read_bytes_newline)
    with 1 line show ?thesis
      by (simp add: read_bytes_newline partial_line_Cons)
  qed
qed

section \<open>What a scan returns\<close>

definition consumed :: "string \<Rightarrow> int" where
  "consumed s = int (length s) - int (length (partial_line s))"

lemma consumed_complete: "consumed s = int (length (concat (complete_lines s)))"
  using arg_cong [OF complete_lines_partial [of s], of length] by (simp add: consumed_def)

lemma tail_loop_eq:
  assumes "0 \<le> cur" "in_i64 (cur + int (length s))"
  shows "tail_loop emit cur res s =
    (append_result res (concat_results (map emit (complete_lines s))), cur + consumed s)"
  using assms
proof (induction emit cur res s rule: tail_loop.induct)
  case (1 emit cur res s)
  show ?case
  proof (cases s rule: line_cases)
    case partial
    then show ?thesis
      by (simp add: tail_loop.simps [of _ _ _ s] complete_lines_no_newline read_bytes_no_newline
          ends_line_def consumed_def partial_line_no_newline) (auto dest: last_in_set)
  next
    case (line l r)
    have cur': "i64 (cur + int (length (l @ [nl]))) = cur + int (length (l @ [nl]))"
      using 1(2,3) line by (intro i64_id) (simp add: in_i64_def i64_bounds)
    have "tail_loop emit (cur + int (length (l @ [nl]))) (append_result res (emit (l @ [nl]))) r =
        (append_result (append_result res (emit (l @ [nl])))
           (concat_results (map emit (complete_lines r))),
         cur + int (length (l @ [nl])) + consumed r)"
      using 1(1) [of "(l @ [nl], r)" "l @ [nl]" r] 1(2,3) line cur'
      by (simp add: read_bytes_newline ends_line_def algebra_simps)
    with line cur' show ?thesis
      by (simp add: tail_loop.simps [of emit cur res "l @ nl # r"] read_bytes_newline
          ends_line_def complete_lines_Cons append_result_assoc consumed_complete)
  qed
qed

text \<open>
  \<open>at_line_end d off\<close>: the first \<open>off\<close> bytes of \<open>d\<close> are complete lines. Resuming
  there reads exactly the lines that follow.
\<close>

definition at_line_end :: "string \<Rightarrow> int \<Rightarrow> bool" where
  "at_line_end d off \<longleftrightarrow>
     0 \<le> off \<and> off \<le> int (length d) \<and> partial_line (take (nat off) d) = []"

definition lines_upto :: "string \<Rightarrow> int \<Rightarrow> string list" where
  "lines_upto d off = complete_lines (take (nat off) d)"

lemma at_line_end_0 [simp]: "at_line_end d 0"
  by (simp add: at_line_end_def after_last_def)

lemma at_line_end_prefix: "prefix d d' \<Longrightarrow> at_line_end d off \<Longrightarrow> at_line_end d' off"
  by (auto simp: at_line_end_def prefix_def)

lemma lines_upto_prefix: "prefix d d' \<Longrightarrow> off \<le> int (length d) \<Longrightarrow> lines_upto d' off = lines_upto d off"
  by (auto simp: lines_upto_def prefix_def)

lemma lines_upto_0 [simp]: "lines_upto d 0 = []"
  by (simp add: lines_upto_def complete_lines_no_newline)

lemma complete_prefix: "take (nat (consumed s)) s = concat (complete_lines s)"
  using complete_lines_partial [of s] by (metis append_eq_conv_conj consumed_complete nat_int)

lemma complete_lines_concat: "complete_lines (concat (complete_lines s)) = complete_lines s"
proof (induction s rule: complete_lines.induct)
  case (1 s)
  show ?case
  proof (cases s rule: line_cases)
    case (line l r)
    with 1 [of "(l @ [nl], r)" "l @ [nl]" r] show ?thesis
      by (simp add: complete_lines_Cons read_bytes_newline ends_line_def)
  qed (simp add: complete_lines_no_newline)
qed

lemma partial_line_concat: "partial_line (concat (complete_lines s)) = []"
proof -
  have "concat (complete_lines s) @ partial_line (concat (complete_lines s)) =
      concat (complete_lines s)"
    using complete_lines_partial [of "concat (complete_lines s)"]
    by (simp add: complete_lines_concat)
  then show ?thesis by simp
qed

lemma resume_step:
  assumes "at_line_end d off"
  shows "at_line_end d (off + consumed (drop (nat off) d))"
    and "lines_upto d (off + consumed (drop (nat off) d)) =
      lines_upto d off @ complete_lines (drop (nat off) d)"
proof -
  let ?a = "take (nat off) d" and ?b = "drop (nat off) d"
  have off: "0 \<le> off" "off \<le> int (length d)" "partial_line ?a = []"
    using assms by (auto simp: at_line_end_def)
  have nonneg: "0 \<le> consumed ?b" by (simp add: consumed_complete)
  have "nat (off + consumed ?b) = nat off + nat (consumed ?b)"
    using off(1) nonneg by (rule nat_add_distrib)
  then have tk: "take (nat (off + consumed ?b)) d = ?a @ concat (complete_lines ?b)"
    by (simp add: take_add complete_prefix)
  have "consumed ?b \<le> int (length ?b)" by (simp add: consumed_def)
  moreover have "partial_line (?a @ concat (complete_lines ?b)) = []"
    using off(3) partial_line_concat [of ?b] by (rule partial_line_append)
  ultimately show "at_line_end d (off + consumed ?b)"
    using off tk nonneg by (auto simp: at_line_end_def)
  show "lines_upto d (off + consumed ?b) = lines_upto d off @ complete_lines ?b"
    by (simp add: lines_upto_def tk complete_lines_append [OF off(3)] complete_lines_concat)
qed

section \<open>Ticks on one file\<close>

text \<open>
  One tick of the watcher as far as one file is concerned: the scan runs from the saved
  state at the clock reading \<open>now\<close>; a scan that fails contributes nothing, and the
  state is only saved (and the results only count) when the upload was durable.
\<close>

record tick =
  tk_obs :: file_obs
  tk_now :: gotime
  tk_durable :: bool

fun run_ticks :: "(gotime \<Rightarrow> file_obs \<Rightarrow> file_state \<Rightarrow> scan_return) \<Rightarrow> file_state \<Rightarrow> scan_result \<Rightarrow>
    tick list \<Rightarrow> scan_result \<times> file_state" where
  "run_ticks scan st acc [] = (acc, st)"
| "run_ticks scan st acc (t # ts) =
     (case scan (tk_now t) (tk_obs t) st of
        (r, st', None) \<Rightarrow>
          if tk_durable t then run_ticks scan st' (append_result acc r) ts
          else run_ticks scan st acc ts
      | (_, _, Some _) \<Rightarrow> run_ticks scan st acc ts)"

text \<open>
  A file that is only appended to while it is watched: the same inode, each observation
  extends the bytes seen before, and its \<open>Stat\<close> reports a size between the two.
\<close>

fun growing :: "int \<Rightarrow> string \<Rightarrow> file_obs list \<Rightarrow> bool" where
  "growing ino d [] = True"
| "growing ino d (ob # obs) \<longleftrightarrow>
     prefix d (fo_data ob) \<and> in_i64 (int (length (fo_data ob))) \<and>
     (case fo_stat ob of
        None \<Rightarrow> True
      | Some (i, sz) \<Rightarrow> i = ino \<and> int (length d) \<le> sz \<and> sz \<le> int (length (fo_data ob))) \<and>
     growing ino (fo_data ob) obs"

fun final_data :: "string \<Rightarrow> file_obs list \<Rightarrow> string" where
  "final_data d [] = d"
| "final_data d (ob # obs) = final_data (fo_data ob) obs"

text \<open>\<open>r\<close> holds what the lines yield, each line once and in order, at some clock reading each.\<close>

definition emitted :: "(gotime \<Rightarrow> string \<Rightarrow> scan_result) \<Rightarrow> string list \<Rightarrow> scan_result \<Rightarrow> bool" where
  "emitted emit lns r \<longleftrightarrow>
     (\<exists>rs. list_all2 (\<lambda>ln x. \<exists>now. x = emit now ln) lns rs \<and> r = concat_results rs)"

lemma emitted_Nil [simp]: "emitted emit [] empty_result"
  by (simp add: emitted_def)

lemma emitted_append:
  "emitted emit a r \<Longrightarrow> emitted emit b s \<Longrightarrow> emitted emit (a @ b) (append_result r s)"
  unfolding emitted_def
  by (elim exE conjE, rule_tac x = "rs @ rsa" in exI) (simp add: list_all2_appendI)

lemma emitted_map: "emitted emit lns (concat_results (map (emit now) lns))"
  unfolding emitted_def by (rule exI [of _ "map (emit now) lns"]) (auto simp: list_all2_conv_all_nth)

text \<open>What does not depend on the clock can be read off the lines.\<close>

lemma emitted_usage:
  assumes "\<And>now ln. map f (sr_Usage (emit now ln)) = g ln" "emitted emit lns r"
  shows "map f (sr_Usage r) = concat (map g lns)"
proof -
  obtain rs where rs: "list_all2 (\<lambda>ln x. \<exists>now. x = emit now ln) lns rs" "r = concat_results rs"
    using assms(2) by (auto simp: emitted_def)
  from rs(1) have "map f (sr_Usage (concat_results rs)) = concat (map g lns)"
    by (induction rule: list_all2_induct) (auto simp: assms(1))
  with rs(2) show ?thesis by simp
qed

text \<open>
  The interface: \<open>saved st ino off\<close> relates a saved state to the offset it stands for
  on the file of that inode. From a line end, a scan that succeeds emits exactly the
  lines up to a later line end and saves that; when the \<open>Stat\<close> saw all the bytes, the
  later line end is the last one.
\<close>

locale tail_source =
  fixes scan :: "gotime \<Rightarrow> file_obs \<Rightarrow> file_state \<Rightarrow> scan_return"
    and emit :: "gotime \<Rightarrow> string \<Rightarrow> scan_result"
    and saved :: "file_state \<Rightarrow> int \<Rightarrow> int \<Rightarrow> bool"
  assumes saved_zero: "saved zero_file_state ino 0"
    and scan_emits: "\<lbrakk>saved st ino off; at_line_end (fo_data ob) off; off \<le> sz;
        sz \<le> int (length (fo_data ob)); in_i64 (int (length (fo_data ob)));
        fo_stat ob = Some (ino, sz); scan now ob st = (r, st', None)\<rbrakk> \<Longrightarrow>
      \<exists>off'. saved st' ino off' \<and> off \<le> off' \<and> at_line_end (fo_data ob) off' \<and>
        (\<exists>lns. lines_upto (fo_data ob) off' = lines_upto (fo_data ob) off @ lns \<and>
           r = concat_results (map (emit now) lns)) \<and>
        (sz = int (length (fo_data ob)) \<longrightarrow>
           lines_upto (fo_data ob) off' = complete_lines (fo_data ob))"
    and scan_no_stat: "fo_stat ob = None \<Longrightarrow> \<exists>e. snd (snd (scan now ob st)) = Some e"
begin

text \<open>The saved offset stays at a line end, and what was emitted is the lines before it.\<close>

lemma run_ticks_invariant:
  "\<lbrakk>growing ino d (map tk_obs ts); saved st ino off; at_line_end d off;
     emitted emit (lines_upto d off) acc; run_ticks scan st acc ts = (acc', st')\<rbrakk> \<Longrightarrow>
   \<exists>off'. saved st' ino off' \<and> at_line_end (final_data d (map tk_obs ts)) off' \<and>
     emitted emit (lines_upto (final_data d (map tk_obs ts)) off') acc'"
proof (induction ts arbitrary: d st off acc)
  case Nil
  then show ?case by auto
next
  case (Cons t ts)
  let ?ob = "tk_obs t"
  have d: "prefix d (fo_data ?ob)" "in_i64 (int (length (fo_data ?ob)))"
    "growing ino (fo_data ?ob) (map tk_obs ts)"
    using Cons.prems(1) by auto
  have off: "at_line_end (fo_data ?ob) off" "off \<le> int (length d)"
    using at_line_end_prefix [OF d(1) Cons.prems(3)] Cons.prems(3) by (auto simp: at_line_end_def)
  have em: "emitted emit (lines_upto (fo_data ?ob) off) acc"
    using Cons.prems(4) lines_upto_prefix [OF d(1) off(2)] by simp
  obtain r st1 e where sc: "scan (tk_now t) ?ob st = (r, st1, e)" by (rule prod_cases3)
  show ?case
  proof (cases "e = None \<and> tk_durable t")
    case False
    with sc Cons.prems(5) have "run_ticks scan st acc ts = (acc', st')"
      by (cases e) auto
    with Cons.IH [OF d(3) Cons.prems(2) off(1) em] show ?thesis by simp
  next
    case True
    then obtain sz where sz: "fo_stat ?ob = Some (ino, sz)" "int (length d) \<le> sz"
      "sz \<le> int (length (fo_data ?ob))"
      using scan_no_stat [of ?ob "tk_now t" st] sc Cons.prems(1)
      by (cases "fo_stat ?ob") auto
    have le: "off \<le> sz" using sz(2) off(2) by linarith
    have sc': "scan (tk_now t) ?ob st = (r, st1, None)" using sc True by simp
    from scan_emits [OF Cons.prems(2) off(1) le sz(3) d(2) sz(1) sc']
    obtain off1 lns where 1: "saved st1 ino off1" "at_line_end (fo_data ?ob) off1"
      "lines_upto (fo_data ?ob) off1 = lines_upto (fo_data ?ob) off @ lns"
      "r = concat_results (map (emit (tk_now t)) lns)"
      by blast
    have "emitted emit (lines_upto (fo_data ?ob) off1) (append_result acc r)"
      using emitted_append [OF em emitted_map] 1(3,4) by simp
    moreover have "run_ticks scan st1 (append_result acc r) ts = (acc', st')"
      using sc True Cons.prems(5) by simp
    ultimately show ?thesis
      using Cons.IH [OF d(3) 1(1,2)] by simp
  qed
qed

text \<open>From the start, and caught up after one good tick.\<close>

lemma run_ticks_exactly_once:
  assumes "growing ino [] (map tk_obs ts)"
    and "run_ticks scan zero_file_state empty_result ts = (acc, st)"
  shows "\<exists>off. saved st ino off \<and> at_line_end (final_data [] (map tk_obs ts)) off \<and>
    emitted emit (lines_upto (final_data [] (map tk_obs ts)) off) acc"
  using run_ticks_invariant [OF assms(1) saved_zero at_line_end_0 _ assms(2)] by simp

lemma run_ticks_snoc:
  "run_ticks scan st acc (ts @ [t]) =
     (let (acc', st') = run_ticks scan st acc ts in run_ticks scan st' acc' [t])"
  by (induction ts arbitrary: st acc) (auto simp: Let_def split: prod.splits option.splits)

lemma growing_snoc:
  "growing ino d (obs @ [ob]) \<longleftrightarrow> growing ino d obs \<and> growing ino (final_data d obs) [ob]"
  by (induction obs arbitrary: d) auto

lemma final_data_snoc: "final_data d (obs @ [ob]) = fo_data ob"
  by (induction obs arbitrary: d) auto

lemma run_ticks_caught_up:
  assumes grow: "growing ino [] (map tk_obs (ts @ [t]))"
    and run: "run_ticks scan zero_file_state empty_result (ts @ [t]) = (acc, st)"
    and all: "fo_stat (tk_obs t) = Some (ino, int (length (fo_data (tk_obs t))))"
    and good: "\<And>st off. \<lbrakk>saved st ino off; 0 \<le> off\<rbrakk> \<Longrightarrow>
                 snd (snd (scan (tk_now t) (tk_obs t) st)) = None" "tk_durable t"
  shows "emitted emit (complete_lines (fo_data (tk_obs t))) acc"
proof -
  let ?ob = "tk_obs t" and ?d = "final_data [] (map tk_obs ts)"
  obtain acc1 st1 where 1: "run_ticks scan zero_file_state empty_result ts = (acc1, st1)" by force
  have gr: "growing ino [] (map tk_obs ts)" "prefix ?d (fo_data ?ob)"
    "in_i64 (int (length (fo_data ?ob)))"
    using grow by (auto simp: growing_snoc)
  from run_ticks_exactly_once [OF gr(1) 1] obtain off where
    off: "saved st1 ino off" "at_line_end ?d off" "emitted emit (lines_upto ?d off) acc1" by blast
  obtain r st2 where sc: "scan (tk_now t) ?ob st1 = (r, st2, None)"
    using good(1) [OF off(1)] off(2) by (metis at_line_end_def prod.collapse)
  have le: "off \<le> int (length ?d)" using off(2) by (simp add: at_line_end_def)
  have "off \<le> int (length (fo_data ?ob))"
    using le prefix_length_le [OF gr(2)] by linarith
  from scan_emits [OF off(1) at_line_end_prefix [OF gr(2) off(2)] this order_refl gr(3) all sc]
  obtain lns where lns: "complete_lines (fo_data ?ob) = lines_upto ?d off @ lns"
    "r = concat_results (map (emit (tk_now t)) lns)"
    using lines_upto_prefix [OF gr(2) le] by metis
  have "acc = append_result acc1 r"
    using run 1 sc good(2) by (simp add: run_ticks_snoc)
  with emitted_append [OF off(3) emitted_map] lns show ?thesis by simp
qed

end

section \<open>The shared scan fulfils the interface\<close>

definition tail_saved :: "file_state \<Rightarrow> int \<Rightarrow> int \<Rightarrow> bool" where
  "tail_saved st ino off \<longleftrightarrow>
     fs_Offset st = off \<and> (fs_Inode st = ino \<or> st = zero_file_state)"

lemma resume_saved: "tail_saved st ino off \<Longrightarrow> 0 \<le> off \<Longrightarrow> off \<le> sz \<Longrightarrow> resume_offset st ino sz = off"
  by (auto simp: tail_saved_def resume_offset_def zero_file_state_def)

lemma lines_upto_all: "at_line_end d (int (length d)) \<Longrightarrow> lines_upto d (int (length d)) = complete_lines d"
  by (simp add: lines_upto_def)

lemma tail_scan_emits:
  assumes saved: "tail_saved st ino off" and at: "at_line_end (fo_data ob) off"
    and sz: "off \<le> sz" "sz \<le> int (length (fo_data ob))"
    and rng: "in_i64 (int (length (fo_data ob)))"
    and stat: "fo_stat ob = Some (ino, sz)" and ok: "tail_scan emit ob st = (r, st', None)"
  shows "\<exists>off'. tail_saved st' ino off' \<and> off \<le> off' \<and> at_line_end (fo_data ob) off' \<and>
    (\<exists>lns. lines_upto (fo_data ob) off' = lines_upto (fo_data ob) off @ lns \<and>
       r = concat_results (map emit lns)) \<and>
    (sz = int (length (fo_data ob)) \<longrightarrow> lines_upto (fo_data ob) off' = complete_lines (fo_data ob))"
proof -
  let ?d = "fo_data ob" and ?b = "drop (nat off) (fo_data ob)"
  have off: "0 \<le> off" "off \<le> int (length ?d)" using at by (auto simp: at_line_end_def)
  have res: "resume_offset st ino sz = off" by (rule resume_saved [OF saved off(1) sz(1)])
  show ?thesis
  proof (cases "sz = off")
    case True
    with ok stat res have "r = empty_result" "st' = \<lparr>fs_Inode = ino, fs_Offset = off\<rparr>"
      by (simp_all add: tail_scan_def)
    with True at lines_upto_all [of ?d] show ?thesis
      by (intro exI [of _ off]) (auto simp: tail_saved_def intro!: exI [of _ "[]"])
  next
    case False
    have "tail_loop emit off empty_result ?b =
        (concat_results (map emit (complete_lines ?b)), off + consumed ?b)"
      using tail_loop_eq [OF off(1), of ?b emit empty_result] rng off by simp
    with ok stat res False off(1) have
      r: "r = concat_results (map emit (complete_lines ?b))"
      and st': "st' = \<lparr>fs_Inode = ino, fs_Offset = off + consumed ?b\<rparr>"
      by (auto simp: tail_scan_def Let_def split: if_splits)
    have all: "complete_lines ?d = lines_upto ?d off @ complete_lines ?b"
      using complete_lines_append [of "take (nat off) ?d" ?b] at
      by (simp add: at_line_end_def lines_upto_def)
    have upto: "lines_upto ?d (off + consumed ?b) = complete_lines ?d"
      using resume_step(2) [OF at] all by (simp add: lines_upto_def)
    have "0 \<le> consumed ?b" by (simp add: consumed_complete)
    with st' resume_step(1) [OF at]
    have pos: "tail_saved st' ino (off + consumed ?b)" "off \<le> off + consumed ?b"
      "at_line_end ?d (off + consumed ?b)"
      by (auto simp: tail_saved_def)
    show ?thesis
      using pos upto all r by (intro exI [of _ "off + consumed ?b"]) (metis (no_types))
  qed
qed

lemma tail_scan_source: "tail_source (\<lambda>now. tail_scan (emit now)) emit tail_saved"
proof
  show "tail_saved zero_file_state ino 0" for ino
    by (simp add: tail_saved_def zero_file_state_def)
qed (simp_all add: tail_scan_emits, simp add: tail_scan_def)

lemma tail_scan_succeeds:
  assumes "fo_stat ob = Some (ino, sz)" "fo_opens ob" "\<not> fo_read_fails ob"
    and "tail_saved st ino off" "0 \<le> off"
  shows "snd (snd (tail_scan emit ob st)) = None"
proof -
  have "0 \<le> resume_offset st ino sz"
    using assms(4,5) by (auto simp: resume_offset_def tail_saved_def)
  with assms(1-3) show ?thesis by (simp add: tail_scan_def Let_def split: prod.splits)
qed

text \<open>A replaced or truncated file is read again from its first byte.\<close>

lemma tail_scan_restarts:
  assumes "fo_stat ob = Some (inode, sz)"
    and "fs_Inode prev \<noteq> 0 \<and> inode \<noteq> 0 \<and> fs_Inode prev \<noteq> inode \<or> sz < fs_Offset prev"
    and "fo_opens ob" "sz \<noteq> 0" "in_i64 (int (length (fo_data ob)))"
  shows "tail_scan emit ob prev =
    (concat_results (map emit (complete_lines (fo_data ob))),
     \<lparr>fs_Inode = inode, fs_Offset = consumed (fo_data ob)\<rparr>,
     if fo_read_fails ob then Some ReadError else None)"
proof -
  have "resume_offset prev inode sz = 0" using assms(2) by (auto simp: resume_offset_def)
  then show ?thesis
    using assms tail_loop_eq [of 0 "fo_data ob" emit empty_result]
    by (simp add: tail_scan_def)
qed

section \<open>Records up to the clock\<close>

text \<open>
  A line without a readable timestamp is stamped with the clock, and the backfill tag is
  computed from the clock. Everything else of a record comes from the line and the path.
\<close>

definition usage_body :: "usage_record \<Rightarrow> usage_record" where
  "usage_body u = u\<lparr>ur_Timestamp := epoch, ur_Backfill := False\<rparr>"

definition edit_body :: "edit_record \<Rightarrow> edit_record" where
  "edit_body e = e\<lparr>er_Timestamp := epoch, er_Backfill := False\<rparr>"

definition same_bodies :: "scan_result \<Rightarrow> scan_result \<Rightarrow> bool" where
  "same_bodies r s \<longleftrightarrow>
     map usage_body (sr_Usage r) = map usage_body (sr_Usage s) \<and>
     map edit_body (sr_Edits r) = map edit_body (sr_Edits s)"

lemma same_bodies_refl [simp]: "same_bodies r r"
  by (simp add: same_bodies_def)

lemma same_bodies_append:
  "same_bodies a b \<Longrightarrow> same_bodies c d \<Longrightarrow> same_bodies (append_result a c) (append_result b d)"
  by (simp add: same_bodies_def)

lemma emitted_same_bodies:
  assumes emit: "\<And>now now' ln. same_bodies (emit now ln) (emit now' ln)"
    and "emitted emit lns r"
  shows "same_bodies r (concat_results (map (emit now) lns))"
proof -
  obtain rs where rs: "list_all2 (\<lambda>ln x. \<exists>now. x = emit now ln) lns rs" "r = concat_results rs"
    using assms(2) by (auto simp: emitted_def)
  from rs(1) have "same_bodies (concat_results rs) (concat_results (map (emit now) lns))"
    by (induction rule: list_all2_induct) (auto intro: same_bodies_append emit)
  with rs(2) show ?thesis by simp
qed

end
