(* ===== verification/Lang.thy ===== *)
theory Lang
  imports Types
begin

text \<open>
  Languages and line counts (\<open>parsers/lang.go\<close>): the language tag of an edited file,
  the added and removed lines of a diff, and the line count of a text that
  \<open>parsers/pi.go\<close> shares with the DeepSeek parser.
\<close>

section \<open>Language of a path\<close>

definition extLang :: "(string \<times> string) list" where
  "extLang =
     [(''go'', ''golang''), (''java'', ''java''), (''rs'', ''rust''), (''py'', ''python''),
      (''js'', ''javascript''), (''mjs'', ''javascript''), (''cjs'', ''javascript''),
      (''jsx'', ''javascript''), (''ts'', ''typescript''), (''mts'', ''typescript''),
      (''cts'', ''typescript''), (''tsx'', ''typescript''), (''c'', ''c''), (''h'', ''c''),
      (''cc'', ''cpp''), (''cpp'', ''cpp''), (''cxx'', ''cpp''), (''hpp'', ''cpp''),
      (''hh'', ''cpp''), (''cs'', ''csharp''), (''rb'', ''ruby''), (''php'', ''php''),
      (''kt'', ''kotlin''), (''kts'', ''kotlin''), (''swift'', ''swift''),
      (''scala'', ''scala''), (''sh'', ''shell''), (''bash'', ''shell''), (''zsh'', ''shell''),
      (''sql'', ''sql''), (''html'', ''html''), (''htm'', ''html''), (''css'', ''css''),
      (''scss'', ''css''), (''less'', ''css''), (''vue'', ''vue''), (''svelte'', ''svelte''),
      (''md'', ''markdown''), (''markdown'', ''markdown''), (''json'', ''json''),
      (''yaml'', ''yaml''), (''yml'', ''yaml''), (''toml'', ''toml''), (''xml'', ''xml''),
      (''proto'', ''proto''), (''lua'', ''lua''), (''dart'', ''dart''), (''pl'', ''perl''),
      (''pm'', ''perl''), (''r'', ''r''), (''hs'', ''haskell''), (''ex'', ''elixir''),
      (''exs'', ''elixir''), (''erl'', ''erlang''), (''zig'', ''zig''),
      (''groovy'', ''groovy''), (''gradle'', ''gradle''), (''tf'', ''terraform''),
      (''tfvars'', ''terraform''), (''hcl'', ''hcl''), (''m'', ''objective-c''),
      (''mm'', ''objective-c''), (''fs'', ''fsharp''), (''fsi'', ''fsharp''),
      (''fsx'', ''fsharp''), (''ml'', ''ocaml''), (''mli'', ''ocaml''), (''clj'', ''clojure''),
      (''cljs'', ''clojure''), (''cljc'', ''clojure''), (''edn'', ''clojure''),
      (''elm'', ''elm''), (''nim'', ''nim''), (''cr'', ''crystal''), (''jl'', ''julia''),
      (''f'', ''fortran''), (''f90'', ''fortran''), (''f95'', ''fortran''),
      (''pas'', ''pascal''), (''vb'', ''vbnet''), (''s'', ''assembly''),
      (''asm'', ''assembly''), (''sol'', ''solidity''), (''graphql'', ''graphql''),
      (''gql'', ''graphql''), (''nix'', ''nix''), (''hx'', ''haxe''), (''d'', ''d''),
      (''sv'', ''verilog''), (''vhd'', ''vhdl''), (''ps1'', ''powershell''),
      (''psm1'', ''powershell''), (''bat'', ''batch''), (''cmd'', ''batch''),
      (''fish'', ''shell''), (''awk'', ''awk''), (''ipynb'', ''notebook''),
      (''rst'', ''restructuredtext''), (''adoc'', ''asciidoc''), (''tex'', ''latex''),
      (''org'', ''org''), (''txt'', ''text''), (''svg'', ''svg''), (''astro'', ''astro''),
      (''sass'', ''css''), (''styl'', ''css''), (''pug'', ''pug''), (''hbs'', ''handlebars''),
      (''ejs'', ''javascript''), (''json5'', ''json''), (''jsonc'', ''json''),
      (''ini'', ''config''), (''cfg'', ''config''), (''conf'', ''config''),
      (''env'', ''config''), (''properties'', ''config''), (''thrift'', ''thrift''),
      (''cmake'', ''cmake''), (''bzl'', ''bazel''), (''bazel'', ''bazel''),
      (''jsonnet'', ''jsonnet''), (''libsonnet'', ''jsonnet''), (''prisma'', ''prisma''),
      (''csv'', ''data''), (''tsv'', ''data'')]"

definition baseLang :: "(string \<times> string) list" where
  "baseLang =
     [(''makefile'', ''makefile''), (''gnumakefile'', ''makefile''),
      (''dockerfile'', ''dockerfile''), (''containerfile'', ''dockerfile''),
      (''cmakelists.txt'', ''cmake''), (''jenkinsfile'', ''groovy''), (''gemfile'', ''ruby''),
      (''rakefile'', ''ruby''), (''vagrantfile'', ''ruby''), (''cargo.lock'', ''toml''),
      (''pipfile'', ''toml''), (''go.mod'', ''golang''), (''go.sum'', ''golang'')]"

definition langFromPath :: "string \<Rightarrow> string" where
  "langFromPath path =
     (if path = [] then ''other''
      else case map_of baseLang (to_lower (path_base path)) of
        Some lang \<Rightarrow> lang
      | None \<Rightarrow>
          (let ext = trim_prefix (to_lower (path_ext path)) ''.'' in
           if ext \<noteq> [] then
             (case map_of extLang ext of Some lang \<Rightarrow> lang | None \<Rightarrow> ''other'')
           else ''other''))"

section \<open>Line counts\<close>

text \<open>The loop of \<open>diffLineCounts\<close> with its two counters, then the function.\<close>

fun diff_loop :: "string list \<Rightarrow> int \<Rightarrow> int \<Rightarrow> int \<times> int" where
  "diff_loop [] added removed = (added, removed)"
| "diff_loop (l # ls) added removed =
     (if has_prefix l ''+++'' \<or> has_prefix l ''---'' then diff_loop ls added removed
      else if has_prefix l ''+'' then diff_loop ls (added + 1) removed
      else if has_prefix l ''-'' then diff_loop ls added (removed + 1)
      else diff_loop ls added removed)"

definition diffLineCounts :: "string list \<Rightarrow> int \<times> int" where
  "diffLineCounts ls = diff_loop ls 0 0"

definition countLines :: "string \<Rightarrow> int" where
  "countLines s =
     (if s = [] then 0 else int (count_list (trim_suffix s [nl]) nl) + 1)"

section \<open>Facts\<close>

definition is_added :: "string \<Rightarrow> bool" where
  "is_added l \<longleftrightarrow> has_prefix l ''+'' \<and> \<not> has_prefix l ''+++''"

definition is_removed :: "string \<Rightarrow> bool" where
  "is_removed l \<longleftrightarrow> has_prefix l ''-'' \<and> \<not> has_prefix l ''---''"

lemma has_prefix_Cons: "has_prefix s (c # p) \<Longrightarrow> \<exists>t. s = c # t"
  by (cases s) (auto simp: has_prefix_def)

lemma diff_loop_counts:
  "diff_loop ls a r =
     (a + int (length (filter is_added ls)), r + int (length (filter is_removed ls)))"
proof (induction ls arbitrary: a r)
  case (Cons l ls)
  have "has_prefix l ''+++'' \<Longrightarrow> \<not> is_added l \<and> \<not> is_removed l"
    and "has_prefix l ''---'' \<Longrightarrow> \<not> is_added l \<and> \<not> is_removed l"
    and "has_prefix l ''+'' \<Longrightarrow> \<not> is_removed l"
    by (auto simp: is_added_def is_removed_def dest: has_prefix_Cons)
  then show ?case
    using Cons by (auto simp: is_added_def is_removed_def)
qed simp

lemma diffLineCounts_eq:
  "diffLineCounts ls =
     (int (length (filter is_added ls)), int (length (filter is_removed ls)))"
  by (simp add: diffLineCounts_def diff_loop_counts)

lemma diffLineCounts_append:
  "diffLineCounts (xs @ ys) =
     (fst (diffLineCounts xs) + fst (diffLineCounts ys),
      snd (diffLineCounts xs) + snd (diffLineCounts ys))"
  by (simp add: diffLineCounts_eq)

text \<open>A line is never counted on both sides.\<close>

lemma diffLineCounts_bound:
  "0 \<le> fst (diffLineCounts ls)" "0 \<le> snd (diffLineCounts ls)"
  "fst (diffLineCounts ls) + snd (diffLineCounts ls) \<le> int (length ls)"
proof -
  have "length (filter is_added ls) + length (filter is_removed ls) \<le> length ls"
    by (induction ls) (auto simp: is_added_def is_removed_def dest!: has_prefix_Cons)
  then show "fst (diffLineCounts ls) + snd (diffLineCounts ls) \<le> int (length ls)"
    by (simp add: diffLineCounts_eq)
qed (simp_all add: diffLineCounts_eq)

lemma countLines_nonneg: "0 \<le> countLines s"
  by (simp add: countLines_def)

lemma trim_suffix_snoc [simp]: "trim_suffix (s @ [c]) [c] = s"
  by (simp add: trim_suffix_def)

text \<open>A final newline does not count as a line of its own.\<close>

lemma countLines_final_newline:
  "s \<noteq> [] \<Longrightarrow> \<not> has_suffix s [nl] \<Longrightarrow> countLines (s @ [nl]) = countLines s"
  by (simp add: countLines_def trim_suffix_def)

lemma countLines_split:
  "countLines s = (if s = [] then 0 else int (length (split_on nl (trim_suffix s [nl]))))"
  by (simp add: countLines_def length_split_on)

text \<open>The tag only depends on the path up to the case of its letters.\<close>

lemma lower_char_eq_iff:
  assumes "\<not> (65 \<le> byte_of k \<and> byte_of k \<le> 90)" "\<not> (97 \<le> byte_of k \<and> byte_of k \<le> 122)"
  shows "lower_char c = k \<longleftrightarrow> c = k"
proof -
  have "byte_of (char_of (byte_of c + 32)) = byte_of c + 32"
    if "65 \<le> byte_of c" "byte_of c \<le> 90"
    using that by (simp add: take_bit_eq_mod)
  with assms show ?thesis by (auto simp: lower_char_def)
qed

lemma lower_slash [simp]: "lower_char c = CHR ''/'' \<longleftrightarrow> c = CHR ''/''"
  and lower_dot [simp]: "lower_char c = CHR ''.'' \<longleftrightarrow> c = CHR ''.''"
  by (rule lower_char_eq_iff; simp)+

lemma lower_consts [simp]: "lower_char CHR ''/'' = CHR ''/''" "lower_char CHR ''.'' = CHR ''.''"
  by simp_all

lemma after_last_map:
  assumes "\<And>c. f c = k \<longleftrightarrow> c = k"
  shows "after_last k (map f s) = map f (after_last k s)"
  using assms by (simp add: after_last_def rev_map takeWhile_map comp_def)

lemma path_base_lower: "path_base (to_lower p) = to_lower (path_base p)"
proof -
  have "rev (dropWhile (\<lambda>c. c = slash) (rev (map lower_char p))) =
      map lower_char (rev (dropWhile (\<lambda>c. c = slash) (rev p)))"
    by (simp add: rev_map dropWhile_map comp_def)
  then show ?thesis
    by (simp add: path_base_def to_lower_def Let_def
        after_last_map [of lower_char, OF lower_slash])
qed

lemma path_ext_lower: "path_ext (to_lower p) = to_lower (path_ext p)"
proof -
  have "CHR ''.'' \<in> set (map lower_char t) \<longleftrightarrow> CHR ''.'' \<in> set t" for t
    by (induction t) (auto simp: eq_commute [of "CHR ''.''"])
  then show ?thesis
    by (simp only: path_ext_def to_lower_def Let_def after_last_map [of lower_char, OF lower_slash]
        after_last_map [of lower_char, OF lower_dot]) simp
qed

lemma langFromPath_lower: "langFromPath (to_lower p) = langFromPath p"
  by (simp only: langFromPath_def path_base_lower path_ext_lower to_lower_idem)
    (simp add: to_lower_def)

text \<open>Every tag is one of the tables' or \<open>other\<close>.\<close>

definition known_langs :: "string set" where
  "known_langs = insert ''other'' (snd ` (set extLang \<union> set baseLang))"

lemma langFromPath_known: "langFromPath p \<in> known_langs"
  by (auto simp: langFromPath_def known_langs_def Let_def split: option.splits
      dest!: map_of_SomeD intro: rev_image_eqI)

lemma lang_examples:
  "langFromPath ''/w/CMakeLists.txt'' = ''cmake''" "langFromPath ''/w/a.GO'' = ''golang''"
  "langFromPath ''/w.go/Makefile'' = ''makefile''" "langFromPath ''/w.go/x'' = ''other''"
  by code_simp+

end
