(* ===== verification/ClaudeCode.thy ===== *)
theory ClaudeCode
  imports TailScan Lang
begin

text \<open>
  Anthropic Claude Code transcripts (\<open>parsers/claudecode.go\<close>): the JSONL line shapes
  and their decoders, the usage record of an assistant line, the edit records of a tool
  result line, and the tail scan over both.
\<close>

section \<open>Line shapes\<close>

record cacheCreationDetail =
  cd_Ephemeral1h :: int
  cd_Ephemeral5m :: int

record rawUsage =
  ru_Input :: int
  ru_Output :: int
  ru_CacheCreation :: int
  ru_CacheRead :: int
  ru_CacheCreationDetail :: cacheCreationDetail

record rawMessage =
  rm_ID :: string
  rm_Model :: string
  rm_Usage :: "rawUsage option"

record rawLine =
  rl_Type :: string
  rl_SessionID :: string
  rl_Cwd :: string
  rl_Timestamp :: string
  rl_RequestID :: string
  rl_UUID :: string
  rl_Message :: "rawMessage option"
  rl_ToolUseResult :: string

definition zero_cacheCreationDetail :: cacheCreationDetail where
  "zero_cacheCreationDetail = \<lparr>cd_Ephemeral1h = 0, cd_Ephemeral5m = 0\<rparr>"

definition zero_rawUsage :: rawUsage where
  "zero_rawUsage = \<lparr>ru_Input = 0, ru_Output = 0, ru_CacheCreation = 0, ru_CacheRead = 0,
     ru_CacheCreationDetail = zero_cacheCreationDetail\<rparr>"

definition zero_rawMessage :: rawMessage where
  "zero_rawMessage = \<lparr>rm_ID = [], rm_Model = [], rm_Usage = None\<rparr>"

definition zero_rawLine :: rawLine where
  "zero_rawLine = \<lparr>rl_Type = [], rl_SessionID = [], rl_Cwd = [], rl_Timestamp = [],
     rl_RequestID = [], rl_UUID = [], rl_Message = None, rl_ToolUseResult = []\<rparr>"

definition dec_cacheCreationDetail :: "cacheCreationDetail decoder" where
  "dec_cacheCreationDetail = dec_struct
     [fld ''ephemeral_1h_input_tokens'' dec_int64 cd_Ephemeral1h cd_Ephemeral1h_update,
      fld ''ephemeral_5m_input_tokens'' dec_int64 cd_Ephemeral5m cd_Ephemeral5m_update]"

definition dec_rawUsage :: "rawUsage decoder" where
  "dec_rawUsage = dec_struct
     [fld ''input_tokens'' dec_int64 ru_Input ru_Input_update,
      fld ''output_tokens'' dec_int64 ru_Output ru_Output_update,
      fld ''cache_creation_input_tokens'' dec_int64 ru_CacheCreation ru_CacheCreation_update,
      fld ''cache_read_input_tokens'' dec_int64 ru_CacheRead ru_CacheRead_update,
      fld ''cache_creation'' dec_cacheCreationDetail
        ru_CacheCreationDetail ru_CacheCreationDetail_update]"

definition dec_rawMessage :: "rawMessage decoder" where
  "dec_rawMessage = dec_struct
     [fld ''id'' dec_string rm_ID rm_ID_update,
      fld ''model'' dec_string rm_Model rm_Model_update,
      fld ''usage'' (dec_ptr zero_rawUsage dec_rawUsage) rm_Usage rm_Usage_update]"

definition dec_rawLine :: "rawLine decoder" where
  "dec_rawLine = dec_struct
     [fld ''type'' dec_string rl_Type rl_Type_update,
      fld ''sessionId'' dec_string rl_SessionID rl_SessionID_update,
      fld ''cwd'' dec_string rl_Cwd rl_Cwd_update,
      fld ''timestamp'' dec_string rl_Timestamp rl_Timestamp_update,
      fld ''requestId'' dec_string rl_RequestID rl_RequestID_update,
      fld ''uuid'' dec_string rl_UUID rl_UUID_update,
      fld ''message'' (dec_ptr zero_rawMessage dec_rawMessage) rl_Message rl_Message_update,
      fld ''toolUseResult'' dec_raw rl_ToolUseResult rl_ToolUseResult_update]"

section \<open>Usage records\<close>

definition clampTo :: "int \<Rightarrow> int \<Rightarrow> int" where
  "clampTo v hi = (if v < 0 then 0 else if v > hi then hi else v)"

definition parseClaudeCodeLine ::
    "string \<Rightarrow> string \<Rightarrow> string \<Rightarrow> duration \<Rightarrow> gotime \<Rightarrow> usage_record option" where
  "parseClaudeCodeLine line project tool cutoff now =
     (case unmarshal_ok dec_rawLine line zero_rawLine of
        None \<Rightarrow> None
      | Some raw \<Rightarrow>
          if rl_Type raw \<noteq> ''assistant'' then None
          else (case rl_Message raw of
             None \<Rightarrow> None
           | Some m \<Rightarrow>
               (case rm_Usage m of
                  None \<Rightarrow> None
                | Some u \<Rightarrow>
                    if rm_ID m = [] then None
                    else if rm_Model m = ''<synthetic>'' then None
                    else
                      (let ts = stamp (rl_Timestamp raw) now in
                       Some \<lparr>ur_MessageID = rm_ID m, ur_RequestID = rl_RequestID raw,
                         ur_SessionID = rl_SessionID raw, ur_Tool = tool, ur_Model = rm_Model m,
                         ur_Timestamp = ts, ur_InputTokens = ru_Input u,
                         ur_OutputTokens = ru_Output u, ur_CacheCreationTokens = ru_CacheCreation u,
                         ur_CacheCreation1hTokens =
                           clampTo (cd_Ephemeral1h (ru_CacheCreationDetail u)) (ru_CacheCreation u),
                         ur_CacheReadTokens = ru_CacheRead u, ur_ProjectPath = project,
                         ur_Backfill = is_backfill cutoff now ts\<rparr>))))"

section \<open>Edit records\<close>

record hunk =
  hk_Lines :: "string list"

record bash_file =
  bf_FilePath :: string
  bf_Hunks :: "hunk list"

record bash_diff =
  bd_Files :: "bash_file list"

record rawToolResult =
  tr_Type :: string
  tr_FilePath :: string
  tr_Content :: string
  tr_StructuredPatch :: "hunk list"
  tr_BashEditDiff :: "bash_diff option"

definition zero_rawToolResult :: rawToolResult where
  "zero_rawToolResult = \<lparr>tr_Type = [], tr_FilePath = [], tr_Content = [],
     tr_StructuredPatch = [], tr_BashEditDiff = None\<rparr>"

definition dec_hunk :: "hunk decoder" where
  "dec_hunk = dec_struct [fld ''lines'' (dec_slice [] dec_string) hk_Lines hk_Lines_update]"

definition dec_bash_file :: "bash_file decoder" where
  "dec_bash_file = dec_struct
     [fld ''filePath'' dec_string bf_FilePath bf_FilePath_update,
      fld ''hunks'' (dec_slice \<lparr>hk_Lines = []\<rparr> dec_hunk) bf_Hunks bf_Hunks_update]"

definition dec_bash_diff :: "bash_diff decoder" where
  "dec_bash_diff = dec_struct
     [fld ''files'' (dec_slice \<lparr>bf_FilePath = [], bf_Hunks = []\<rparr> dec_bash_file)
        bd_Files bd_Files_update]"

definition dec_rawToolResult :: "rawToolResult decoder" where
  "dec_rawToolResult = dec_struct
     [fld ''type'' dec_string tr_Type tr_Type_update,
      fld ''filePath'' dec_string tr_FilePath tr_FilePath_update,
      fld ''content'' dec_string tr_Content tr_Content_update,
      fld ''structuredPatch'' (dec_slice \<lparr>hk_Lines = []\<rparr> dec_hunk)
        tr_StructuredPatch tr_StructuredPatch_update,
      fld ''bashEditDiff'' (dec_ptr \<lparr>bd_Files = []\<rparr> dec_bash_diff)
        tr_BashEditDiff tr_BashEditDiff_update]"

text \<open>\<open>for _, hunk := range hunks { a, r := diffLineCounts(hunk.Lines); \<dots> }\<close>.\<close>

fun sum_hunks :: "hunk list \<Rightarrow> int \<Rightarrow> int \<Rightarrow> int \<times> int" where
  "sum_hunks [] added removed = (added, removed)"
| "sum_hunks (h # hs) added removed =
     (let (a, r) = diffLineCounts (hk_Lines h) in sum_hunks hs (added + a) (removed + r))"

definition cc_edit ::
    "rawLine \<Rightarrow> string \<Rightarrow> string \<Rightarrow> duration \<Rightarrow> gotime \<Rightarrow> string \<Rightarrow> string \<Rightarrow> int \<Rightarrow> int \<Rightarrow> edit_record" where
  "cc_edit raw project tool cutoff now eventID path added removed =
     (let ts = stamp (rl_Timestamp raw) now in
      \<lparr>er_EventID = eventID, er_SessionID = rl_SessionID raw, er_Tool = tool,
       er_Timestamp = ts, er_Lang = langFromPath path, er_LinesAdded = added,
       er_LinesRemoved = removed, er_ProjectPath = project,
       er_Backfill = is_backfill cutoff now ts\<rparr>)"

text \<open>The loop over the files of a bash diff, with its index.\<close>

fun bash_edits ::
    "(string \<Rightarrow> string \<Rightarrow> int \<Rightarrow> int \<Rightarrow> edit_record) \<Rightarrow> string \<Rightarrow> nat \<Rightarrow> bash_file list \<Rightarrow> edit_record list" where
  "bash_edits rec uuid i [] = []"
| "bash_edits rec uuid i (f # fs) =
     (if bf_FilePath f = [] then bash_edits rec uuid (Suc i) fs
      else (let (added, removed) = sum_hunks (bf_Hunks f) 0 0 in
        if added = 0 \<and> removed = 0 then bash_edits rec uuid (Suc i) fs
        else rec (uuid @ ''#'' @ itoa (int i)) (bf_FilePath f) added removed
             # bash_edits rec uuid (Suc i) fs))"

definition parseClaudeCodeEditLines ::
    "string \<Rightarrow> string \<Rightarrow> string \<Rightarrow> duration \<Rightarrow> gotime \<Rightarrow> edit_record list" where
  "parseClaudeCodeEditLines line project tool cutoff now =
     (case unmarshal_ok dec_rawLine line zero_rawLine of
        None \<Rightarrow> []
      | Some raw \<Rightarrow>
          if rl_Type raw \<noteq> ''user'' \<or> rl_UUID raw = [] \<or> rl_ToolUseResult raw = [] \<or>
             hd (rl_ToolUseResult raw) \<noteq> CHR ''{'' then []
          else (case unmarshal_ok dec_rawToolResult (rl_ToolUseResult raw) zero_rawToolResult of
             None \<Rightarrow> []
           | Some tr \<Rightarrow>
               (let rec = cc_edit raw project tool cutoff now in
                if tr_FilePath tr \<noteq> [] then
                  (if tr_StructuredPatch tr \<noteq> [] then
                     (let (added, removed) = sum_hunks (tr_StructuredPatch tr) 0 0
                      in [rec (rl_UUID raw) (tr_FilePath tr) added removed])
                   else if (tr_Type tr = ''create'' \<or> tr_Type tr = ''update'') \<and> tr_Content tr \<noteq> [] then
                     [rec (rl_UUID raw) (tr_FilePath tr)
                        (int (count_list (trim_suffix (tr_Content tr) [nl]) nl) + 1) 0]
                   else [])
                else (case tr_BashEditDiff tr of
                   None \<Rightarrow> []
                 | Some bd \<Rightarrow> bash_edits rec (rl_UUID raw) 0 (bd_Files bd)))))"

section \<open>The scan\<close>

definition claudecode_emit ::
    "string \<Rightarrow> string \<Rightarrow> duration \<Rightarrow> gotime \<Rightarrow> string \<Rightarrow> scan_result" where
  "claudecode_emit project tool cutoff now line =
     (case parseClaudeCodeLine line project tool cutoff now of
        Some rec \<Rightarrow> \<lparr>sr_Usage = [rec], sr_Edits = []\<rparr>
      | None \<Rightarrow> \<lparr>sr_Usage = [], sr_Edits = parseClaudeCodeEditLines line project tool cutoff now\<rparr>)"

definition claudecode_Scan :: parser where
  "claudecode_Scan ob path tool prev cutoff now =
     tail_scan (claudecode_emit (project_from_path path) tool cutoff now) ob prev"

section \<open>Facts\<close>

text \<open>Token counts decoded from a line are 64-bit values.\<close>

definition usage_range :: "rawUsage \<Rightarrow> bool" where
  "usage_range u \<longleftrightarrow> in_i64 (ru_Input u) \<and> in_i64 (ru_Output u) \<and> in_i64 (ru_CacheCreation u) \<and>
     in_i64 (ru_CacheRead u)"

lemma dec_rawUsage_range: "usage_range r \<Longrightarrow> usage_range (fst (dec_rawUsage v r))"
  unfolding dec_rawUsage_def
  by (rule dec_struct_inv) (auto simp: usage_range_def dec_int64_in_i64)

definition message_range :: "rawMessage \<Rightarrow> bool" where
  "message_range m \<longleftrightarrow> (\<forall>u \<in> set_option (rm_Usage m). usage_range u)"

definition line_range :: "rawLine \<Rightarrow> bool" where
  "line_range l \<longleftrightarrow> (\<forall>m \<in> set_option (rl_Message l). message_range m)"

lemma dec_rawMessage_range: "message_range r \<Longrightarrow> message_range (fst (dec_rawMessage v r))"
  unfolding dec_rawMessage_def
proof (rule dec_struct_inv)
  have "usage_range zero_rawUsage"
    by (simp add: zero_rawUsage_def usage_range_def in_i64_def i64_bounds)
  then have "\<forall>x \<in> set_option (fst (dec_ptr zero_rawUsage dec_rawUsage v old)). usage_range x"
    if "\<forall>x \<in> set_option old. usage_range x" for v old
    using dec_ptr_inv [of usage_range dec_rawUsage, OF dec_rawUsage_range] that by blast
  then show "list_all (\<lambda>f. \<forall>v r. message_range r \<longrightarrow> message_range (fst (snd f v r)))
     [fld ''id'' dec_string rm_ID rm_ID_update,
      fld ''model'' dec_string rm_Model rm_Model_update,
      fld ''usage'' (dec_ptr zero_rawUsage dec_rawUsage) rm_Usage rm_Usage_update]"
    by (simp add: message_range_def)
qed

lemma dec_rawLine_range: "line_range r \<Longrightarrow> line_range (fst (dec_rawLine v r))"
  unfolding dec_rawLine_def
proof (rule dec_struct_inv)
  have "message_range zero_rawMessage" by (simp add: zero_rawMessage_def message_range_def)
  then have "\<forall>x \<in> set_option (fst (dec_ptr zero_rawMessage dec_rawMessage v old)). message_range x"
    if "\<forall>x \<in> set_option old. message_range x" for v old
    using dec_ptr_inv [of message_range dec_rawMessage, OF dec_rawMessage_range] that by blast
  then show "list_all (\<lambda>f. \<forall>v r. line_range r \<longrightarrow> line_range (fst (snd f v r)))
     [fld ''type'' dec_string rl_Type rl_Type_update,
      fld ''sessionId'' dec_string rl_SessionID rl_SessionID_update,
      fld ''cwd'' dec_string rl_Cwd rl_Cwd_update,
      fld ''timestamp'' dec_string rl_Timestamp rl_Timestamp_update,
      fld ''requestId'' dec_string rl_RequestID rl_RequestID_update,
      fld ''uuid'' dec_string rl_UUID rl_UUID_update,
      fld ''message'' (dec_ptr zero_rawMessage dec_rawMessage) rl_Message rl_Message_update,
      fld ''toolUseResult'' dec_raw rl_ToolUseResult rl_ToolUseResult_update]"
    by (simp add: line_range_def)
qed

lemma raw_line_range:
  assumes "unmarshal_ok dec_rawLine line zero_rawLine = Some raw"
  shows "line_range raw"
  using unmarshal_ok_inv [where P = line_range, OF _ _ assms] dec_rawLine_range
  by (auto simp: zero_rawLine_def line_range_def)

lemma clampTo_bounds: "0 \<le> clampTo v hi" if "0 \<le> hi"
  and "clampTo v hi \<le> max 0 hi"
  using that by (auto simp: clampTo_def)

lemma clampTo_in_i64: "in_i64 hi \<Longrightarrow> in_i64 v \<Longrightarrow> in_i64 (clampTo v hi)"
  by (auto simp: clampTo_def in_i64_def i64_bounds)

text \<open>The lines of several hunks count as the lines of one diff.\<close>

lemma sum_hunks_concat:
  "sum_hunks hs a r =
     (a + fst (diffLineCounts (concat (map hk_Lines hs))),
      r + snd (diffLineCounts (concat (map hk_Lines hs))))"
proof (induction hs arbitrary: a r)
  case (Cons h hs)
  then show ?case by (simp add: diffLineCounts_append case_prod_beta)
qed (simp add: diffLineCounts_eq)

lemma sum_hunks_nonneg:
  "0 \<le> a \<Longrightarrow> 0 \<le> r \<Longrightarrow> 0 \<le> fst (sum_hunks hs a r) \<and> 0 \<le> snd (sum_hunks hs a r)"
  by (simp add: sum_hunks_concat diffLineCounts_bound)

lemma bash_edits_ids:
  "\<forall>e \<in> set (bash_edits rec uuid i fs). \<exists>j path a r. i \<le> j \<and> e = rec (uuid @ ''#'' @ itoa (int j)) path a r \<and>
     0 \<le> a \<and> 0 \<le> r \<and> \<not> (a = 0 \<and> r = 0)"
proof (induction fs arbitrary: i)
  case (Cons f fs)
  obtain a r where ar: "sum_hunks (bf_Hunks f) 0 0 = (a, r)" by force
  have "0 \<le> a" "0 \<le> r" using sum_hunks_nonneg [of 0 0 "bf_Hunks f"] ar by auto
  with Cons [of "Suc i"] ar show ?case
    by (auto simp: Let_def split: if_splits) (meson Suc_leD le_refl)+
qed simp

lemma bash_edits_distinct:
  assumes id: "\<And>u p a r. er_EventID (rec u p a r) = u"
  shows "distinct (map er_EventID (bash_edits rec uuid i fs))"
proof (induction fs arbitrary: i)
  case (Cons f fs)
  have "uuid @ ''#'' @ itoa (int i) \<notin> er_EventID ` set (bash_edits rec uuid (Suc i) fs)"
  proof
    assume "uuid @ ''#'' @ itoa (int i) \<in> er_EventID ` set (bash_edits rec uuid (Suc i) fs)"
    then obtain e where e: "e \<in> set (bash_edits rec uuid (Suc i) fs)"
      "er_EventID e = uuid @ ''#'' @ itoa (int i)" by auto
    from bspec [OF bash_edits_ids e(1)] obtain j path a r where
      "Suc i \<le> j" "e = rec (uuid @ ''#'' @ itoa (int j)) path a r" by blast
    with e(2) show False by (simp add: id itoa_nonneg_inject)
  qed
  with Cons [of "Suc i"] id show ?case by (auto simp: Let_def split: prod.splits)
qed simp

definition edit_ok :: "edit_record \<Rightarrow> bool" where
  "edit_ok e \<longleftrightarrow> er_EventID e \<noteq> [] \<and> 0 \<le> er_LinesAdded e \<and> 0 \<le> er_LinesRemoved e"

lemma cc_edit_sel:
  "er_EventID (cc_edit raw project tool cutoff now u p a r) = u"
  "er_LinesAdded (cc_edit raw project tool cutoff now u p a r) = a"
  "er_LinesRemoved (cc_edit raw project tool cutoff now u p a r) = r"
  by (simp_all add: cc_edit_def Let_def)

lemma edit_lines_cases:
  obtains (none) "parseClaudeCodeEditLines line project tool cutoff now = []"
  | (one) raw path a r where "rl_UUID raw \<noteq> []" "0 \<le> a" "0 \<le> r"
      "parseClaudeCodeEditLines line project tool cutoff now =
         [cc_edit raw project tool cutoff now (rl_UUID raw) path a r]"
  | (bash) raw fs where "rl_UUID raw \<noteq> []"
      "parseClaudeCodeEditLines line project tool cutoff now =
         bash_edits (cc_edit raw project tool cutoff now) (rl_UUID raw) 0 fs"
proof (cases "parseClaudeCodeEditLines line project tool cutoff now = []")
  case False
  then obtain raw tr where raw: "unmarshal_ok dec_rawLine line zero_rawLine = Some raw"
    "rl_UUID raw \<noteq> []" "rl_Type raw = ''user''" "rl_ToolUseResult raw \<noteq> []"
    "hd (rl_ToolUseResult raw) = CHR ''{''"
    "unmarshal_ok dec_rawToolResult (rl_ToolUseResult raw) zero_rawToolResult = Some tr"
    by (auto simp: parseClaudeCodeEditLines_def split: option.splits if_splits)
  show ?thesis
  proof (cases "tr_FilePath tr = []")
    case True
    with False raw bash show ?thesis
      by (auto simp: parseClaudeCodeEditLines_def Let_def split: option.splits)
  next
    case path: False
    obtain a r where "sum_hunks (tr_StructuredPatch tr) 0 0 = (a, r)" "0 \<le> a" "0 \<le> r"
      using sum_hunks_nonneg [of 0 0 "tr_StructuredPatch tr"] by (metis order_refl prod.collapse)
    with False path raw have "\<exists>a r. 0 \<le> a \<and> 0 \<le> r \<and>
        parseClaudeCodeEditLines line project tool cutoff now =
          [cc_edit raw project tool cutoff now (rl_UUID raw) (tr_FilePath tr) a r]"
      by (intro exI [of _ "if tr_StructuredPatch tr = []
            then int (count_list (trim_suffix (tr_Content tr) [nl]) nl) + 1 else a"]
          exI [of _ "if tr_StructuredPatch tr = [] then 0 else r"])
        (auto simp: parseClaudeCodeEditLines_def Let_def split: if_splits)
    with one raw(2) show ?thesis by blast
  qed
qed

text \<open>Apart from the timestamp and the backfill tag, a line's records do not depend on the clock.\<close>

lemma parseClaudeCodeLine_body:
  "map_option usage_body (parseClaudeCodeLine line project tool cutoff now) =
   map_option usage_body (parseClaudeCodeLine line project tool cutoff now')"
  by (simp add: parseClaudeCodeLine_def usage_body_def Let_def split: option.split)

lemma bash_edits_body:
  assumes "\<And>u p a r. edit_body (rec u p a r) = edit_body (rec' u p a r)"
  shows "map edit_body (bash_edits rec uuid i fs) = map edit_body (bash_edits rec' uuid i fs)"
  by (induction fs arbitrary: i) (simp_all add: assms Let_def split: prod.split)

lemma cc_edit_body:
  "edit_body (cc_edit raw project tool cutoff now u p a r) =
   edit_body (cc_edit raw project tool cutoff now' u p a r)"
  by (simp add: cc_edit_def edit_body_def Let_def)

lemma parseClaudeCodeEditLines_body:
  "map edit_body (parseClaudeCodeEditLines line project tool cutoff now) =
   map edit_body (parseClaudeCodeEditLines line project tool cutoff now')"
proof -
  have "map edit_body (bash_edits (cc_edit raw project tool cutoff now) u 0 fs) =
      map edit_body (bash_edits (cc_edit raw project tool cutoff now') u 0 fs)" for raw u fs
    by (rule bash_edits_body) (rule cc_edit_body)
  moreover have "edit_body (cc_edit raw project tool cutoff now u p a r) =
      edit_body (cc_edit raw project tool cutoff now' u p a r)" for raw u p a r
    by (rule cc_edit_body)
  ultimately show ?thesis
    unfolding parseClaudeCodeEditLines_def Let_def
    by (auto split: option.split prod.split)
qed

lemma claudecode_emit_body:
  "same_bodies (claudecode_emit project tool cutoff now line)
     (claudecode_emit project tool cutoff now' line)"
  using parseClaudeCodeLine_body [of line project tool cutoff now now']
    parseClaudeCodeEditLines_body [of line project tool cutoff now now']
  by (cases "parseClaudeCodeLine line project tool cutoff now";
      cases "parseClaudeCodeLine line project tool cutoff now'")
    (auto simp: claudecode_emit_def same_bodies_def)

section \<open>The interface\<close>

interpretation claude: tail_source
  "\<lambda>now ob prev. claudecode_Scan ob path tool prev cutoff now"
  "claudecode_emit (project_from_path path) tool cutoff" tail_saved
  for path tool cutoff
  unfolding claudecode_Scan_def by (rule tail_scan_source)

section \<open>Properties\<close>

text \<open>
  C5. Exactly once: over any number of ticks on a growing transcript, with scans that fail
  and uploads that do not stick among them, once a last tick sees the whole file and is
  durable, the records kept are, up to the clock fields, those of one pass over all complete
  lines of the file: nothing is lost and nothing is counted twice.
\<close>

theorem claude_exactly_once:
  assumes "growing ino [] (map tk_obs (ts @ [t]))"
    and "run_ticks (\<lambda>now ob prev. claudecode_Scan ob path tool prev cutoff now)
           zero_file_state empty_result (ts @ [t]) = (acc, st)"
    and "fo_stat (tk_obs t) = Some (ino, int (length (fo_data (tk_obs t))))"
    and "fo_opens (tk_obs t)" "\<not> fo_read_fails (tk_obs t)" "tk_durable t"
  shows "same_bodies acc (concat_results
           (map (claudecode_emit (project_from_path path) tool cutoff epoch)
              (complete_lines (fo_data (tk_obs t)))))"
proof (rule emitted_same_bodies [OF claudecode_emit_body
      claude.run_ticks_caught_up [OF assms(1-3) _ assms(6)]])
  show "snd (snd (claudecode_Scan (tk_obs t) path tool st cutoff (tk_now t))) = None"
    if "tail_saved st ino off" "0 \<le> off" for st off
    using tail_scan_succeeds [OF assms(3-5) that] by (simp add: claudecode_Scan_def)
qed

text \<open>A short transcript: an answer with its usage, and the result of an edit made through Bash.\<close>

definition cc_line :: string where
  "cc_line = jq (''{~type~:~assistant~,~message~:{~id~:~m1~,~model~:~o~,~usage~:{'' @
     ''~input_tokens~:12,~cache_creation_input_tokens~:5,'' @
     ''~cache_creation~:{~ephemeral_1h_input_tokens~:9}}}}'') @ [nl]"

definition cc_edit_line :: string where
  "cc_edit_line = jq (''{~type~:~user~,~uuid~:~u~,~toolUseResult~:{~bashEditDiff~:{~files~:['' @
     ''{~filePath~:~a.go~,~hunks~:[{~lines~:[~+x~,~-y~]}]},'' @
     ''{~filePath~:~c.rs~,~hunks~:[{~lines~:[~-q~]}]}]}}}'') @ [nl]"

text \<open>The answer seen twice: first without its last bytes, then complete.\<close>

definition cc_tick :: "nat \<Rightarrow> tick" where
  "cc_tick n =
     \<lparr>tk_obs = \<lparr>fo_stat = Some (7, int n), fo_opens = True, fo_data = take n cc_line,
        fo_read_fails = False\<rparr>,
      tk_now = 1782900002000000000, tk_durable = True\<rparr>"

theorem claude_exactly_once_witness:
  "\<exists>acc st. run_ticks (\<lambda>now ob prev. claudecode_Scan ob ''/p/s.jsonl'' ''cc'' prev 0 now)
       zero_file_state empty_result [cc_tick 20, cc_tick (length cc_line)] = (acc, st) \<and>
     map ur_InputTokens (sr_Usage acc) = [12] \<and>
     same_bodies acc (concat_results (map (claudecode_emit (project_from_path ''/p/s.jsonl'') ''cc'' 0 epoch)
       (complete_lines (fo_data (tk_obs (cc_tick (length cc_line)))))))"
proof -
  let ?run = "run_ticks (\<lambda>now ob prev. claudecode_Scan ob ''/p/s.jsonl'' ''cc'' prev 0 now)
       zero_file_state empty_result ([cc_tick 20] @ [cc_tick (length cc_line)])"
  obtain acc st where r: "?run = (acc, st)" by force
  have "growing 7 [] (map tk_obs ([cc_tick 20] @ [cc_tick (length cc_line)]))"
    "fo_stat (tk_obs (cc_tick (length cc_line))) = Some (7, int (length (fo_data (tk_obs (cc_tick (length cc_line))))))"
    "fo_opens (tk_obs (cc_tick (length cc_line)))" "\<not> fo_read_fails (tk_obs (cc_tick (length cc_line)))"
    "tk_durable (cc_tick (length cc_line))"
    by code_simp+
  note claude_exactly_once [OF this(1) r this(2-5)]
  moreover have "map ur_InputTokens (sr_Usage (fst ?run)) = [12]" by code_simp
  ultimately show ?thesis using r by auto
qed



text \<open>
  The edit records of one tool result: each carries the id of the line, numbered when a
  bash edit touched several files, so that no two share an event id; line counts are never
  negative, and a line that yields a usage record yields no edits.
\<close>

theorem claude_edits_sound:
  "distinct (map er_EventID (sr_Edits (claudecode_emit project tool cutoff now line))) \<and>
   list_all edit_ok (sr_Edits (claudecode_emit project tool cutoff now line)) \<and>
   (sr_Usage (claudecode_emit project tool cutoff now line) = [] \<or>
    sr_Edits (claudecode_emit project tool cutoff now line) = [])"
proof -
  let ?es = "parseClaudeCodeEditLines line project tool cutoff now"
  have "distinct (map er_EventID ?es) \<and> (\<forall>e \<in> set ?es. edit_ok e)"
  proof (cases rule: edit_lines_cases [of line project tool cutoff now])
    case (bash raw fs)
    with bash_edits_ids [of "cc_edit raw project tool cutoff now" "rl_UUID raw" 0 fs]
    show ?thesis
      by (auto simp: bash_edits_distinct cc_edit_sel edit_ok_def)
  qed (auto simp: edit_ok_def cc_edit_sel)
  then show ?thesis by (auto simp: claudecode_emit_def list_all_iff split: option.splits)
qed

lemma claude_bash_example:
  "map (\<lambda>e. (er_EventID e, er_Lang e, er_LinesAdded e, er_LinesRemoved e))
     (sr_Edits (claudecode_emit ''p'' ''cc'' 0 0 cc_edit_line)) =
   [(''u#0'', ''golang'', 1, 1), (''u#1'', ''rust'', 0, 1)]"
  by code_simp

end
