(* ===== verification/Pi.thy ===== *)
theory Pi
  imports TailScan Lang
begin

text \<open>
  pi-agent transcripts (\<open>parsers/pi.go\<close>): the same tail scan around pi's own line shape.
  One assistant line can yield a usage record and edit records together.
\<close>

section \<open>Line shapes\<close>

record piUsage =
  pu_Input :: int
  pu_Output :: int
  pu_CacheRead :: int
  pu_CacheWrite :: int

record piBlock =
  pb_Type :: string
  pb_ID :: string
  pb_Name :: string
  pb_Arguments :: string

record piMessage =
  pm_Role :: string
  pm_Model :: string
  pm_ResponseID :: string
  pm_Usage :: "piUsage option"
  pm_Content :: "piBlock list"

record piLine =
  pl_Type :: string
  pl_ID :: string
  pl_Timestamp :: string
  pl_Message :: "piMessage option"

record piReplacement =
  px_OldText :: string
  px_NewText :: string

record piEditArgs =
  pe_Path :: string
  pe_Content :: string
  pe_Edits :: "piReplacement list"

definition zero_piLine :: piLine where
  "zero_piLine = \<lparr>pl_Type = [], pl_ID = [], pl_Timestamp = [], pl_Message = None\<rparr>"

definition zero_piEditArgs :: piEditArgs where
  "zero_piEditArgs = \<lparr>pe_Path = [], pe_Content = [], pe_Edits = []\<rparr>"

definition dec_piUsage :: "piUsage decoder" where
  "dec_piUsage = dec_struct
     [fld ''input'' dec_int64 pu_Input pu_Input_update,
      fld ''output'' dec_int64 pu_Output pu_Output_update,
      fld ''cacheRead'' dec_int64 pu_CacheRead pu_CacheRead_update,
      fld ''cacheWrite'' dec_int64 pu_CacheWrite pu_CacheWrite_update]"

definition dec_piBlock :: "piBlock decoder" where
  "dec_piBlock = dec_struct
     [fld ''type'' dec_string pb_Type pb_Type_update,
      fld ''id'' dec_string pb_ID pb_ID_update,
      fld ''name'' dec_string pb_Name pb_Name_update,
      fld ''arguments'' dec_raw pb_Arguments pb_Arguments_update]"

definition dec_piMessage :: "piMessage decoder" where
  "dec_piMessage = dec_struct
     [fld ''role'' dec_string pm_Role pm_Role_update,
      fld ''model'' dec_string pm_Model pm_Model_update,
      fld ''responseId'' dec_string pm_ResponseID pm_ResponseID_update,
      fld ''usage''
        (dec_ptr \<lparr>pu_Input = 0, pu_Output = 0, pu_CacheRead = 0, pu_CacheWrite = 0\<rparr> dec_piUsage)
        pm_Usage pm_Usage_update,
      fld ''content''
        (dec_slice \<lparr>pb_Type = [], pb_ID = [], pb_Name = [], pb_Arguments = []\<rparr> dec_piBlock)
        pm_Content pm_Content_update]"

definition dec_piLine :: "piLine decoder" where
  "dec_piLine = dec_struct
     [fld ''type'' dec_string pl_Type pl_Type_update,
      fld ''id'' dec_string pl_ID pl_ID_update,
      fld ''timestamp'' dec_string pl_Timestamp pl_Timestamp_update,
      fld ''message''
        (dec_ptr \<lparr>pm_Role = [], pm_Model = [], pm_ResponseID = [], pm_Usage = None, pm_Content = []\<rparr>
           dec_piMessage)
        pl_Message pl_Message_update]"

definition dec_piReplacement :: "piReplacement decoder" where
  "dec_piReplacement = dec_struct
     [fld ''oldText'' dec_string px_OldText px_OldText_update,
      fld ''newText'' dec_string px_NewText px_NewText_update]"

definition dec_piEditArgs :: "piEditArgs decoder" where
  "dec_piEditArgs = dec_struct
     [fld ''path'' dec_string pe_Path pe_Path_update,
      fld ''content'' dec_string pe_Content pe_Content_update,
      fld ''edits'' (dec_slice \<lparr>px_OldText = [], px_NewText = []\<rparr> dec_piReplacement)
        pe_Edits pe_Edits_update]"

section \<open>Usage records\<close>

definition parsePiUsageLine ::
    "string \<Rightarrow> string \<Rightarrow> string \<Rightarrow> string \<Rightarrow> duration \<Rightarrow> gotime \<Rightarrow> usage_record option" where
  "parsePiUsageLine line project tool sessionID cutoff now =
     (case unmarshal_ok dec_piLine line zero_piLine of
        None \<Rightarrow> None
      | Some raw \<Rightarrow>
          (case pl_Message raw of
             None \<Rightarrow> None
           | Some m \<Rightarrow>
               if pl_Type raw \<noteq> ''message'' \<or> pm_Role m \<noteq> ''assistant'' then None
               else (case pm_Usage m of
                  None \<Rightarrow> None
                | Some u \<Rightarrow>
                    if pl_ID raw = [] \<or> pm_Model m = [] then None
                    else
                      (let ts = stamp (pl_Timestamp raw) now in
                       Some \<lparr>ur_MessageID = ''pi_'' @ sessionID @ ''_'' @ pl_ID raw,
                         ur_RequestID = pm_ResponseID m, ur_SessionID = sessionID,
                         ur_Tool = tool, ur_Model = pm_Model m, ur_Timestamp = ts,
                         ur_InputTokens = pu_Input u, ur_OutputTokens = pu_Output u,
                         ur_CacheCreationTokens = pu_CacheWrite u, ur_CacheCreation1hTokens = 0,
                         ur_CacheReadTokens = pu_CacheRead u, ur_ProjectPath = project,
                         ur_Backfill = is_backfill cutoff now ts\<rparr>))))"

section \<open>Edit records\<close>

fun sum_replacements :: "piReplacement list \<Rightarrow> int \<Rightarrow> int \<Rightarrow> int \<times> int" where
  "sum_replacements [] added removed = (added, removed)"
| "sum_replacements (e # es) added removed =
     sum_replacements es (added + countLines (px_NewText e)) (removed + countLines (px_OldText e))"

text \<open>The body of the loop over the content blocks.\<close>

definition pi_block_edit ::
    "string \<Rightarrow> string \<Rightarrow> string \<Rightarrow> gotime \<Rightarrow> bool \<Rightarrow> piBlock \<Rightarrow> edit_record list" where
  "pi_block_edit project tool sessionID ts backfill b =
     (if pb_Type b \<noteq> ''toolCall'' \<or> pb_ID b = [] then []
      else if pb_Name b \<noteq> ''write'' \<and> pb_Name b \<noteq> ''edit'' then []
      else (case unmarshal_ok dec_piEditArgs (pb_Arguments b) zero_piEditArgs of
         None \<Rightarrow> []
       | Some args \<Rightarrow>
           if pe_Path args = [] then []
           else
             (let (added, removed) =
                (if pb_Name b = ''write'' then (countLines (pe_Content args), 0)
                 else sum_replacements (pe_Edits args) 0 0)
              in if added = 0 \<and> removed = 0 then []
                 else [\<lparr>er_EventID = pb_ID b, er_SessionID = sessionID, er_Tool = tool,
                        er_Timestamp = ts, er_Lang = langFromPath (pe_Path args),
                        er_LinesAdded = added, er_LinesRemoved = removed,
                        er_ProjectPath = project, er_Backfill = backfill\<rparr>])))"

definition parsePiEditLines ::
    "string \<Rightarrow> string \<Rightarrow> string \<Rightarrow> string \<Rightarrow> duration \<Rightarrow> gotime \<Rightarrow> edit_record list" where
  "parsePiEditLines line project tool sessionID cutoff now =
     (case unmarshal_ok dec_piLine line zero_piLine of
        None \<Rightarrow> []
      | Some raw \<Rightarrow>
          (case pl_Message raw of
             None \<Rightarrow> []
           | Some m \<Rightarrow>
               if pl_Type raw \<noteq> ''message'' \<or> pm_Role m \<noteq> ''assistant'' then []
               else
                 (let ts = stamp (pl_Timestamp raw) now
                  in concat (map (pi_block_edit project tool sessionID ts (is_backfill cutoff now ts))
                       (pm_Content m)))))"

section \<open>The scan\<close>

definition piSessionIDFromFilename :: "string \<Rightarrow> string" where
  "piSessionIDFromFilename name = after_last (CHR ''_'') (trim_suffix name ''.jsonl'')"

definition pi_emit ::
    "string \<Rightarrow> string \<Rightarrow> string \<Rightarrow> duration \<Rightarrow> gotime \<Rightarrow> string \<Rightarrow> scan_result" where
  "pi_emit project tool sessionID cutoff now line =
     \<lparr>sr_Usage = (case parsePiUsageLine line project tool sessionID cutoff now of
                   Some rec \<Rightarrow> [rec] | None \<Rightarrow> []),
      sr_Edits = parsePiEditLines line project tool sessionID cutoff now\<rparr>"

definition pi_Scan :: parser where
  "pi_Scan ob path tool prev cutoff now =
     tail_scan (pi_emit (project_from_path path) tool
       (piSessionIDFromFilename (path_base path)) cutoff now) ob prev"

section \<open>Facts\<close>

lemma sum_replacements_eq:
  "sum_replacements es a r =
     (a + (\<Sum>e\<leftarrow>es. countLines (px_NewText e)), r + (\<Sum>e\<leftarrow>es. countLines (px_OldText e)))"
  by (induction es arbitrary: a r) simp_all

lemma parsePiUsageLine_body:
  "map_option usage_body (parsePiUsageLine line project tool sid cutoff now) =
   map_option usage_body (parsePiUsageLine line project tool sid cutoff now')"
  by (simp add: parsePiUsageLine_def usage_body_def Let_def split: option.split)

lemma pi_block_edit_body:
  "map edit_body (pi_block_edit project tool sid ts bf b) =
   map edit_body (pi_block_edit project tool sid epoch False b)"
  by (simp add: pi_block_edit_def edit_body_def Let_def split: option.split prod.split)

lemma parsePiEditLines_body:
  "map edit_body (parsePiEditLines line project tool sid cutoff now) =
   (case unmarshal_ok dec_piLine line zero_piLine of
      None \<Rightarrow> []
    | Some raw \<Rightarrow> (case pl_Message raw of
         None \<Rightarrow> []
       | Some m \<Rightarrow>
           if pl_Type raw \<noteq> ''message'' \<or> pm_Role m \<noteq> ''assistant'' then []
           else concat (map (\<lambda>b. map edit_body (pi_block_edit project tool sid epoch False b))
                  (pm_Content m))))"
  unfolding parsePiEditLines_def Let_def map_concat
  by (simp add: map_concat pi_block_edit_body [of _ _ _ "stamp _ _"] comp_def
      split: option.split)

lemma pi_emit_body:
  "same_bodies (pi_emit project tool sid cutoff now line) (pi_emit project tool sid cutoff now' line)"
  using parsePiUsageLine_body [of line project tool sid cutoff now now']
  by (cases "parsePiUsageLine line project tool sid cutoff now";
      cases "parsePiUsageLine line project tool sid cutoff now'")
    (auto simp: pi_emit_def same_bodies_def parsePiEditLines_body)

section \<open>The interface\<close>

interpretation pi: tail_source
  "\<lambda>now ob prev. pi_Scan ob path tool prev cutoff now"
  "pi_emit (project_from_path path) tool (piSessionIDFromFilename (path_base path)) cutoff"
  tail_saved
  for path tool cutoff
  unfolding pi_Scan_def by (rule tail_scan_source)

section \<open>Properties\<close>

text \<open>
  Exactly once, for pi transcripts: after ticks with failures and lost uploads, a last
  good tick leaves the records of one pass over the complete lines of the file.
\<close>

theorem pi_exactly_once:
  assumes "growing ino [] (map tk_obs (ts @ [t]))"
    and "run_ticks (\<lambda>now ob prev. pi_Scan ob path tool prev cutoff now)
           zero_file_state empty_result (ts @ [t]) = (acc, st)"
    and "fo_stat (tk_obs t) = Some (ino, int (length (fo_data (tk_obs t))))"
    and "fo_opens (tk_obs t)" "\<not> fo_read_fails (tk_obs t)" "tk_durable t"
  shows "same_bodies acc (concat_results
           (map (pi_emit (project_from_path path) tool (piSessionIDFromFilename (path_base path))
                   cutoff epoch)
              (complete_lines (fo_data (tk_obs t)))))"
proof (rule emitted_same_bodies [OF pi_emit_body pi.run_ticks_caught_up [OF assms(1-3) _ assms(6)]])
  show "snd (snd (pi_Scan (tk_obs t) path tool st cutoff (tk_now t))) = None"
    if "tail_saved st ino off" "0 \<le> off" for st off
    using tail_scan_succeeds [OF assms(3-5) that] by (simp add: pi_Scan_def)
qed

text \<open>One line whose message holds usage and an edit call.\<close>

definition pi_line :: string where
  "pi_line = jq (''{~type~:~message~,~id~:~a1~,~message~:{~role~:~assistant~,~model~:~m~,'' @
     ''~usage~:{~input~:3},~content~:[{~type~:~toolCall~,~id~:~c1~,~name~:~write~,'' @
     ''~arguments~:{~path~:~x.go~,~content~:~p~}}]}}'') @ [nl]"

definition pi_tick :: "bool \<Rightarrow> tick" where
  "pi_tick durable =
     \<lparr>tk_obs = \<lparr>fo_stat = Some (7, int (length pi_line)), fo_opens = True, fo_data = pi_line,
        fo_read_fails = False\<rparr>,
      tk_now = 1782900002000000000, tk_durable = durable\<rparr>"

theorem pi_exactly_once_witness:
  "\<exists>acc st. run_ticks (\<lambda>now ob prev. pi_Scan ob ''/p/t_s9.jsonl'' ''pi'' prev 0 now)
       zero_file_state empty_result [pi_tick False, pi_tick True] = (acc, st) \<and>
     map ur_MessageID (sr_Usage acc) = [''pi_s9_a1''] \<and>
     same_bodies acc (concat_results (map (pi_emit (project_from_path ''/p/t_s9.jsonl'') ''pi''
       (piSessionIDFromFilename (path_base ''/p/t_s9.jsonl'')) 0 epoch)
       (complete_lines (fo_data (tk_obs (pi_tick True))))))"
proof -
  let ?run = "run_ticks (\<lambda>now ob prev. pi_Scan ob ''/p/t_s9.jsonl'' ''pi'' prev 0 now)
       zero_file_state empty_result ([pi_tick False] @ [pi_tick True])"
  obtain acc st where r: "?run = (acc, st)" by force
  have "growing 7 [] (map tk_obs ([pi_tick False] @ [pi_tick True]))"
    "fo_stat (tk_obs (pi_tick True)) = Some (7, int (length (fo_data (tk_obs (pi_tick True)))))"
    "fo_opens (tk_obs (pi_tick True))" "\<not> fo_read_fails (tk_obs (pi_tick True))"
    "tk_durable (pi_tick True)"
    by code_simp+
  note pi_exactly_once [OF this(1) r this(2-5)]
  moreover have "map ur_MessageID (sr_Usage (fst ?run)) = [''pi_s9_a1'']" by code_simp
  ultimately show ?thesis using r by auto
qed

text \<open>Two lines of one session with different ids never share a message id.\<close>

lemma pi_message_ids:
  assumes "unmarshal_ok dec_piLine line1 zero_piLine = Some raw1" "pl_ID raw1 \<noteq> pl_ID raw2"
    and "unmarshal_ok dec_piLine line2 zero_piLine = Some raw2"
    and "parsePiUsageLine line1 project tool sid cutoff now = Some r1"
    and "parsePiUsageLine line2 project tool sid cutoff now = Some r2"
  shows "ur_MessageID r1 \<noteq> ur_MessageID r2"
  using assms by (auto simp: parsePiUsageLine_def Let_def split: option.splits if_splits)

end
