(* ===== verification/Codex.thy ===== *)
theory Codex
  imports TailScan Lang
begin

text \<open>
  OpenAI codex rollouts (\<open>parsers/codex.go\<close>, also used for astron-code): the whole file
  is parsed again whenever it changes. Token usage arrives as running totals and is turned
  into deltas; edits arrive as patches in several shapes and only count once their output
  line confirms them.
\<close>

section \<open>Line shapes\<close>

record codexLine =
  cl_Timestamp :: string
  cl_Type :: string
  cl_Payload :: string

record codexTokens =
  ct_InputTokens :: int
  ct_CachedInputTokens :: int
  ct_OutputTokens :: int
  ct_ReasoningOutputTokens :: int

record codexInfo =
  cn_TotalTokenUsage :: "codexTokens option"

record codexTokenCount =
  cc_Type :: string
  cc_Info :: "codexInfo option"

record codexFilePatch =
  fp_path :: string
  fp_added :: int
  fp_removed :: int

record codexPatchCall =
  pc_callID :: string
  pc_ts :: string
  pc_files :: "codexFilePatch list"

record codexToolCall =
  tc_Type :: string
  tc_CallID :: string
  tc_Name :: string
  tc_Input :: string
  tc_Output :: string

record codexChange =
  ch_Type :: string
  ch_Content :: string
  ch_UnifiedDiff :: string
  ch_MovePath :: "string option"

record codexPatchApplyEnd =
  pa_CallID :: string
  pa_Success :: bool
  pa_Changes :: "(string \<times> codexChange) list"

definition zero_codexTokens :: codexTokens where
  "zero_codexTokens = \<lparr>ct_InputTokens = 0, ct_CachedInputTokens = 0, ct_OutputTokens = 0,
     ct_ReasoningOutputTokens = 0\<rparr>"

definition zero_codexLine :: codexLine where
  "zero_codexLine = \<lparr>cl_Timestamp = [], cl_Type = [], cl_Payload = []\<rparr>"

definition zero_codexToolCall :: codexToolCall where
  "zero_codexToolCall = \<lparr>tc_Type = [], tc_CallID = [], tc_Name = [], tc_Input = [], tc_Output = []\<rparr>"

definition dec_codexLine :: "codexLine decoder" where
  "dec_codexLine = dec_struct
     [fld ''timestamp'' dec_string cl_Timestamp cl_Timestamp_update,
      fld ''type'' dec_string cl_Type cl_Type_update,
      fld ''payload'' dec_raw cl_Payload cl_Payload_update]"

text \<open>The one field of \<open>codexSessionMeta\<close> and of \<open>codexTurnContext\<close>.\<close>

definition dec_one :: "string \<Rightarrow> string decoder" where
  "dec_one name = dec_struct [fld name dec_string (\<lambda>s. s) (\<lambda>f s. f s)]"

definition dec_codexTokens :: "codexTokens decoder" where
  "dec_codexTokens = dec_struct
     [fld ''input_tokens'' dec_int64 ct_InputTokens ct_InputTokens_update,
      fld ''cached_input_tokens'' dec_int64 ct_CachedInputTokens ct_CachedInputTokens_update,
      fld ''output_tokens'' dec_int64 ct_OutputTokens ct_OutputTokens_update,
      fld ''reasoning_output_tokens'' dec_int64
        ct_ReasoningOutputTokens ct_ReasoningOutputTokens_update]"

definition dec_codexTokenCount :: "codexTokenCount decoder" where
  "dec_codexTokenCount = dec_struct
     [fld ''type'' dec_string cc_Type cc_Type_update,
      fld ''info'' (dec_ptr \<lparr>cn_TotalTokenUsage = None\<rparr>
          (dec_struct [fld ''total_token_usage'' (dec_ptr zero_codexTokens dec_codexTokens)
             cn_TotalTokenUsage cn_TotalTokenUsage_update]))
        cc_Info cc_Info_update]"

definition dec_codexToolCall :: "codexToolCall decoder" where
  "dec_codexToolCall = dec_struct
     [fld ''type'' dec_string tc_Type tc_Type_update,
      fld ''call_id'' dec_string tc_CallID tc_CallID_update,
      fld ''name'' dec_string tc_Name tc_Name_update,
      fld ''input'' dec_string tc_Input tc_Input_update,
      fld ''output'' dec_raw tc_Output tc_Output_update]"

definition dec_codexChange :: "codexChange decoder" where
  "dec_codexChange = dec_struct
     [fld ''type'' dec_string ch_Type ch_Type_update,
      fld ''content'' dec_string ch_Content ch_Content_update,
      fld ''unified_diff'' dec_string ch_UnifiedDiff ch_UnifiedDiff_update,
      fld ''move_path'' (dec_ptr [] dec_string) ch_MovePath ch_MovePath_update]"

definition dec_codexPatchApplyEnd :: "codexPatchApplyEnd decoder" where
  "dec_codexPatchApplyEnd = dec_struct
     [fld ''call_id'' dec_string pa_CallID pa_CallID_update,
      fld ''success'' dec_bool pa_Success pa_Success_update,
      fld ''changes''
        (dec_map \<lparr>ch_Type = [], ch_Content = [], ch_UnifiedDiff = [], ch_MovePath = None\<rparr>
           dec_codexChange)
        pa_Changes pa_Changes_update]"

section \<open>Patches\<close>

lemma index_of_shorter:
  "index_of s p = Some i \<Longrightarrow> 0 < length p \<Longrightarrow> length s - (i + length p) < length s"
  using index_of_Some [of s p i] by (cases "length s = 0") (auto intro: diff_less)


text \<open>
  \<open>decodeEscape\<close> on the text from the backslash on: what the escape stands for and how
  many bytes it took. The last case is Go's conversion of a byte to a string, which
  encodes it as a rune.
\<close>

definition decodeEscape :: "string \<Rightarrow> string \<times> nat" where
  "decodeEscape s =
     (case s of
        _ # c # r \<Rightarrow>
          if c = CHR ''n'' then ([nl], 2)
          else if c = CHR ''t'' then ([CHR 0x09], 2)
          else if c = CHR ''r'' then ([CHR 0x0D], 2)
          else if c = CHR ''u'' then
            (case r of
               w # x # y # z # _ \<Rightarrow>
                 (case hex4 w x y z of Some v \<Rightarrow> (utf8_encode v, 6) | None \<Rightarrow> (''u'', 2))
             | _ \<Rightarrow> (''u'', 2))
          else (utf8_encode (byte_of c), 2)
      | _ \<Rightarrow> ([bslash], 1))"

lemma decodeEscape_pos: "(tx, k) = decodeEscape s \<Longrightarrow> 0 < k"
  by (auto simp: decodeEscape_def split: list.splits option.splits if_splits)

function unescapeJS :: "string \<Rightarrow> string" where
  "unescapeJS [] = []"
| "unescapeJS (c # cs) =
     (if c = bslash then
        (let (text, k) = decodeEscape (c # cs) in text @ unescapeJS (drop k (c # cs)))
      else c # unescapeJS cs)"
  by pat_completeness auto
termination
proof (relation "measure length", goal_cases)
  case (2 c cs x tx k)
  then have "0 < k" using decodeEscape_pos by blast
  then show ?case by simp
qed simp_all

text \<open>The loop of \<open>jsStringLiteral\<close> after the opening quote, with the count of bytes read.\<close>

function js_body :: "char \<Rightarrow> string \<Rightarrow> string \<Rightarrow> nat \<Rightarrow> string \<times> nat" where
  "js_body q [] acc n = ([], 0)"
| "js_body q (c # cs) acc n =
     (if c = bslash then
        (let (text, k) = decodeEscape (c # cs) in js_body q (drop k (c # cs)) (acc @ text) (n + k))
      else if c = q then (acc, n + 1)
      else js_body q cs (acc @ [c]) (n + 1))"
  by pat_completeness auto
termination
proof (relation "measure (\<lambda>(_, s, _, _). length s)", goal_cases)
  case (2 q c cs acc n x tx k)
  then have "0 < k" using decodeEscape_pos by blast
  then show ?case by simp
qed simp_all

declare js_body.simps(2) [simp del] unescapeJS.simps(2) [simp del]

definition is_js_space :: "char \<Rightarrow> bool" where
  "is_js_space c \<longleftrightarrow> c \<in> {CHR '' '', CHR 0x09, CHR 0x0A, CHR 0x0D}"

definition is_js_quote :: "char \<Rightarrow> bool" where
  "is_js_quote c \<longleftrightarrow> c \<in> {dquote, CHR 0x27, CHR 0x60}"

definition jsStringLiteral :: "string \<Rightarrow> string \<times> nat" where
  "jsStringLiteral s =
     (case dropWhile is_js_space s of
        [] \<Rightarrow> ([], 0)
      | q # r \<Rightarrow>
          if \<not> is_js_quote q then ([], 0)
          else js_body q r [] (length (takeWhile is_js_space s) + 1))"

definition beginPatchMarker :: string where "beginPatchMarker = ''*** Begin Patch''"
definition applyPatchCall :: string where "applyPatchCall = ''tools.apply_patch(''"

lemma applyPatchCall_pos: "0 < length applyPatchCall"
  by (simp add: applyPatchCall_def)

function envelope_loop :: "string \<Rightarrow> string list \<Rightarrow> string list" where
  "envelope_loop rest out =
     (case index_of rest applyPatchCall of
        None \<Rightarrow> out
      | Some i \<Rightarrow>
          (let rest = drop (i + length applyPatchCall) rest;
               (arg, n) = jsStringLiteral rest
           in if 0 < n then
                envelope_loop (drop n rest)
                  (if contains arg beginPatchMarker then out @ [arg] else out)
              else envelope_loop rest out))"
  by pat_completeness auto
termination
proof (relation "measure (\<lambda>(rest, _). length rest)", goal_cases)
  case (2 rest out i rest' x arg n)
  with index_of_shorter [OF 2(1) applyPatchCall_pos] have "length (drop n rest') < length rest"
    by (metis diff_le_self le_less_trans length_drop)
  then show ?case by simp
next
  case (3 rest out i rest' x arg n)
  with index_of_shorter [OF 3(1) applyPatchCall_pos] show ?case by simp
qed simp

declare envelope_loop.simps [simp del]

definition codexPatchEnvelopes :: "string \<Rightarrow> string \<Rightarrow> string list" where
  "codexPatchEnvelopes name input =
     (if name = ''apply_patch'' then [input]
      else if \<not> contains input ''Begin Patch'' then []
      else
        (let out = envelope_loop input [] in
         if out \<noteq> [] then out
         else (let u = unescapeJS input in if contains u beginPatchMarker then [u] else [])))"

text \<open>
  One line of \<open>parseApplyPatch\<close>: the sections found so far and the index of the one that
  is open, \<open>-1\<close> outside.
\<close>

definition patch_line :: "codexFilePatch list \<times> int \<Rightarrow> string \<Rightarrow> codexFilePatch list \<times> int" where
  "patch_line = (\<lambda>(out, cur) l.
     if has_prefix l ''*** Update File: '' \<or> has_prefix l ''*** Add File: '' then
       (case index_of l '': '' of
          Some i \<Rightarrow>
            (out @ [\<lparr>fp_path = trim_space (drop (i + 2) l), fp_added = 0, fp_removed = 0\<rparr>],
             int (length out))
        | None \<Rightarrow> (out, cur))
     else if has_prefix l ''*** '' then (out, - 1)
     else if 0 \<le> cur \<and> has_prefix l ''+'' then
       (out[nat cur := (out ! nat cur)\<lparr>fp_added := fp_added (out ! nat cur) + 1\<rparr>], cur)
     else if 0 \<le> cur \<and> has_prefix l ''-'' then
       (out[nat cur := (out ! nat cur)\<lparr>fp_removed := fp_removed (out ! nat cur) + 1\<rparr>], cur)
     else (out, cur))"

definition parseApplyPatch :: "string \<Rightarrow> codexFilePatch list" where
  "parseApplyPatch input = fst (foldl patch_line ([], - 1) (split_on nl input))"

section \<open>Whether a call succeeded\<close>

definition codexOutputText :: "string \<Rightarrow> string" where
  "codexOutputText raw =
     (if raw = [] then []
      else case unmarshal_ok dec_string raw [] of
        Some s \<Rightarrow> s
      | None \<Rightarrow>
          (case unmarshal_ok (dec_slice [] (dec_one ''text'')) raw [] of
             Some parts \<Rightarrow> concat (map (\<lambda>p. p @ [nl]) parts)
           | None \<Rightarrow> raw))"

definition exit_key :: string where "exit_key = [dquote] @ ''exit_code'' @ [dquote]"

lemma exit_key_pos: "0 < length exit_key"
  by (simp add: exit_key_def)

function exit_loop :: "string \<Rightarrow> int option \<Rightarrow> int option" where
  "exit_loop s found =
     (case index_of s exit_key of
        None \<Rightarrow> found
      | Some j \<Rightarrow>
          (let r = dropWhile (\<lambda>c. c = CHR '' '' \<or> c = CHR '':'') (drop (j + length exit_key) s);
               ds = takeWhile is_digit r
           in exit_loop r (if ds \<noteq> [] \<and> in_i64 (dec_val ds) then Some (dec_val ds) else found)))"
  by pat_completeness auto
termination
proof (relation "measure (\<lambda>(s, _). length s)", goal_cases)
  case (2 s found j r ds)
  have "length r \<le> length s - (j + length exit_key)"
    using length_dropWhile_le [of "\<lambda>c. c = CHR '' '' \<or> c = CHR '':''" "drop (j + length exit_key) s"]
    by (simp add: 2(2))
  with index_of_shorter [OF 2(1) exit_key_pos] show ?case by simp
qed simp

declare exit_loop.simps [simp del]

definition lastExitCode :: "string \<Rightarrow> int option" where
  "lastExitCode s = exit_loop s None"

record codexOutput =
  co_Output :: string
  co_ExitCode :: "int option"

text \<open>The anonymous struct of \<open>codexOutputSucceeded\<close>, its nested \<open>metadata\<close> flattened.\<close>

definition dec_codexOutput :: "codexOutput decoder" where
  "dec_codexOutput = dec_struct
     [fld ''output'' dec_string co_Output co_Output_update,
      fld ''metadata''
        (dec_struct [fld ''exit_code'' (dec_ptr 0 dec_int64) (\<lambda>x. x) (\<lambda>f x. f x)])
        co_ExitCode co_ExitCode_update]"

definition codexOutputSucceeded :: "string \<Rightarrow> bool" where
  "codexOutputSucceeded output =
     (let fallback = (case lastExitCode output of
                        Some code \<Rightarrow> code = 0 | None \<Rightarrow> has_prefix output ''Success'')
      in case unmarshal_ok dec_codexOutput output \<lparr>co_Output = [], co_ExitCode = None\<rparr> of
           None \<Rightarrow> fallback
         | Some parsed \<Rightarrow>
             (case co_ExitCode parsed of
                Some code \<Rightarrow> code = 0
              | None \<Rightarrow> if co_Output parsed \<noteq> [] then has_prefix (co_Output parsed) ''Success''
                        else fallback))"

section \<open>The parse state\<close>

record codexScanState =
  cs_sessionID :: string
  cs_model :: string
  cs_project :: string
  cs_prev :: codexTokens
  cs_usage :: "usage_record list"
  cs_patches :: "codexPatchCall list"
  cs_patchOK :: "string set"

text \<open>One changed file of a \<open>patch_apply_end\<close>, in the order of the sorted paths.\<close>

definition change_patch :: "string \<Rightarrow> codexChange \<Rightarrow> codexFilePatch list" where
  "change_patch p c =
     (if ch_Type c = ''add'' then
        [\<lparr>fp_path = p, fp_added = int (count_list (trim_suffix (ch_Content c) [nl]) nl) + 1,
          fp_removed = 0\<rparr>]
      else if ch_Type c = ''update'' then
        (let (a, r) = diffLineCounts (split_on nl (ch_UnifiedDiff c)) in
         [\<lparr>fp_path = (case ch_MovePath c of Some m \<Rightarrow> if m \<noteq> [] then m else p | None \<Rightarrow> p),
           fp_added = a, fp_removed = r\<rparr>])
      else [])"

definition change_patches :: "(string \<times> codexChange) list \<Rightarrow> codexFilePatch list" where
  "change_patches changes =
     concat (map (\<lambda>p. case map_of changes p of Some c \<Rightarrow> change_patch p c | None \<Rightarrow> [])
       (sort (map fst changes)))"

definition addPatchApplyEnd :: "codexLine \<Rightarrow> codexScanState \<Rightarrow> codexScanState" where
  "addPatchApplyEnd l st =
     (case unmarshal_ok dec_codexPatchApplyEnd (cl_Payload l)
             \<lparr>pa_CallID = [], pa_Success = False, pa_Changes = []\<rparr> of
        None \<Rightarrow> st
      | Some ev \<Rightarrow>
          if \<not> pa_Success ev \<or> pa_CallID ev = [] then st
          else if list_ex (\<lambda>p. pc_callID p = pa_CallID ev) (cs_patches st) then st
          else
            (let files = change_patches (pa_Changes ev) in
             if files \<noteq> [] then
               st\<lparr>cs_patches := cs_patches st @
                    [\<lparr>pc_callID = pa_CallID ev, pc_ts = cl_Timestamp l, pc_files = files\<rparr>],
                  cs_patchOK := insert (pa_CallID ev) (cs_patchOK st)\<rparr>
             else st))"

text \<open>
  The deltas of one event against the totals before it: uncached input, output and cached
  input, or \<open>None\<close> when nothing grew.
\<close>

definition token_delta :: "codexTokens \<Rightarrow> codexTokens \<Rightarrow> (int \<times> int \<times> int) option" where
  "token_delta prev t =
     (let dIn = i64 (ct_InputTokens t - ct_InputTokens prev);
          dOut = i64 (ct_OutputTokens t - ct_OutputTokens prev);
          dCache = i64 (ct_CachedInputTokens t - ct_CachedInputTokens prev);
          dReason = i64 (ct_ReasoningOutputTokens t - ct_ReasoningOutputTokens prev)
      in if dIn \<le> 0 \<and> dOut \<le> 0 \<and> dCache \<le> 0 \<and> dReason \<le> 0 then None
         else
           (let dIn = (if dIn < 0 then 0 else dIn);
                dOut = (if dOut < 0 then 0 else dOut);
                dCache = (if dCache < 0 then 0 else dCache);
                dUncached = i64 (dIn - dCache)
            in Some (if dUncached < 0 then 0 else dUncached, dOut, dCache)))"

definition add_token_count ::
    "codexLine \<Rightarrow> codexTokens \<Rightarrow> string \<Rightarrow> duration \<Rightarrow> gotime \<Rightarrow> codexScanState \<Rightarrow> codexScanState" where
  "add_token_count l t tool cutoff now st =
     (case token_delta (cs_prev st) t of
        None \<Rightarrow> st
      | Some (dUncached, dOut, dCache) \<Rightarrow>
          (let ts = stamp (cl_Timestamp l) now in
           st\<lparr>cs_prev := t,
              cs_usage := cs_usage st @
                [\<lparr>ur_MessageID = ''cdx_'' @ cs_sessionID st @ ''_'' @ cl_Timestamp l,
                  ur_RequestID = [], ur_SessionID = cs_sessionID st, ur_Tool = tool,
                  ur_Model = cs_model st, ur_Timestamp = ts, ur_InputTokens = dUncached,
                  ur_OutputTokens = dOut, ur_CacheCreationTokens = 0,
                  ur_CacheCreation1hTokens = 0, ur_CacheReadTokens = dCache,
                  ur_ProjectPath = cs_project st,
                  ur_Backfill = is_backfill cutoff now ts\<rparr>]\<rparr>))"

definition add_tool_call :: "codexLine \<Rightarrow> codexScanState \<Rightarrow> codexScanState" where
  "add_tool_call l st =
     (case unmarshal_ok dec_codexToolCall (cl_Payload l) zero_codexToolCall of
        None \<Rightarrow> st
      | Some call \<Rightarrow>
          if tc_Type call = ''custom_tool_call'' then
            (if tc_CallID call = [] then st
             else
               (let files = concat (map parseApplyPatch
                      (codexPatchEnvelopes (tc_Name call) (tc_Input call)))
                in if files \<noteq> [] then
                     st\<lparr>cs_patches := cs_patches st @
                       [\<lparr>pc_callID = tc_CallID call, pc_ts = cl_Timestamp l, pc_files = files\<rparr>]\<rparr>
                   else st))
          else if tc_Type call = ''custom_tool_call_output'' then
            (if tc_CallID call \<noteq> [] \<and> codexOutputSucceeded (codexOutputText (tc_Output call))
             then st\<lparr>cs_patchOK := insert (tc_CallID call) (cs_patchOK st)\<rparr> else st)
          else st)"

definition add_event ::
    "codexLine \<Rightarrow> string \<Rightarrow> duration \<Rightarrow> gotime \<Rightarrow> codexScanState \<Rightarrow> codexScanState" where
  "add_event l tool cutoff now st =
     (case unmarshal_ok dec_codexTokenCount (cl_Payload l) \<lparr>cc_Type = [], cc_Info = None\<rparr> of
        None \<Rightarrow> st
      | Some tc \<Rightarrow>
          if cc_Type tc = ''patch_apply_end'' then addPatchApplyEnd l st
          else if cc_Type tc \<noteq> ''token_count'' then st
          else (case cc_Info tc of
             None \<Rightarrow> st
           | Some info \<Rightarrow>
               (case cn_TotalTokenUsage info of
                  None \<Rightarrow> st
                | Some t \<Rightarrow> add_token_count l t tool cutoff now st)))"

definition emitCodexLine ::
    "string \<Rightarrow> string \<Rightarrow> duration \<Rightarrow> gotime \<Rightarrow> codexScanState \<Rightarrow> codexScanState" where
  "emitCodexLine line tool cutoff now st =
     (case unmarshal_ok dec_codexLine line zero_codexLine of
        None \<Rightarrow> st
      | Some l \<Rightarrow>
          if cl_Type l = ''session_meta'' then
            (if cs_sessionID st = [] then
               (case unmarshal_ok (dec_one ''id'') (cl_Payload l) [] of
                  Some i \<Rightarrow> st\<lparr>cs_sessionID := i\<rparr> | None \<Rightarrow> st)
             else st)
          else if cl_Type l = ''turn_context'' then
            (case unmarshal_ok (dec_one ''model'') (cl_Payload l) [] of
               Some m \<Rightarrow> if m \<noteq> [] then st\<lparr>cs_model := m\<rparr> else st | None \<Rightarrow> st)
          else if cl_Type l = ''response_item'' then add_tool_call l st
          else if cl_Type l = ''event_msg'' then add_event l tool cutoff now st
          else st)"

section \<open>The result and the scan\<close>

definition patch_edits ::
    "string \<Rightarrow> string \<Rightarrow> string \<Rightarrow> duration \<Rightarrow> gotime \<Rightarrow> codexPatchCall \<Rightarrow> edit_record list" where
  "patch_edits sessionID project tool cutoff now p =
     (let ts = stamp (pc_ts p) now in
      map (\<lambda>(i, fp). \<lparr>er_EventID = pc_callID p @ ''#'' @ nat_str i, er_SessionID = sessionID,
             er_Tool = tool, er_Timestamp = ts, er_Lang = langFromPath (fp_path fp),
             er_LinesAdded = fp_added fp, er_LinesRemoved = fp_removed fp,
             er_ProjectPath = project, er_Backfill = is_backfill cutoff now ts\<rparr>)
        (enumerate 0 (pc_files p)))"

definition codex_result :: "codexScanState \<Rightarrow> string \<Rightarrow> duration \<Rightarrow> gotime \<Rightarrow> scan_result" where
  "codex_result st tool cutoff now =
     \<lparr>sr_Usage = cs_usage st,
      sr_Edits = concat (map (\<lambda>p. if pc_callID p \<in> cs_patchOK st
          then patch_edits (cs_sessionID st) (cs_project st) tool cutoff now p else [])
        (cs_patches st))\<rparr>"

definition sessionIDFromFilename :: "string \<Rightarrow> string" where
  "sessionIDFromFilename name =
     (let base = trim_suffix name ''.jsonl'';
          parts = split_on (CHR ''-'') base
      in if length parts < 5 then base else join ''-'' (drop (length parts - 5) parts))"

definition codex_start :: "string \<Rightarrow> codexScanState" where
  "codex_start path =
     \<lparr>cs_sessionID = sessionIDFromFilename (path_base path), cs_model = [],
      cs_project = project_from_path path, cs_prev = zero_codexTokens, cs_usage = [],
      cs_patches = [], cs_patchOK = {}\<rparr>"

definition codex_run ::
    "string \<Rightarrow> duration \<Rightarrow> gotime \<Rightarrow> string list \<Rightarrow> codexScanState \<Rightarrow> codexScanState" where
  "codex_run tool cutoff now lns st = fold (\<lambda>ln. emitCodexLine ln tool cutoff now) lns st"

definition parseCodexFile ::
    "file_obs \<Rightarrow> string \<Rightarrow> string \<Rightarrow> duration \<Rightarrow> gotime \<Rightarrow> scan_result \<times> scan_error option" where
  "parseCodexFile ob path tool cutoff now =
     (if \<not> fo_opens ob then (empty_result, Some OpenError)
      else
        (codex_result (codex_run tool cutoff now (all_lines (fo_data ob)) (codex_start path))
           tool cutoff now,
         if fo_read_fails ob then Some ReadError else None))"

definition codex_Scan :: parser where
  "codex_Scan ob path tool prev cutoff now =
     (case fo_stat ob of
        None \<Rightarrow> (empty_result, zero_file_state, Some StatError)
      | Some (inode, sz) \<Rightarrow>
          if fs_Inode prev = inode \<and> fs_Offset prev = sz
          then (empty_result, \<lparr>fs_Inode = inode, fs_Offset = sz\<rparr>, None)
          else
            (let (res, err) = parseCodexFile ob path tool cutoff now
             in (res, \<lparr>fs_Inode = inode, fs_Offset = sz\<rparr>, err)))"

section \<open>Token totals\<close>

text \<open>The running total a line reports, when it reports one.\<close>

definition line_tokens :: "string \<Rightarrow> codexTokens option" where
  "line_tokens line =
     (case unmarshal_ok dec_codexLine line zero_codexLine of
        None \<Rightarrow> None
      | Some l \<Rightarrow>
          if cl_Type l \<noteq> ''event_msg'' then None
          else (case unmarshal_ok dec_codexTokenCount (cl_Payload l) \<lparr>cc_Type = [], cc_Info = None\<rparr> of
             None \<Rightarrow> None
           | Some tc \<Rightarrow>
               if cc_Type tc \<noteq> ''token_count'' then None
               else (case cc_Info tc of None \<Rightarrow> None | Some info \<Rightarrow> cn_TotalTokenUsage info)))"

lemma addPatchApplyEnd_keeps [simp]:
  "cs_prev (addPatchApplyEnd l st) = cs_prev st" "cs_usage (addPatchApplyEnd l st) = cs_usage st"
  "cs_sessionID (addPatchApplyEnd l st) = cs_sessionID st"
  "cs_project (addPatchApplyEnd l st) = cs_project st"
  by (simp_all add: addPatchApplyEnd_def Let_def split: option.split)

lemma add_tool_call_keeps [simp]:
  "cs_prev (add_tool_call l st) = cs_prev st" "cs_usage (add_tool_call l st) = cs_usage st"
  "cs_sessionID (add_tool_call l st) = cs_sessionID st"
  "cs_project (add_tool_call l st) = cs_project st"
  by (simp_all add: add_tool_call_def Let_def split: option.split)

lemma add_token_count_keeps [simp]:
  "cs_sessionID (add_token_count l t tool cutoff now st) = cs_sessionID st"
  "cs_project (add_token_count l t tool cutoff now st) = cs_project st"
  "cs_patches (add_token_count l t tool cutoff now st) = cs_patches st"
  "cs_patchOK (add_token_count l t tool cutoff now st) = cs_patchOK st"
  by (auto simp: add_token_count_def Let_def split: option.split)

lemma emitCodexLine_tokens:
  "(\<exists>l t. line_tokens line = Some t \<and>
      emitCodexLine line tool cutoff now st = add_token_count l t tool cutoff now st) \<or>
   line_tokens line = None \<and>
     cs_prev (emitCodexLine line tool cutoff now st) = cs_prev st \<and>
     cs_usage (emitCodexLine line tool cutoff now st) = cs_usage st"
proof (cases "unmarshal_ok dec_codexLine line zero_codexLine")
  case (Some l)
  then show ?thesis
    by (cases "cl_Type l = ''event_msg''")
      (auto simp: line_tokens_def emitCodexLine_def add_event_def split: option.split)
qed (simp add: line_tokens_def emitCodexLine_def)

lemma tokens_cases:
  obtains (count) l t where "line_tokens line = Some t"
    "emitCodexLine line tool cutoff now st = add_token_count l t tool cutoff now st"
  | (other) "line_tokens line = None"
    "cs_prev (emitCodexLine line tool cutoff now st) = cs_prev st"
    "cs_usage (emitCodexLine line tool cutoff now st) = cs_usage st"
  using emitCodexLine_tokens [of line tool cutoff now st] by metis

text \<open>
  Totals that only grow: every count is a nonnegative 64-bit value at least the one before,
  and the cached input grows by at most what the input grows by.
\<close>

definition tokens_step :: "codexTokens \<Rightarrow> codexTokens \<Rightarrow> bool" where
  "tokens_step p t \<longleftrightarrow>
     0 \<le> ct_InputTokens p \<and> ct_InputTokens p \<le> ct_InputTokens t \<and> in_i64 (ct_InputTokens t) \<and>
     0 \<le> ct_OutputTokens p \<and> ct_OutputTokens p \<le> ct_OutputTokens t \<and> in_i64 (ct_OutputTokens t) \<and>
     0 \<le> ct_CachedInputTokens p \<and> ct_CachedInputTokens p \<le> ct_CachedInputTokens t \<and>
     in_i64 (ct_CachedInputTokens t) \<and>
     0 \<le> ct_ReasoningOutputTokens p \<and>
     ct_ReasoningOutputTokens p \<le> ct_ReasoningOutputTokens t \<and>
     in_i64 (ct_ReasoningOutputTokens t) \<and>
     ct_CachedInputTokens t - ct_CachedInputTokens p \<le> ct_InputTokens t - ct_InputTokens p"

fun totals_grow :: "codexTokens \<Rightarrow> codexTokens list \<Rightarrow> bool" where
  "totals_grow p [] = True"
| "totals_grow p (t # ts) \<longleftrightarrow> tokens_step p t \<and> totals_grow t ts"

lemma i64_diff: "0 \<le> a \<Longrightarrow> a \<le> b \<Longrightarrow> in_i64 b \<Longrightarrow> i64 (b - a) = b - a"
  by (intro i64_id) (auto simp: in_i64_def i64_bounds)

lemma token_delta_step:
  assumes "tokens_step p t"
  shows "token_delta p t =
    (if t = p then None
     else Some (ct_InputTokens t - ct_InputTokens p - (ct_CachedInputTokens t - ct_CachedInputTokens p),
                ct_OutputTokens t - ct_OutputTokens p,
                ct_CachedInputTokens t - ct_CachedInputTokens p))"
proof -
  have 0: "i64 (ct_InputTokens t - ct_InputTokens p) = ct_InputTokens t - ct_InputTokens p"
    "i64 (ct_OutputTokens t - ct_OutputTokens p) = ct_OutputTokens t - ct_OutputTokens p"
    "i64 (ct_CachedInputTokens t - ct_CachedInputTokens p) =
       ct_CachedInputTokens t - ct_CachedInputTokens p"
    "i64 (ct_ReasoningOutputTokens t - ct_ReasoningOutputTokens p) =
       ct_ReasoningOutputTokens t - ct_ReasoningOutputTokens p"
    using assms by (auto simp: tokens_step_def intro!: i64_diff)
  have "i64 (ct_InputTokens t - ct_InputTokens p - (ct_CachedInputTokens t - ct_CachedInputTokens p)) =
      ct_InputTokens t - ct_InputTokens p - (ct_CachedInputTokens t - ct_CachedInputTokens p)"
    using assms by (intro i64_id) (auto simp: tokens_step_def in_i64_def i64_bounds)
  moreover have "t = p \<longleftrightarrow> ct_InputTokens t \<le> ct_InputTokens p \<and> ct_OutputTokens t \<le> ct_OutputTokens p \<and>
      ct_CachedInputTokens t \<le> ct_CachedInputTokens p \<and>
      ct_ReasoningOutputTokens t \<le> ct_ReasoningOutputTokens p"
    using assms by (cases t, cases p) (auto simp: tokens_step_def)
  ultimately show ?thesis
    using assms by (auto simp: token_delta_def Let_def 0 tokens_step_def)
qed

lemma codex_run_Cons [simp]:
  "codex_run tool cutoff now (ln # lns) st =
   codex_run tool cutoff now lns (emitCodexLine ln tool cutoff now st)"
  "codex_run tool cutoff now [] st = st"
  by (simp_all add: codex_run_def)

lemma codex_run_append:
  "codex_run tool cutoff now (a @ b) st =
   codex_run tool cutoff now b (codex_run tool cutoff now a st)"
  by (simp add: codex_run_def)

lemma codex_run_totals:
  "totals_grow (cs_prev st) (List.map_filter line_tokens lns) \<Longrightarrow>
   let st' = codex_run tool cutoff now lns st;
       t = last (cs_prev st # List.map_filter line_tokens lns)
   in cs_prev st' = t \<and>
      (\<Sum>r\<leftarrow>cs_usage st'. ur_OutputTokens r) =
        (\<Sum>r\<leftarrow>cs_usage st. ur_OutputTokens r) + ct_OutputTokens t - ct_OutputTokens (cs_prev st) \<and>
      (\<Sum>r\<leftarrow>cs_usage st'. ur_CacheReadTokens r) =
        (\<Sum>r\<leftarrow>cs_usage st. ur_CacheReadTokens r) +
        ct_CachedInputTokens t - ct_CachedInputTokens (cs_prev st) \<and>
      (\<Sum>r\<leftarrow>cs_usage st'. ur_InputTokens r + ur_CacheReadTokens r) =
        (\<Sum>r\<leftarrow>cs_usage st. ur_InputTokens r + ur_CacheReadTokens r) +
        ct_InputTokens t - ct_InputTokens (cs_prev st)"
proof (induction lns arbitrary: st)
  case Nil
  then show ?case by (simp add: map_filter_simps)
next
  case (Cons ln lns)
  show ?case
  proof (cases rule: tokens_cases [of ln tool cutoff now st])
    case (count l t)
    have t: "tokens_step (cs_prev st) t" "totals_grow t (List.map_filter line_tokens lns)"
      using Cons.prems count(1) by (auto simp: map_filter_simps)
    have prev: "cs_prev (add_token_count l t tool cutoff now st) = t"
      using token_delta_step [OF t(1)] by (auto simp: add_token_count_def Let_def)
    show ?thesis
      using Cons.IH [of "add_token_count l t tool cutoff now st"] t count prev
        token_delta_step [OF t(1)]
      by (auto simp: map_filter_simps Let_def add_token_count_def)
  next
    case other
    with Cons show ?thesis by (auto simp: map_filter_simps Let_def)
  qed
qed

text \<open>Whatever the totals are, a delta is a triple of nonnegative 64-bit counts.\<close>

lemma token_delta_range:
  assumes "token_delta p t = Some (u, out, c)"
  shows "0 \<le> u \<and> in_i64 u \<and> 0 \<le> out \<and> in_i64 out \<and> 0 \<le> c \<and> in_i64 c"
proof -
  have "in_i64 (if i64 x < 0 then 0 else i64 x)" for x
    using in_i64_i64 [of x] by simp
  with assms show ?thesis
    by (auto simp: token_delta_def Let_def split: if_splits)
qed

definition usage_nonneg :: "usage_record \<Rightarrow> bool" where
  "usage_nonneg r \<longleftrightarrow>
     0 \<le> ur_InputTokens r \<and> in_i64 (ur_InputTokens r) \<and>
     0 \<le> ur_OutputTokens r \<and> in_i64 (ur_OutputTokens r) \<and>
     ur_CacheCreationTokens r = 0 \<and> ur_CacheCreation1hTokens r = 0 \<and>
     0 \<le> ur_CacheReadTokens r \<and> in_i64 (ur_CacheReadTokens r)"

lemma emitCodexLine_usage:
  "\<exists>new. cs_usage (emitCodexLine line tool cutoff now st) = cs_usage st @ new \<and>
     list_all usage_nonneg new"
proof (cases rule: tokens_cases [of line tool cutoff now st])
  case (count l t)
  show ?thesis
  proof (cases "token_delta (cs_prev st) t")
    case None
    with count show ?thesis by (simp add: add_token_count_def)
  next
    case (Some d)
    obtain u out c where d: "d = (u, out, c)" by (rule prod_cases3)
    with Some token_delta_range [of "cs_prev st" t u out c] count show ?thesis
      by (auto simp: add_token_count_def Let_def usage_nonneg_def)
  qed
next
  case other
  then show ?thesis by simp
qed

section \<open>What a run keeps\<close>

text \<open>
  Along a run everything only grows: the usage records and the recorded patches are
  extended at the end, confirmations are never withdrawn, and a known session stays.
\<close>

definition extends :: "codexScanState \<Rightarrow> codexScanState \<Rightarrow> bool" where
  "extends st st' \<longleftrightarrow>
     prefix (cs_usage st) (cs_usage st') \<and> prefix (cs_patches st) (cs_patches st') \<and>
     cs_patchOK st \<subseteq> cs_patchOK st' \<and> cs_project st' = cs_project st \<and>
     (cs_sessionID st \<noteq> [] \<longrightarrow> cs_sessionID st' = cs_sessionID st)"

lemma extends_refl [simp]: "extends st st"
  by (simp add: extends_def)

lemma extends_trans: "extends a b \<Longrightarrow> extends b c \<Longrightarrow> extends a c"
  by (auto simp: extends_def intro: prefix_order.trans)

lemma extends_addPatchApplyEnd: "extends st (addPatchApplyEnd l st)"
  by (auto simp: addPatchApplyEnd_def Let_def extends_def split: option.splits)

lemma extends_add_tool_call: "extends st (add_tool_call l st)"
  by (auto simp: add_tool_call_def Let_def extends_def split: option.splits)

lemma extends_add_token_count: "extends st (add_token_count l t tool cutoff now st)"
  by (auto simp: add_token_count_def Let_def extends_def split: option.splits)

lemma extends_emit: "extends st (emitCodexLine line tool cutoff now st)"
proof -
  have "extends st (add_event l tool cutoff now st)" for l
    by (auto simp: add_event_def extends_addPatchApplyEnd extends_add_token_count split: option.split)
  then show ?thesis
    using extends_add_tool_call
    by (auto simp: emitCodexLine_def split: option.split) (auto simp: extends_def)
qed

lemma extends_run: "extends st (codex_run tool cutoff now lns st)"
  by (induction lns arbitrary: st) (auto intro: extends_trans extends_emit)

lemma codex_run_usage:
  "list_all usage_nonneg (cs_usage st) \<Longrightarrow>
   list_all usage_nonneg (cs_usage (codex_run tool cutoff now lns st))"
proof (induction lns arbitrary: st)
  case (Cons ln lns)
  from emitCodexLine_usage [of ln tool cutoff now st] Cons show ?case by auto
qed simp

lemma codex_result_extends:
  assumes "extends st st'" "cs_sessionID st \<noteq> []"
  shows "prefix (sr_Usage (codex_result st tool cutoff now)) (sr_Usage (codex_result st' tool cutoff now))"
    and "set (sr_Edits (codex_result st tool cutoff now)) \<subseteq>
      set (sr_Edits (codex_result st' tool cutoff now))"
proof -
  show "prefix (sr_Usage (codex_result st tool cutoff now)) (sr_Usage (codex_result st' tool cutoff now))"
    using assms by (simp add: codex_result_def extends_def)
  have "set (cs_patches st) \<subseteq> set (cs_patches st')" "cs_patchOK st \<subseteq> cs_patchOK st'"
    "cs_sessionID st' = cs_sessionID st" "cs_project st' = cs_project st"
    using assms set_mono_prefix by (auto simp: extends_def)
  then show "set (sr_Edits (codex_result st tool cutoff now)) \<subseteq>
      set (sr_Edits (codex_result st' tool cutoff now))"
    by (auto simp: codex_result_def split: if_splits)
qed

section \<open>Confirmed edits\<close>

text \<open>
  A line confirms a call when it is the call's output reporting success, or a successful
  \<open>patch_apply_end\<close> of that call.
\<close>

definition confirms :: "string \<Rightarrow> string \<Rightarrow> bool" where
  "confirms line cid \<longleftrightarrow>
     (case unmarshal_ok dec_codexLine line zero_codexLine of
        None \<Rightarrow> False
      | Some l \<Rightarrow>
          cl_Type l = ''response_item'' \<and>
          (case unmarshal_ok dec_codexToolCall (cl_Payload l) zero_codexToolCall of
             None \<Rightarrow> False
           | Some call \<Rightarrow> tc_Type call = ''custom_tool_call_output'' \<and> tc_CallID call = cid \<and>
               codexOutputSucceeded (codexOutputText (tc_Output call)))
          \<or> cl_Type l = ''event_msg'' \<and>
          (case unmarshal_ok dec_codexPatchApplyEnd (cl_Payload l)
                  \<lparr>pa_CallID = [], pa_Success = False, pa_Changes = []\<rparr> of
             None \<Rightarrow> False
           | Some ev \<Rightarrow> pa_Success ev \<and> pa_CallID ev = cid))"

lemma confirmed_step:
  "cid \<in> cs_patchOK (emitCodexLine line tool cutoff now st) \<Longrightarrow>
   cid \<in> cs_patchOK st \<or> confirms line cid"
proof (cases "unmarshal_ok dec_codexLine line zero_codexLine")
  case (Some l)
  let ?tool = "unmarshal_ok dec_codexToolCall (cl_Payload l) zero_codexToolCall"
  let ?ended = "unmarshal_ok dec_codexPatchApplyEnd (cl_Payload l) \<lparr>pa_CallID = [], pa_Success = False, pa_Changes = []\<rparr>"
  have tool: "cid \<in> cs_patchOK st \<or> (case ?tool of None \<Rightarrow> False | Some call \<Rightarrow>
      tc_Type call = ''custom_tool_call_output'' \<and> tc_CallID call = cid \<and>
      codexOutputSucceeded (codexOutputText (tc_Output call)))" if "cid \<in> cs_patchOK (add_tool_call l st)"
    using that by (cases ?tool) (auto simp: add_tool_call_def Let_def split: if_splits)
  have confirmed: "cid \<in> cs_patchOK st \<or> (case ?ended of None \<Rightarrow> False | Some ev \<Rightarrow> pa_Success ev \<and> pa_CallID ev = cid)"
    if "cid \<in> cs_patchOK (addPatchApplyEnd l st)"
    using that by (cases ?ended) (auto simp: addPatchApplyEnd_def Let_def split: if_splits)
  have event: "cs_patchOK (add_event l tool cutoff now st) \<in> {cs_patchOK st, cs_patchOK (addPatchApplyEnd l st)}"
    by (simp add: add_event_def split: option.split)
  assume "cid \<in> cs_patchOK (emitCodexLine line tool cutoff now st)"
  then consider "cid \<in> cs_patchOK st" | "cl_Type l = ''response_item''" "cid \<in> cs_patchOK (add_tool_call l st)"
    | "cl_Type l = ''event_msg''" "cid \<in> cs_patchOK (addPatchApplyEnd l st)"
    using Some event by (auto simp: emitCodexLine_def split: if_splits option.splits)
  then show ?thesis
    by cases (use Some tool confirmed in \<open>simp_all add: confirms_def\<close>)
qed (simp add: emitCodexLine_def)

lemma confirmed_run:
  "cid \<in> cs_patchOK (codex_run tool cutoff now lns st) \<Longrightarrow>
   cid \<in> cs_patchOK st \<or> (\<exists>ln \<in> set lns. confirms ln cid)"
proof (induction lns arbitrary: st)
  case (Cons ln lns)
  then show ?case using confirmed_step [of cid ln tool cutoff now st] by auto
qed simp

lemma patch_edits_ids:
  "e \<in> set (patch_edits sid project tool cutoff now p) \<Longrightarrow>
   \<exists>i < length (pc_files p). er_EventID e = pc_callID p @ ''#'' @ nat_str i"
  by (auto simp: patch_edits_def Let_def in_set_enumerate_eq)

lemma patch_edits_distinct:
  "distinct (map er_EventID (patch_edits sid project tool cutoff now p))"
proof -
  have eq: "map er_EventID (patch_edits sid project tool cutoff now p) =
      map (\<lambda>i. pc_callID p @ ''#'' @ nat_str i) [0..<length (pc_files p)]"
    by (rule nth_equalityI) (simp_all add: patch_edits_def Let_def nth_enumerate_eq)
  show ?thesis unfolding eq by (simp add: distinct_map inj_on_def)
qed

section \<open>Patches and literals\<close>

text \<open>A section of an envelope: the file, and body lines that open no other section.\<close>

definition envelope_section :: "string \<times> string list \<Rightarrow> string list" where
  "envelope_section = (\<lambda>(path, body). (''*** Update File: '' @ path) # body)"

definition section_ok :: "string \<times> string list \<Rightarrow> bool" where
  "section_ok = (\<lambda>(path, body). trim_space path = path \<and> nl \<notin> set path \<and>
     list_all (\<lambda>l. nl \<notin> set l \<and> \<not> has_prefix l ''*** '') body)"

definition envelope :: "(string \<times> string list) list \<Rightarrow> string" where
  "envelope secs = join [nl]
     (''*** Begin Patch'' # concat (map envelope_section secs) @ [''*** End Patch''])"

definition section_stat :: "string \<times> string list \<Rightarrow> codexFilePatch" where
  "section_stat = (\<lambda>(path, body). \<lparr>fp_path = path,
     fp_added = int (length (filter (\<lambda>l. has_prefix l ''+'') body)),
     fp_removed = int (length (filter (\<lambda>l. has_prefix l ''-'') body))\<rparr>)"

lemma has_prefix_sign: "has_prefix l ''+'' \<Longrightarrow> \<not> has_prefix l ''-''"
  by (cases l) (auto simp: has_prefix_def)

lemma patch_body:
  "list_all (\<lambda>l. nl \<notin> set l \<and> \<not> has_prefix l ''*** '') body \<Longrightarrow>
   foldl patch_line (out @ [f], int (length out)) body =
     (out @ [f\<lparr>fp_added := fp_added f + int (length (filter (\<lambda>l. has_prefix l ''+'') body)),
               fp_removed := fp_removed f + int (length (filter (\<lambda>l. has_prefix l ''-'') body))\<rparr>],
      int (length out))"
proof (induction body arbitrary: f)
  case (Cons l body)
  have "\<not> has_prefix l ''*** Update File: ''" "\<not> has_prefix l ''*** Add File: ''"
    using Cons.prems by (auto simp: has_prefix_iff prefix_def)
  with Cons has_prefix_sign [of l] show ?case
    by (auto simp: patch_line_def list_update_append nth_append)
qed simp

lemma patch_header:
  "trim_space path = path \<Longrightarrow>
   patch_line (out, cur) (''*** Update File: '' @ path) =
     (out @ [\<lparr>fp_path = path, fp_added = 0, fp_removed = 0\<rparr>], int (length out))"
  by (simp add: patch_line_def has_prefix_def numeral_eq_Suc)

lemma patch_sections:
  "list_all section_ok secs \<Longrightarrow>
   fst (foldl patch_line (out, cur) (concat (map envelope_section secs))) = out @ map section_stat secs"
proof (induction secs arbitrary: out cur)
  case (Cons s secs)
  obtain path body where s: "s = (path, body)" by force
  let ?f = "\<lparr>fp_path = path, fp_added = 0, fp_removed = 0\<rparr>"
  have ok: "trim_space path = path" "list_all (\<lambda>l. nl \<notin> set l \<and> \<not> has_prefix l ''*** '') body"
    using Cons.prems s by (auto simp: section_ok_def)
  have "foldl patch_line (out, cur) (envelope_section s) = (out @ [section_stat s], int (length out))"
    using patch_header [OF ok(1)] patch_body [OF ok(2), of out ?f]
    by (simp add: envelope_section_def section_stat_def s)
  with Cons show ?case by simp
qed simp

lemma split_on_join:
  "ls \<noteq> [] \<Longrightarrow> list_all (\<lambda>l. c \<notin> set l) ls \<Longrightarrow> split_on c (join [c] ls) = ls"
proof (induction ls)
  case (Cons l ls)
  have *: "c \<notin> set l \<Longrightarrow> split_on c (l @ c # r) = l # split_on c r" for l r
    by (induction l) auto
  show ?case
  proof (cases "ls = []")
    case True
    with Cons show ?thesis by (simp add: split_on_no_sep)
  next
    case False
    with Cons * show ?thesis by (simp add: join_Cons)
  qed
qed simp

text \<open>A script literal: the text with its backslashes, newlines and quotes escaped.\<close>

definition js_escape :: "char \<Rightarrow> string" where
  "js_escape c =
     (if c = nl then [bslash, CHR ''n''] else if c = bslash then [bslash, bslash]
      else if c = dquote then [bslash, dquote] else [c])"

definition js_quote :: "string \<Rightarrow> string" where
  "js_quote s = dquote # concat (map js_escape s) @ [dquote]"

lemma utf8_ascii: "byte_of c < 128 \<Longrightarrow> utf8_encode (byte_of c) = [c]"
  by (simp add: utf8_encode_def)

lemma decodeEscape_quotes:
  "decodeEscape (bslash # CHR ''n'' # r) = ([nl], 2)"
  "decodeEscape (bslash # bslash # r) = ([bslash], 2)"
  "decodeEscape (bslash # dquote # r) = ([dquote], 2)"
  using utf8_ascii [of bslash] utf8_ascii [of dquote]
  by (simp_all add: decodeEscape_def)

lemma js_body_escape:
  "js_body dquote (js_escape c @ r) acc n = js_body dquote r (acc @ [c]) (n + length (js_escape c))"
  by (auto simp: js_escape_def js_body.simps(2) decodeEscape_quotes)

lemma js_body_quoted:
  "js_body dquote (concat (map js_escape s) @ dquote # r) acc n =
     (acc @ s, n + length (concat (map js_escape s)) + 1)"
proof (induction s arbitrary: acc n)
  case Nil
  then show ?case by (simp add: js_body.simps(2))
next
  case (Cons c s)
  then show ?case by (simp add: js_body_escape)
qed

lemma js_quote_pos: "js_quote s \<noteq> []"
  by (simp add: js_quote_def)

lemma contains_middle: "contains (a @ p @ b) p"
proof (induction a)
  case Nil
  then show ?case by (cases p; cases b) (simp_all add: contains_def has_prefix_def)
qed (simp add: contains_def)

lemma index_of_here: "p \<noteq> [] \<Longrightarrow> index_of (p @ r) p = Some 0"
  by (cases p) (simp_all add: has_prefix_def)

lemma jsStringLiteral_quote: "jsStringLiteral (js_quote s @ r) = (s, length (js_quote s))"
  using js_body_quoted [of s r "[]" 1]
  by (simp add: jsStringLiteral_def js_quote_def is_js_space_def is_js_quote_def)

lemma envelope_prefix: "\<exists>t. envelope secs = ''*** Begin Patch'' @ t"
  unfolding envelope_def by (rule exI, rule join_Cons) simp

lemma js_quote_begin: "js_quote (''*** Begin Patch'' @ t) = dquote # ''*** Begin Patch'' @ tl (js_quote t)"
  by (simp add: js_quote_def js_escape_def)

lemma codexPatchEnvelopes_exec:
  "codexPatchEnvelopes ''exec'' (applyPatchCall @ js_quote (envelope secs) @ '')'') = [envelope secs]"
proof -
  let ?in = "applyPatchCall @ js_quote (envelope secs) @ '')''"
  obtain t where t: "envelope secs = ''*** Begin Patch'' @ t"
    using envelope_prefix by blast
  have "js_quote (envelope secs) = dquote # ''*** Begin Patch'' @ tl (js_quote t)"
    unfolding t by (rule js_quote_begin)
  then have "?in = (applyPatchCall @ dquote # ''*** '') @ ''Begin Patch'' @ (tl (js_quote t) @ '')'')"
    by simp
  then have "contains ?in ''Begin Patch''" by (simp only: contains_middle)
  moreover have "contains (envelope secs) beginPatchMarker"
    using contains_middle [of "[]" beginPatchMarker t] t by (simp add: beginPatchMarker_def)
  moreover have "envelope_loop '')'' [envelope secs] = [envelope secs]"
    by (subst envelope_loop.simps) (simp add: applyPatchCall_def has_prefix_def)
  moreover have "index_of ?in applyPatchCall = Some 0"
    by (rule index_of_here) (simp add: applyPatchCall_def)
  ultimately have "envelope_loop ?in [] = [envelope secs]"
    using js_quote_pos [of "envelope secs"]
    by (subst envelope_loop.simps) (simp add: jsStringLiteral_quote Let_def)
  with \<open>contains ?in ''Begin Patch''\<close> show ?thesis
    by (simp add: codexPatchEnvelopes_def)
qed

lemma parseApplyPatch_envelope:
  assumes "list_all section_ok secs"
  shows "parseApplyPatch (envelope secs) = map section_stat secs"
proof -
  let ?ls = "''*** Begin Patch'' # concat (map envelope_section secs) @ [''*** End Patch'']"
  have "list_all (\<lambda>l. nl \<notin> set l) ?ls"
    using assms by (auto simp: list_all_iff section_ok_def envelope_section_def split: prod.splits)
  then have "split_on nl (envelope secs) = ?ls"
    unfolding envelope_def by (intro split_on_join) auto
  moreover have "patch_line ([], - 1) ''*** Begin Patch'' = ([], - 1)"
    by (simp add: patch_line_def has_prefix_def)
  moreover have "patch_line st ''*** End Patch'' = (fst st, - 1)" for st
    by (cases st) (simp add: patch_line_def has_prefix_def)
  ultimately show ?thesis
    using patch_sections [OF assms, of "[]" "- 1"]
    by (simp add: parseApplyPatch_def)
qed

text \<open>The files of a \<open>patch_apply_end\<close> do not depend on the order of the map's entries.\<close>

lemma change_patches_order:
  assumes "distinct (map fst xs)" "distinct (map fst ys)" "map_of xs = map_of ys"
  shows "change_patches xs = change_patches ys"
proof -
  have "set (map fst xs) = set (map fst ys)"
    using assms(3) by (metis dom_map_of_conv_image_fst list.set_map)
  then have "sort (map fst xs) = sort (map fst ys)"
    using assms(1,2)
    by (metis distinct_sort set_sort sorted_sort sorted_distinct_set_unique)
  then show ?thesis by (simp only: change_patches_def assms(3))
qed

section \<open>Properties\<close>

text \<open>A token count line, for the examples.\<close>

definition cdx_line :: "string \<Rightarrow> int \<Rightarrow> int \<Rightarrow> int \<Rightarrow> string" where
  "cdx_line ts inp cached outp = jq (''{~timestamp~:~'' @ ts @ ''~,~type~:~event_msg~,~payload~:'' @
     ''{~type~:~token_count~,~info~:{~total_token_usage~:{~input_tokens~:'' @ itoa inp @
     '',~cached_input_tokens~:'' @ itoa cached @ '',~output_tokens~:'' @ itoa outp @ ''}}}}'') @ [nl]"

definition cdx_file :: "string \<Rightarrow> file_obs" where
  "cdx_file d = \<lparr>fo_stat = Some (7, int (length d)), fo_opens = True, fo_data = d,
     fo_read_fails = False\<rparr>"

lemma codex_Scan_eq:
  assumes "fo_stat ob = Some (inode, sz)" "fs_Inode prev \<noteq> inode \<or> fs_Offset prev \<noteq> sz" "fo_opens ob"
  shows "fst (codex_Scan ob path tool prev cutoff now) =
    codex_result (codex_run tool cutoff now (all_lines (fo_data ob)) (codex_start path)) tool cutoff now"
  using assms by (auto simp: codex_Scan_def parseCodexFile_def)

text \<open>
  C9. The deltas add up: when the running totals of a rollout only grow, the records of a
  scan sum to the last total, whatever events were repeated on the way: output to the output
  total, cache reads to the cached total, input and cache reads together to the input total.
\<close>

theorem codex_deltas_telescope:
  assumes "totals_grow zero_codexTokens (List.map_filter line_tokens (all_lines (fo_data ob)))"
    and "t = last (zero_codexTokens # List.map_filter line_tokens (all_lines (fo_data ob)))"
    and "fo_stat ob = Some (inode, sz)" "fs_Inode prev \<noteq> inode \<or> fs_Offset prev \<noteq> sz" "fo_opens ob"
    and "res = fst (codex_Scan ob path tool prev cutoff now)"
  shows "(\<Sum>r\<leftarrow>sr_Usage res. ur_OutputTokens r) = ct_OutputTokens t \<and>
    (\<Sum>r\<leftarrow>sr_Usage res. ur_CacheReadTokens r) = ct_CachedInputTokens t \<and>
    (\<Sum>r\<leftarrow>sr_Usage res. ur_InputTokens r + ur_CacheReadTokens r) = ct_InputTokens t"
proof -
  have start: "cs_prev (codex_start path) = zero_codexTokens" "cs_usage (codex_start path) = []"
    by (simp_all add: codex_start_def)
  have "res = codex_result (codex_run tool cutoff now (all_lines (fo_data ob)) (codex_start path))
      tool cutoff now"
    using assms(6) codex_Scan_eq [OF assms(3-5)] by simp
  then show ?thesis
    using codex_run_totals [of "codex_start path" "all_lines (fo_data ob)" tool cutoff now] assms(1,2)
    unfolding start Let_def by (simp add: codex_result_def zero_codexTokens_def)
qed

theorem codex_deltas_telescope_witness:
  "(\<Sum>r\<leftarrow>sr_Usage (fst (codex_Scan (cdx_file (cdx_line ''1'' 9 4 7 @ cdx_line ''2'' 30 8 8))
      ''/p/r.jsonl'' ''codex'' zero_file_state 0 0)). ur_InputTokens r + ur_CacheReadTokens r) = 30"
proof -
  let ?ob = "cdx_file (cdx_line ''1'' 9 4 7 @ cdx_line ''2'' 30 8 8)"
  have lns: "List.map_filter line_tokens (all_lines (fo_data ?ob)) =
      [\<lparr>ct_InputTokens = 9, ct_CachedInputTokens = 4, ct_OutputTokens = 7, ct_ReasoningOutputTokens = 0\<rparr>,
       \<lparr>ct_InputTokens = 30, ct_CachedInputTokens = 8, ct_OutputTokens = 8, ct_ReasoningOutputTokens = 0\<rparr>]"
    by code_simp
  have "totals_grow zero_codexTokens (List.map_filter line_tokens (all_lines (fo_data ?ob)))"
    unfolding lns by code_simp
  moreover have "fo_stat ?ob = Some (7, int (length (fo_data ?ob)))" "fo_opens ?ob"
    "fs_Inode zero_file_state \<noteq> 7 \<or> fs_Offset zero_file_state \<noteq> int (length (fo_data ?ob))"
    by (simp_all add: cdx_file_def zero_file_state_def)
  ultimately show ?thesis
    using codex_deltas_telescope [of ?ob _ 7 "int (length (fo_data ?ob))" zero_file_state]
    unfolding lns by simp
qed

text \<open>
  C16. Whatever a rollout says, its usage records hold nonnegative 64-bit counts: totals that
  jump back or overflow never yield a negative record.
\<close>

theorem codex_usage_nonneg:
  "list_all usage_nonneg (sr_Usage (fst (codex_Scan ob path tool prev cutoff now)))"
proof -
  have "list_all usage_nonneg (cs_usage (codex_run tool cutoff now lns (codex_start path)))" for lns
    by (rule codex_run_usage) (simp add: codex_start_def)
  then show ?thesis
    by (auto simp: codex_Scan_def parseCodexFile_def codex_result_def split: option.split)
qed



text \<open>
  C11. Only confirmed patches count: every edit record of a scan belongs to a call that some
  line of the file confirms, either the call's output reporting success or a successful
  \<open>patch_apply_end\<close>, and is numbered within that call.
\<close>

theorem codex_edits_confirmed:
  assumes "e \<in> set (sr_Edits (fst (codex_Scan ob path tool prev cutoff now)))"
  shows "\<exists>cid i. er_EventID e = cid @ ''#'' @ nat_str i \<and>
    (\<exists>line \<in> set (all_lines (fo_data ob)). confirms line cid)"
proof -
  let ?st = "codex_run tool cutoff now (all_lines (fo_data ob)) (codex_start path)"
  from assms have "e \<in> set (sr_Edits (codex_result ?st tool cutoff now))"
    by (auto simp: codex_Scan_def parseCodexFile_def split: option.splits if_splits)
  then obtain p where "pc_callID p \<in> cs_patchOK ?st"
    "e \<in> set (patch_edits (cs_sessionID ?st) (cs_project ?st) tool cutoff now p)"
    by (auto simp: codex_result_def split: if_splits)
  with confirmed_run [of "pc_callID p" tool cutoff now _ "codex_start path"] patch_edits_ids
  show ?thesis by (fastforce simp: codex_start_def)
qed

definition cdx_patch :: "string" where
  "cdx_patch = jq (''{~type~:~response_item~,~payload~:{~type~:~custom_tool_call~,~call_id~:~c~,'' @
     ''~name~:~apply_patch~,~input~:~*** Add File: a.c'' @ [bslash] @ ''n+x~}}'' @ [nl] @
     ''{~type~:~response_item~,~payload~:{~type~:~custom_tool_call_output~,~call_id~:~c~,'' @
     ''~output~:~Success~}}'') @ [nl]"

theorem codex_edits_confirmed_witness:
  "\<exists>cid i. ''c#0'' = cid @ ''#'' @ nat_str i \<and>
    (\<exists>line \<in> set (all_lines (fo_data (cdx_file cdx_patch))). confirms line cid)"
proof -
  let ?es = "sr_Edits (fst (codex_Scan (cdx_file cdx_patch) ''/p/r.jsonl'' ''codex'' zero_file_state 0 0))"
  have "map er_EventID ?es = [''c#0'']" by code_simp
  then obtain e where "e \<in> set ?es" "er_EventID e = ''c#0''" by (cases ?es) auto
  with codex_edits_confirmed [of e "cdx_file cdx_patch"] show ?thesis by metis
qed

text \<open>
  C12. A patch sent by the current CLI is found and counted: an envelope written as a string
  literal in an \<open>exec\<close> script, its newlines, quotes and backslashes escaped, yields for each
  file section its path and the numbers of its added and removed lines.
\<close>

theorem codex_exec_patch:
  assumes "list_all section_ok secs"
  shows "concat (map parseApplyPatch
      (codexPatchEnvelopes ''exec'' (applyPatchCall @ js_quote (envelope secs) @ '')''))) =
    map section_stat secs"
  by (simp only: codexPatchEnvelopes_exec) (simp add: parseApplyPatch_envelope [OF assms])

theorem codex_exec_patch_witness:
  "concat (map parseApplyPatch (codexPatchEnvelopes ''exec''
      (applyPatchCall @ js_quote (envelope [(''a.go'', [''@@'', ''-x'', ''+y'', ''+z'']), (''b.md'', [])]) @ '')''))) =
   [\<lparr>fp_path = ''a.go'', fp_added = 2, fp_removed = 1\<rparr>, \<lparr>fp_path = ''b.md'', fp_added = 0, fp_removed = 0\<rparr>]"
proof -
  let ?secs = "[(''a.go'', [''@@'', ''-x'', ''+y'', ''+z'']), (''b.md'', [])]"
  have "list_all section_ok ?secs" by code_simp
  moreover have "map section_stat ?secs =
      [\<lparr>fp_path = ''a.go'', fp_added = 2, fp_removed = 1\<rparr>, \<lparr>fp_path = ''b.md'', fp_added = 0, fp_removed = 0\<rparr>]"
    by code_simp
  ultimately show ?thesis using codex_exec_patch [of ?secs] by simp
qed

text \<open>
  The files of a \<open>patch_apply_end\<close>, and with them the numbers in the event ids, do not
  depend on the order in which the map of changes is enumerated.
\<close>

theorem codex_changes_stable:
  assumes "distinct (map fst xs)" "distinct (map fst ys)" "map_of xs = map_of ys"
  shows "patch_edits sid project tool cutoff now
      \<lparr>pc_callID = cid, pc_ts = ts, pc_files = change_patches xs\<rparr> =
    patch_edits sid project tool cutoff now
      \<lparr>pc_callID = cid, pc_ts = ts, pc_files = change_patches ys\<rparr>"
  using change_patches_order [OF assms] by simp

theorem codex_changes_stable_witness:
  "patch_edits [] [] [] 0 0 \<lparr>pc_callID = ''c'', pc_ts = [], pc_files = change_patches
      [(''b'', \<lparr>ch_Type = ''add'', ch_Content = ''x'', ch_UnifiedDiff = [], ch_MovePath = None\<rparr>),
       (''a'', \<lparr>ch_Type = ''delete'', ch_Content = [], ch_UnifiedDiff = [], ch_MovePath = None\<rparr>)]\<rparr> =
   patch_edits [] [] [] 0 0 \<lparr>pc_callID = ''c'', pc_ts = [], pc_files = change_patches
      [(''a'', \<lparr>ch_Type = ''delete'', ch_Content = [], ch_UnifiedDiff = [], ch_MovePath = None\<rparr>),
       (''b'', \<lparr>ch_Type = ''add'', ch_Content = ''x'', ch_UnifiedDiff = [], ch_MovePath = None\<rparr>)]\<rparr>"
  by (rule codex_changes_stable) (simp_all add: fun_eq_iff)

end
