(* ===== verification/Deepseek.thy ===== *)
theory Deepseek
  imports TailScan Lang
begin

text \<open>
  DeepSeek Harness session logs (\<open>parsers/deepseekharness.go\<close>): a zstd stream of JSON events
  that is read again from the start whenever inode or size changed. The decompressor is a
  parameter: what it delivers of a file's bytes, and whether it reaches the end of the stream.
\<close>

section \<open>Event shapes\<close>

record dshEvent =
  dv_Type :: string
  dv_Time :: int
  dv_Data :: string

record dshSession =
  dn_ID :: string
  dn_Cwd :: string

record dshSource =
  dw_Model :: string

record dshMessage =
  dm_ID :: string
  dm_Source :: dshSource

record dshUsage =
  du_InputTokens :: int
  du_OutputTokens :: int
  du_CacheReadTokens :: int
  du_CacheWriteTokens :: int

record dshAssistantMessage =
  da_Message :: dshMessage
  da_Usage :: "dshUsage option"

record dshToolCall =
  dc_CallID :: string
  dc_Name :: string
  dc_Arguments :: string

record dshResultMessage =
  dr_ToolCallID :: string
  dr_IsError :: bool

record dshToolResult =
  dt_Message :: dshResultMessage
  dt_Error :: "unit option"

record dshEditArgs =
  dg_FilePath :: string
  dg_Content :: string
  dg_OldString :: string
  dg_NewString :: string

record dshPendingEdit =
  dp_ts :: gotime
  dp_path :: string
  dp_added :: int
  dp_removed :: int

definition dec_dshEvent :: "dshEvent decoder" where
  "dec_dshEvent = dec_struct
     [fld ''type'' dec_string dv_Type dv_Type_update,
      fld ''time'' dec_int64 dv_Time dv_Time_update,
      fld ''data'' dec_raw dv_Data dv_Data_update]"

definition dec_dshSession :: "dshSession decoder" where
  "dec_dshSession = dec_struct
     [fld ''id'' dec_string dn_ID dn_ID_update,
      fld ''cwd'' dec_string dn_Cwd dn_Cwd_update]"

definition dec_dshMessage :: "dshMessage decoder" where
  "dec_dshMessage = dec_struct
     [fld ''id'' dec_string dm_ID dm_ID_update,
      fld ''source'' (dec_struct [fld ''model'' dec_string dw_Model dw_Model_update]) dm_Source dm_Source_update]"

definition dec_dshUsage :: "dshUsage decoder" where
  "dec_dshUsage = dec_struct
     [fld ''inputTokens'' dec_int64 du_InputTokens du_InputTokens_update,
      fld ''outputTokens'' dec_int64 du_OutputTokens du_OutputTokens_update,
      fld ''cacheReadTokens'' dec_int64 du_CacheReadTokens du_CacheReadTokens_update,
      fld ''cacheWriteTokens'' dec_int64 du_CacheWriteTokens du_CacheWriteTokens_update]"

definition dec_dshAssistantMessage :: "dshAssistantMessage decoder" where
  "dec_dshAssistantMessage = dec_struct
     [fld ''message'' dec_dshMessage da_Message da_Message_update,
      fld ''usage''
        (dec_ptr \<lparr>du_InputTokens = 0, du_OutputTokens = 0, du_CacheReadTokens = 0, du_CacheWriteTokens = 0\<rparr>
           dec_dshUsage) da_Usage da_Usage_update]"

definition dec_dshToolCall :: "dshToolCall decoder" where
  "dec_dshToolCall = dec_struct
     [fld ''callId'' dec_string dc_CallID dc_CallID_update,
      fld ''name'' dec_string dc_Name dc_Name_update,
      fld ''arguments'' dec_string dc_Arguments dc_Arguments_update]"

definition dec_dshToolResult :: "dshToolResult decoder" where
  "dec_dshToolResult = dec_struct
     [fld ''message'' (dec_struct
        [fld ''toolCallId'' dec_string dr_ToolCallID dr_ToolCallID_update,
         fld ''isError'' dec_bool dr_IsError dr_IsError_update]) dt_Message dt_Message_update,
      fld ''error'' (dec_ptr () (dec_struct [])) dt_Error dt_Error_update]"

definition dec_dshEditArgs :: "dshEditArgs decoder" where
  "dec_dshEditArgs = dec_struct
     [fld ''file_path'' dec_string dg_FilePath dg_FilePath_update,
      fld ''content'' dec_string dg_Content dg_Content_update,
      fld ''old_string'' dec_string dg_OldString dg_OldString_update,
      fld ''new_string'' dec_string dg_NewString dg_NewString_update]"

definition zero_dshSession :: dshSession where "zero_dshSession = \<lparr>dn_ID = [], dn_Cwd = []\<rparr>"

section \<open>One event\<close>

text \<open>What the loop keeps: the records so far, the session header, and the pending calls by id.\<close>

record dsh_state =
  dh_res :: scan_result
  dh_session :: dshSession
  dh_pending :: "(string \<times> dshPendingEdit) list"

definition dsh_message :: "string \<Rightarrow> gotime \<Rightarrow> bool \<Rightarrow> string \<Rightarrow> dsh_state \<Rightarrow> dsh_state" where
  "dsh_message tool ts backfill data st =
     (case unmarshal_ok dec_dshAssistantMessage data
             \<lparr>da_Message = \<lparr>dm_ID = [], dm_Source = \<lparr>dw_Model = []\<rparr>\<rparr>, da_Usage = None\<rparr> of
        None \<Rightarrow> st
      | Some m \<Rightarrow>
          (let cid = dm_ID (da_Message m); model = dw_Model (dm_Source (da_Message m)); s = dh_session st in
           case da_Usage m of
             None \<Rightarrow> st
           | Some u \<Rightarrow>
               if cid = [] \<or> model = [] then st
               else st\<lparr>dh_res := append_result (dh_res st)
                 \<lparr>sr_Usage = [\<lparr>ur_MessageID = ''dsh_'' @ dn_ID s @ ''_'' @ cid, ur_RequestID = [],
                    ur_SessionID = dn_ID s, ur_Tool = tool, ur_Model = model, ur_Timestamp = ts,
                    ur_InputTokens = du_InputTokens u, ur_OutputTokens = du_OutputTokens u,
                    ur_CacheCreationTokens = du_CacheWriteTokens u, ur_CacheCreation1hTokens = 0,
                    ur_CacheReadTokens = du_CacheReadTokens u, ur_ProjectPath = dn_Cwd s,
                    ur_Backfill = backfill\<rparr>],
                  sr_Edits = []\<rparr>\<rparr>))"

definition dsh_call_edit :: "gotime \<Rightarrow> string \<Rightarrow> (string \<times> dshPendingEdit) option" where
  "dsh_call_edit ts data =
     (case unmarshal_ok dec_dshToolCall data \<lparr>dc_CallID = [], dc_Name = [], dc_Arguments = []\<rparr> of
        None \<Rightarrow> None
      | Some c \<Rightarrow>
          if dc_CallID c = [] \<or> dc_Name c \<noteq> ''write'' \<and> dc_Name c \<noteq> ''edit'' then None
          else (case unmarshal_ok dec_dshEditArgs (dc_Arguments c)
                       \<lparr>dg_FilePath = [], dg_Content = [], dg_OldString = [], dg_NewString = []\<rparr> of
             None \<Rightarrow> None
           | Some args \<Rightarrow>
               if dg_FilePath args = [] then None
               else
                 (let (added, removed) =
                    (if dc_Name c = ''write'' then (countLines (dg_Content args), 0)
                     else (countLines (dg_NewString args), countLines (dg_OldString args)))
                  in if 0 < added \<or> 0 < removed
                     then Some (dc_CallID c,
                       \<lparr>dp_ts = ts, dp_path = dg_FilePath args, dp_added = added, dp_removed = removed\<rparr>)
                     else None)))"

definition dsh_call :: "gotime \<Rightarrow> string \<Rightarrow> dsh_state \<Rightarrow> dsh_state" where
  "dsh_call ts data st =
     (case dsh_call_edit ts data of
        None \<Rightarrow> st
      | Some (cid, p) \<Rightarrow> st\<lparr>dh_pending := put cid p (dh_pending st)\<rparr>)"

definition dsh_edit :: "string \<Rightarrow> duration \<Rightarrow> gotime \<Rightarrow> dshSession \<Rightarrow> string \<Rightarrow> dshPendingEdit \<Rightarrow> edit_record" where
  "dsh_edit tool cutoff now s cid p =
     \<lparr>er_EventID = cid, er_SessionID = dn_ID s, er_Tool = tool, er_Timestamp = dp_ts p,
      er_Lang = langFromPath (dp_path p), er_LinesAdded = dp_added p, er_LinesRemoved = dp_removed p,
      er_ProjectPath = dn_Cwd s, er_Backfill = is_backfill cutoff now (dp_ts p)\<rparr>"

definition dsh_result :: "string \<Rightarrow> duration \<Rightarrow> gotime \<Rightarrow> string \<Rightarrow> dsh_state \<Rightarrow> dsh_state" where
  "dsh_result tool cutoff now data st =
     (case unmarshal_ok dec_dshToolResult data
             \<lparr>dt_Message = \<lparr>dr_ToolCallID = [], dr_IsError = False\<rparr>, dt_Error = None\<rparr> of
        None \<Rightarrow> st
      | Some r \<Rightarrow>
          (let cid = dr_ToolCallID (dt_Message r) in
           case map_of (dh_pending st) cid of
             None \<Rightarrow> st
           | Some p \<Rightarrow>
               (let st' = st\<lparr>dh_pending := filter (\<lambda>(k, _). k \<noteq> cid) (dh_pending st)\<rparr> in
                if dr_IsError (dt_Message r) \<or> dt_Error r \<noteq> None then st'
                else st'\<lparr>dh_res := append_result (dh_res st')
                  \<lparr>sr_Usage = [], sr_Edits = [dsh_edit tool cutoff now (dh_session st) cid p]\<rparr>\<rparr>)))"

text \<open>The header is decoded from the line itself, onto the session known so far.\<close>

definition dsh_line :: "string \<Rightarrow> duration \<Rightarrow> gotime \<Rightarrow> string \<Rightarrow> dsh_state \<Rightarrow> dsh_state" where
  "dsh_line tool cutoff now line st =
     (case unmarshal_ok dec_dshEvent line \<lparr>dv_Type = [], dv_Time = 0, dv_Data = []\<rparr> of
        None \<Rightarrow> st
      | Some ev \<Rightarrow>
          (let ts = (if dv_Time ev = 0 then now else unix_milli (dv_Time ev)) in
           if dv_Type ev = ''session'' then st\<lparr>dh_session := fst (unmarshal dec_dshSession line (dh_session st))\<rparr>
           else if dv_Type ev = ''assistant/message'' then
             dsh_message tool ts (is_backfill cutoff now ts) (dv_Data ev) st
           else if dv_Type ev = ''tool/call'' then dsh_call ts (dv_Data ev) st
           else if dv_Type ev = ''tool/result'' then dsh_result tool cutoff now (dv_Data ev) st
           else st))"

section \<open>The scan\<close>

text \<open>
  A decompressor gives \<open>None\<close> when the reader cannot be made, and otherwise the bytes it
  delivers and whether the stream ends cleanly.
\<close>

type_synonym decompressor = "string \<Rightarrow> (string \<times> bool) option"

definition dsh_start :: dsh_state where
  "dsh_start = \<lparr>dh_res = empty_result, dh_session = zero_dshSession, dh_pending = []\<rparr>"

definition dsh_run :: "string \<Rightarrow> duration \<Rightarrow> gotime \<Rightarrow> string list \<Rightarrow> dsh_state \<Rightarrow> dsh_state" where
  "dsh_run tool cutoff now lns st = fold (dsh_line tool cutoff now) lns st"

definition parseDeepseekHarnessFile ::
    "decompressor \<Rightarrow> file_obs \<Rightarrow> string \<Rightarrow> duration \<Rightarrow> gotime \<Rightarrow> scan_result \<times> scan_error option" where
  "parseDeepseekHarnessFile unzstd ob tool cutoff now =
     (if \<not> fo_opens ob then (empty_result, Some OpenError)
      else (case unzstd (fo_data ob) of
         None \<Rightarrow> (empty_result, Some DecompressError)
       | Some (s, clean) \<Rightarrow>
           (dh_res (dsh_run tool cutoff now (all_lines s) dsh_start),
            if fo_read_fails ob then Some ReadError else if clean then None else Some DecompressError)))"

definition deepseek_Scan :: "decompressor \<Rightarrow> parser" where
  "deepseek_Scan unzstd ob path tool prev cutoff now =
     (case fo_stat ob of
        None \<Rightarrow> (empty_result, zero_file_state, Some StatError)
      | Some (inode, sz) \<Rightarrow>
          if fs_Inode prev = inode \<and> fs_Offset prev = sz
          then (empty_result, \<lparr>fs_Inode = inode, fs_Offset = sz\<rparr>, None)
          else
            (let (res, err) = parseDeepseekHarnessFile unzstd ob tool cutoff now
             in (res, \<lparr>fs_Inode = inode, fs_Offset = sz\<rparr>, err)))"

section \<open>Records only accumulate\<close>

definition grows :: "dsh_state \<Rightarrow> dsh_state \<Rightarrow> bool" where
  "grows a b \<longleftrightarrow> prefix (sr_Usage (dh_res a)) (sr_Usage (dh_res b)) \<and> prefix (sr_Edits (dh_res a)) (sr_Edits (dh_res b))"

lemma grows_refl [simp]: "grows st st"
  by (simp add: grows_def)

lemma grows_trans: "grows a b \<Longrightarrow> grows b c \<Longrightarrow> grows a c"
  by (auto simp: grows_def)

lemma grows_line: "grows st (dsh_line tool cutoff now ln st)"
  by (simp add: dsh_line_def dsh_message_def dsh_call_def dsh_result_def grows_def Let_def
      split: option.split prod.split)

lemma dsh_run_append: "dsh_run tool cutoff now (a @ b) st = dsh_run tool cutoff now b (dsh_run tool cutoff now a st)"
  by (simp add: dsh_run_def)

lemma grows_run: "grows st (dsh_run tool cutoff now lns st)"
  by (induction lns arbitrary: st) (auto simp: dsh_run_def intro: grows_trans grows_line)

text \<open>Reading a log again after it has grown repeats the earlier records, in the same order.\<close>

lemma deepseek_rescan_grows:
  assumes "unzstd (fo_data ob) = Some (s, c)" "unzstd (fo_data ob') = Some (s @ rest, c')"
    and "partial_line s = []" "fo_opens ob" "fo_opens ob'"
  shows "prefix (sr_Usage (fst (parseDeepseekHarnessFile unzstd ob tool cutoff now)))
      (sr_Usage (fst (parseDeepseekHarnessFile unzstd ob' tool cutoff now))) \<and>
    prefix (sr_Edits (fst (parseDeepseekHarnessFile unzstd ob tool cutoff now)))
      (sr_Edits (fst (parseDeepseekHarnessFile unzstd ob' tool cutoff now)))"
  using assms grows_run [of "dsh_run tool cutoff now (all_lines s) dsh_start" tool cutoff now "all_lines rest"]
  by (simp add: parseDeepseekHarnessFile_def all_lines_append dsh_run_append grows_def)

section \<open>Confirmed edits\<close>

text \<open>What one line says of the calls: the call it makes, or the call whose result it is.\<close>

definition line_event :: "string \<Rightarrow> dshEvent option" where
  "line_event ln = unmarshal_ok dec_dshEvent ln \<lparr>dv_Type = [], dv_Time = 0, dv_Data = []\<rparr>"

definition line_call :: "gotime \<Rightarrow> string \<Rightarrow> (string \<times> dshPendingEdit) option" where
  "line_call now ln =
     (case line_event ln of
        Some ev \<Rightarrow> if dv_Type ev = ''tool/call''
          then dsh_call_edit (if dv_Time ev = 0 then now else unix_milli (dv_Time ev)) (dv_Data ev) else None
      | None \<Rightarrow> None)"

definition line_succeeds :: "string \<Rightarrow> string \<Rightarrow> bool" where
  "line_succeeds cid ln \<longleftrightarrow>
     (case line_event ln of
        Some ev \<Rightarrow> dv_Type ev = ''tool/result'' \<and>
          (case unmarshal_ok dec_dshToolResult (dv_Data ev)
                  \<lparr>dt_Message = \<lparr>dr_ToolCallID = [], dr_IsError = False\<rparr>, dt_Error = None\<rparr> of
             Some r \<Rightarrow> dr_ToolCallID (dt_Message r) = cid \<and> \<not> dr_IsError (dt_Message r) \<and> dt_Error r = None
           | None \<Rightarrow> False)
      | None \<Rightarrow> False)"

text \<open>The edit \<open>e\<close> stands for a call made before a line that reports its success.\<close>

definition edit_of :: "edit_record \<Rightarrow> string \<Rightarrow> dshPendingEdit \<Rightarrow> bool" where
  "edit_of e cid p \<longleftrightarrow> er_EventID e = cid \<and> er_Timestamp e = dp_ts p \<and> er_Lang e = langFromPath (dp_path p) \<and>
     er_LinesAdded e = dp_added p \<and> er_LinesRemoved e = dp_removed p"

definition confirmed_edit :: "gotime \<Rightarrow> string list \<Rightarrow> edit_record \<Rightarrow> bool" where
  "confirmed_edit now lns e \<longleftrightarrow>
     (\<exists>a c b r d p. lns = a @ c # b @ r # d \<and> line_call now c = Some (er_EventID e, p) \<and>
        line_succeeds (er_EventID e) r \<and> edit_of e (er_EventID e) p)"

definition dsh_inv :: "gotime \<Rightarrow> string list \<Rightarrow> dsh_state \<Rightarrow> bool" where
  "dsh_inv now lns st \<longleftrightarrow>
     (\<forall>(cid, p) \<in> set (dh_pending st). \<exists>ln \<in> set lns. line_call now ln = Some (cid, p)) \<and>
     (\<forall>e \<in> set (sr_Edits (dh_res st)). confirmed_edit now lns e)"

lemma set_put_subset: "set (put k v m) \<subseteq> insert (k, v) (set m)"
  by (induction m) (auto split: if_splits)

lemma dsh_line_pending:
  "set (dh_pending (dsh_line tool cutoff now ln st)) \<subseteq> set (dh_pending st) \<union> set_option (line_call now ln)"
  using set_put_subset
  by (fastforce simp: dsh_line_def dsh_message_def dsh_call_def dsh_result_def line_call_def line_event_def Let_def
      split: option.splits if_splits prod.splits)

lemma dsh_line_edits:
  "sr_Edits (dh_res (dsh_line tool cutoff now ln st)) = sr_Edits (dh_res st) \<or>
   (\<exists>cid p. (cid, p) \<in> set (dh_pending st) \<and> line_succeeds cid ln \<and>
      sr_Edits (dh_res (dsh_line tool cutoff now ln st)) =
        sr_Edits (dh_res st) @ [dsh_edit tool cutoff now (dh_session st) cid p])"
  by (fastforce simp: dsh_line_def dsh_message_def dsh_call_def dsh_result_def line_succeeds_def line_event_def Let_def
      dest: map_of_SomeD split: option.split prod.split)

lemma confirmed_edit_append: "confirmed_edit now lns e \<Longrightarrow> confirmed_edit now (lns @ ms) e"
  unfolding confirmed_edit_def by (metis append.assoc append_Cons)

lemma dsh_inv_step:
  assumes "dsh_inv now lns st"
  shows "dsh_inv now (lns @ [ln]) (dsh_line tool cutoff now ln st)"
proof -
  let ?st = "dsh_line tool cutoff now ln st"
  have "\<exists>l \<in> set (lns @ [ln]). line_call now l = Some (cid, p)" if "(cid, p) \<in> set (dh_pending ?st)" for cid p
    using assms subsetD [OF dsh_line_pending that] by (fastforce simp: dsh_inv_def)
  moreover have "confirmed_edit now (lns @ [ln]) e" if e: "e \<in> set (sr_Edits (dh_res ?st))" for e
  proof (cases "e \<in> set (sr_Edits (dh_res st))")
    case True
    with assms show ?thesis by (simp add: dsh_inv_def confirmed_edit_append)
  next
    case False
    with dsh_line_edits [of tool cutoff now ln st] e obtain cid p where
      *: "(cid, p) \<in> set (dh_pending st)" "line_succeeds cid ln" "e = dsh_edit tool cutoff now (dh_session st) cid p"
      by auto
    with assms obtain c where "c \<in> set lns" "line_call now c = Some (cid, p)" by (auto simp: dsh_inv_def)
    then obtain a b where "lns = a @ c # b" "line_call now c = Some (cid, p)" by (meson split_list)
    with * show ?thesis
      by (fastforce simp: confirmed_edit_def edit_of_def dsh_edit_def)
  qed
  ultimately show ?thesis by (auto simp: dsh_inv_def)
qed

lemma dsh_inv_run: "dsh_inv now ms st \<Longrightarrow> dsh_inv now (ms @ lns) (dsh_run tool cutoff now lns st)"
proof (induction lns arbitrary: ms st)
  case (Cons ln lns)
  from Cons.IH [OF dsh_inv_step [OF Cons.prems]] show ?case by (simp add: dsh_run_def)
qed (simp add: dsh_run_def)

text \<open>
  C23. An edit of a session log is one that happened: its counts are those of a write or edit call of
  the log, with its id, that a later line reports to have succeeded; a call without such a line,
  or answered by an error, yields nothing.
\<close>

theorem deepseek_edits_confirmed:
  assumes "unzstd (fo_data ob) = Some (s, clean)"
    and "e \<in> set (sr_Edits (fst (deepseek_Scan unzstd ob path tool prev cutoff now)))"
  shows "confirmed_edit now (all_lines s) e"
proof -
  have "dsh_inv now [] dsh_start" by (simp add: dsh_inv_def dsh_start_def)
  from dsh_inv_run [OF this, of "all_lines s" tool cutoff]
  have "\<forall>e \<in> set (sr_Edits (dh_res (dsh_run tool cutoff now (all_lines s) dsh_start))). confirmed_edit now (all_lines s) e"
    by (simp add: dsh_inv_def)
  with assms show ?thesis
    by (auto simp: deepseek_Scan_def parseDeepseekHarnessFile_def split: option.splits if_splits prod.splits)
qed

definition dsh_log :: "string list" where
  "dsh_log = map (\<lambda>l. jq l @ [nl])
     [''{~type~:~session~,~id~:~s1~,~cwd~:~/w~}'',
      ''{~type~:~tool/call~,~time~:5,~data~:{~callId~:~c~,~name~:~write~,~arguments~:~{'' @ [bslash] @
        ''~file_path'' @ [bslash] @ ''~:'' @ [bslash] @ ''~a.go'' @ [bslash] @ ''~,'' @ [bslash] @ ''~content'' @
        [bslash] @ ''~:'' @ [bslash] @ ''~x'' @ [bslash] @ ''~}~}}'',
      ''{~type~:~tool/result~,~data~:{~message~:{~toolCallId~:~c~}}}'']"

definition dsh_file :: file_obs where
  "dsh_file = \<lparr>fo_stat = Some (3, 9), fo_opens = True, fo_data = ''zstd'', fo_read_fails = False\<rparr>"

theorem deepseek_edits_confirmed_witness:
  "let r = fst (deepseek_Scan (\<lambda>_. Some (concat dsh_log, True)) dsh_file ''/p/session.jsonl.zstd'' ''dsh'' zero_file_state 0 0)
   in map er_LinesAdded (sr_Edits r) = [1] \<and> confirmed_edit 0 (all_lines (concat dsh_log)) (hd (sr_Edits r))"
proof -
  let ?u = "\<lambda>_. Some (concat dsh_log, True)"
  let ?r = "fst (deepseek_Scan ?u dsh_file ''/p/session.jsonl.zstd'' ''dsh'' zero_file_state 0 0)"
  have lines: "map er_LinesAdded (sr_Edits ?r) = [1]" by code_simp
  then have "hd (sr_Edits ?r) \<in> set (sr_Edits ?r)" by (cases "sr_Edits ?r") auto
  with deepseek_edits_confirmed [of ?u dsh_file "concat dsh_log" True] lines show ?thesis by simp
qed

end
