(* ===== verification/Opencode.thy ===== *)
theory Opencode
  imports TailScan Lang "HOL-Library.Product_Lexorder"
begin

text \<open>
  opencode's SQLite database (\<open>parsers/opencode.go\<close>): two queries above a watermark, the highest
  \<open>time_updated\<close> seen, over messages and tool parts. What the queries see of the database is an
  observation; the SQL is modelled over its tables.
\<close>

section \<open>The database\<close>

record oc_row =
  oc_id :: string
  oc_session :: string
  oc_created :: int
  oc_updated :: int
  oc_data :: string

text \<open>
  A table as a query finds it: whether the query starts, its rows, and after how many rows
  delivered reading them fails, if it does.
\<close>

record oc_table =
  ot_query_ok :: bool
  ot_rows :: "oc_row list"
  ot_fails_after :: "nat option"

record opencode_db =
  od_stat :: "int option"
  od_opens :: bool
  od_sessions :: "(string \<times> string option) list"
  od_messages :: oc_table
  od_probe_ok :: bool
  od_parts :: "oc_table option"

definition oc_directory :: "opencode_db \<Rightarrow> oc_row \<Rightarrow> string" where
  "oc_directory db r = (case map_of (od_sessions db) (oc_session r) of Some (Some d) \<Rightarrow> d | _ \<Rightarrow> [])"

text \<open>\<open>WHERE time_updated > ? ORDER BY time_updated, id\<close>.\<close>

definition oc_select :: "int \<Rightarrow> oc_row list \<Rightarrow> oc_row list" where
  "oc_select cursor rows = sort_key (\<lambda>r. (oc_updated r, oc_id r)) (filter (\<lambda>r. cursor < oc_updated r) rows)"

definition oc_query :: "int \<Rightarrow> oc_table \<Rightarrow> (oc_row list \<times> bool) option" where
  "oc_query cursor t =
     (if \<not> ot_query_ok t then None
      else (let rows = oc_select cursor (ot_rows t) in
        case ot_fails_after t of None \<Rightarrow> Some (rows, True) | Some n \<Rightarrow> Some (take n rows, False)))"

section \<open>Messages\<close>

record opencodeCache =
  oc_Read :: int
  oc_Write :: int

record opencodeTokens =
  ok_Input :: int
  ok_Output :: int
  ok_Reasoning :: int
  ok_Cache :: opencodeCache

record opencodeMessageData =
  om_Role :: string
  om_ModelID :: string
  om_ProviderID :: string
  om_Tokens :: "opencodeTokens option"

definition dec_opencodeTokens :: "opencodeTokens decoder" where
  "dec_opencodeTokens = dec_struct
     [fld ''input'' dec_int64 ok_Input ok_Input_update,
      fld ''output'' dec_int64 ok_Output ok_Output_update,
      fld ''reasoning'' dec_int64 ok_Reasoning ok_Reasoning_update,
      fld ''cache'' (dec_struct
        [fld ''read'' dec_int64 oc_Read oc_Read_update,
         fld ''write'' dec_int64 oc_Write oc_Write_update]) ok_Cache ok_Cache_update]"

definition dec_opencodeMessageData :: "opencodeMessageData decoder" where
  "dec_opencodeMessageData = dec_struct
     [fld ''role'' dec_string om_Role om_Role_update,
      fld ''modelID'' dec_string om_ModelID om_ModelID_update,
      fld ''providerID'' dec_string om_ProviderID om_ProviderID_update,
      fld ''tokens''
        (dec_ptr \<lparr>ok_Input = 0, ok_Output = 0, ok_Reasoning = 0, ok_Cache = \<lparr>oc_Read = 0, oc_Write = 0\<rparr>\<rparr>
           dec_opencodeTokens) om_Tokens om_Tokens_update]"

definition opencodeMessageToRecord ::
    "string \<Rightarrow> string \<Rightarrow> string \<Rightarrow> string \<Rightarrow> string \<Rightarrow> int \<Rightarrow> duration \<Rightarrow> gotime \<Rightarrow> usage_record option" where
  "opencodeMessageToRecord mid sessionID directory tool data timeCreated cutoff now =
     (case unmarshal_ok dec_opencodeMessageData data
             \<lparr>om_Role = [], om_ModelID = [], om_ProviderID = [], om_Tokens = None\<rparr> of
        None \<Rightarrow> None
      | Some d \<Rightarrow>
          if om_Role d \<noteq> ''assistant'' then None
          else (case om_Tokens d of
             None \<Rightarrow> None
           | Some t \<Rightarrow>
               (let totalOut = i64 (ok_Output t + ok_Reasoning t); ts = unix_milli timeCreated in
                if ok_Input t = 0 \<and> totalOut = 0 \<and> oc_Read (ok_Cache t) = 0 \<and> oc_Write (ok_Cache t) = 0 then None
                else Some \<lparr>ur_MessageID = mid, ur_RequestID = [], ur_SessionID = sessionID, ur_Tool = tool,
                  ur_Model = om_ModelID d, ur_Timestamp = ts, ur_InputTokens = ok_Input t,
                  ur_OutputTokens = totalOut, ur_CacheCreationTokens = oc_Write (ok_Cache t),
                  ur_CacheCreation1hTokens = 0, ur_CacheReadTokens = oc_Read (ok_Cache t),
                  ur_ProjectPath = directory, ur_Backfill = is_backfill cutoff now ts\<rparr>)))"

section \<open>Tool parts\<close>

record opencodeInput =
  oi_FilePath :: string
  oi_Content :: string

record opencodeMetadata =
  ox_Diff :: string

record opencodeState =
  os_Status :: string
  os_Input :: opencodeInput
  os_Metadata :: opencodeMetadata

record opencodePartData =
  op_Type :: string
  op_Tool :: string
  op_State :: "opencodeState option"

definition dec_opencodeState :: "opencodeState decoder" where
  "dec_opencodeState = dec_struct
     [fld ''status'' dec_string os_Status os_Status_update,
      fld ''input'' (dec_struct
        [fld ''filePath'' dec_string oi_FilePath oi_FilePath_update,
         fld ''content'' dec_string oi_Content oi_Content_update]) os_Input os_Input_update,
      fld ''metadata'' (dec_struct [fld ''diff'' dec_string ox_Diff ox_Diff_update]) os_Metadata os_Metadata_update]"

definition dec_opencodePartData :: "opencodePartData decoder" where
  "dec_opencodePartData = dec_struct
     [fld ''type'' dec_string op_Type op_Type_update,
      fld ''tool'' dec_string op_Tool op_Tool_update,
      fld ''state''
        (dec_ptr \<lparr>os_Status = [], os_Input = \<lparr>oi_FilePath = [], oi_Content = []\<rparr>, os_Metadata = \<lparr>ox_Diff = []\<rparr>\<rparr>
           dec_opencodeState) op_State op_State_update]"

definition opencodePartToEdit ::
    "string \<Rightarrow> string \<Rightarrow> string \<Rightarrow> string \<Rightarrow> string \<Rightarrow> int \<Rightarrow> duration \<Rightarrow> gotime \<Rightarrow> edit_record option" where
  "opencodePartToEdit pid sessionID directory tool data timeCreated cutoff now =
     (case unmarshal_ok dec_opencodePartData data \<lparr>op_Type = [], op_Tool = [], op_State = None\<rparr> of
        None \<Rightarrow> None
      | Some d \<Rightarrow>
          (case op_State d of
             None \<Rightarrow> None
           | Some s \<Rightarrow>
               if op_Type d \<noteq> ''tool'' \<or> os_Status s \<noteq> ''completed'' \<or> oi_FilePath (os_Input s) = [] then None
               else
                 (let counts =
                    (if op_Tool d = ''edit'' then Some (diffLineCounts (split_on nl (ox_Diff (os_Metadata s))))
                     else if op_Tool d = ''write'' then
                       (let c = oi_Content (os_Input s) in
                        Some (if c \<noteq> [] then int (length (split_on nl (trim_suffix c [nl]))) else 0, 0))
                     else None);
                    ts = unix_milli timeCreated
                  in case counts of
                       None \<Rightarrow> None
                     | Some (added, removed) \<Rightarrow>
                         Some \<lparr>er_EventID = pid, er_SessionID = sessionID, er_Tool = tool, er_Timestamp = ts,
                           er_Lang = langFromPath (oi_FilePath (os_Input s)), er_LinesAdded = added,
                           er_LinesRemoved = removed, er_ProjectPath = directory,
                           er_Backfill = is_backfill cutoff now ts\<rparr>)))"

section \<open>The scan\<close>

text \<open>The loop over the rows of a query: the records so far and the highest \<open>time_updated\<close>.\<close>

fun oc_loop :: "(oc_row \<Rightarrow> 'r option) \<Rightarrow> oc_row list \<Rightarrow> 'r list \<Rightarrow> int \<Rightarrow> 'r list \<times> int" where
  "oc_loop rec [] out maxSeen = (out, maxSeen)"
| "oc_loop rec (r # rows) out maxSeen =
     oc_loop rec rows (case rec r of None \<Rightarrow> out | Some x \<Rightarrow> out @ [x])
       (if maxSeen < oc_updated r then oc_updated r else maxSeen)"

definition message_record :: "opencode_db \<Rightarrow> string \<Rightarrow> duration \<Rightarrow> gotime \<Rightarrow> oc_row \<Rightarrow> usage_record option" where
  "message_record db tool cutoff now r =
     opencodeMessageToRecord (oc_id r) (oc_session r) (oc_directory db r) tool (oc_data r) (oc_created r) cutoff now"

definition part_edit :: "opencode_db \<Rightarrow> string \<Rightarrow> duration \<Rightarrow> gotime \<Rightarrow> oc_row \<Rightarrow> edit_record option" where
  "part_edit db tool cutoff now r =
     opencodePartToEdit (oc_id r) (oc_session r) (oc_directory db r) tool (oc_data r) (oc_created r) cutoff now"

definition scanOpencodeParts ::
    "opencode_db \<Rightarrow> int \<Rightarrow> string \<Rightarrow> duration \<Rightarrow> gotime \<Rightarrow> edit_record list \<times> int \<times> scan_error option" where
  "scanOpencodeParts db cursor tool cutoff now =
     (if \<not> od_probe_ok db then ([], cursor, Some DbError)
      else (case od_parts db of
         None \<Rightarrow> ([], cursor, None)
       | Some t \<Rightarrow>
           (case oc_query cursor t of
              None \<Rightarrow> ([], cursor, Some DbError)
            | Some (rows, ok) \<Rightarrow>
                (let (out, maxSeen) = oc_loop (part_edit db tool cutoff now) rows [] cursor
                 in (out, maxSeen, if ok then None else Some DbError)))))"

definition opencode_Scan ::
    "opencode_db \<Rightarrow> string \<Rightarrow> file_state \<Rightarrow> duration \<Rightarrow> gotime \<Rightarrow> scan_return" where
  "opencode_Scan db tool prev cutoff now =
     (case od_stat db of
        None \<Rightarrow> (empty_result, zero_file_state, Some StatError)
      | Some inode \<Rightarrow>
          (let cursor = (if fs_Inode prev \<noteq> inode then 0 else fs_Offset prev);
               at = (\<lambda>m. \<lparr>fs_Inode = inode, fs_Offset = m\<rparr>)
           in if \<not> od_opens db then (empty_result, at cursor, Some DbError)
              else (case oc_query cursor (od_messages db) of
                 None \<Rightarrow> (empty_result, at cursor, Some DbError)
               | Some (rows, ok) \<Rightarrow>
                   (let (usage, maxSeen) = oc_loop (message_record db tool cutoff now) rows [] cursor;
                        res = \<lparr>sr_Usage = usage, sr_Edits = []\<rparr>
                    in if \<not> ok then (res, at maxSeen, Some DbError)
                       else (case scanOpencodeParts db cursor tool cutoff now of
                          (_, _, Some e) \<Rightarrow> (res, at maxSeen, Some e)
                        | (edits, editMax, None) \<Rightarrow>
                            (res\<lparr>sr_Edits := edits\<rparr>, at (if maxSeen < editMax then editMax else maxSeen), None))))))"

section \<open>What a scan returns\<close>

lemma oc_loop_eq:
  "oc_loop f rows out m = (out @ List.map_filter f rows, foldl max m (map oc_updated rows))"
  by (induction rows arbitrary: out m) (auto simp: List.map_filter_simps max_def split: option.split)

lemma set_oc_select [simp]: "set (oc_select c rows) = {r \<in> set rows. c < oc_updated r}"
  by (simp add: oc_select_def)

lemma distinct_oc_select: "distinct rows \<Longrightarrow> distinct (oc_select c rows)"
  by (simp add: oc_select_def)

lemma foldl_max_ge: "(m :: int) \<le> foldl max m xs" "x \<in> set xs \<Longrightarrow> x \<le> foldl max m xs"
proof -
  show m: "m \<le> foldl max m xs" for m :: int and xs
    by (induction xs arbitrary: m) (auto intro: order_trans [OF max.cobounded1])
  show "x \<in> set xs \<Longrightarrow> x \<le> foldl max m xs" for m :: int
    by (induction xs arbitrary: m) (auto intro: order_trans [OF max.cobounded2 m])
qed

lemma foldl_max_le: "(m :: int) \<le> b \<Longrightarrow> \<forall>x \<in> set xs. x \<le> b \<Longrightarrow> foldl max m xs \<le> b"
  by (induction xs arbitrary: m) auto

lemma foldl_max_append: "max (foldl max m xs) (foldl max m ys) = foldl max (m :: int) (xs @ ys)"
proof -
  have *: "foldl max (max m n) xs = max (foldl max m xs) n" for m n :: int and xs
  proof (induction xs arbitrary: m)
    case (Cons a xs)
    have "max (max m n) a = max (max m a) n" by simp
    with Cons show ?case by simp
  qed simp
  show ?thesis
    using * [of m "foldl max m xs" ys] foldl_max_ge(1) [of m xs] by (simp add: max.commute max_absorb2)
qed

definition part_rows :: "opencode_db \<Rightarrow> oc_row list" where
  "part_rows db = (case od_parts db of None \<Rightarrow> [] | Some t \<Rightarrow> ot_rows t)"

definition cursor_of :: "file_state \<Rightarrow> int \<Rightarrow> int" where
  "cursor_of st ino = (if fs_Inode st \<noteq> ino then 0 else fs_Offset st)"

lemma opencode_Scan_ok:
  assumes "opencode_Scan db tool st cutoff now = (r, st', None)" "od_stat db = Some ino" "c = cursor_of st ino"
  shows "sr_Usage r = List.map_filter (message_record db tool cutoff now) (oc_select c (ot_rows (od_messages db)))"
    and "sr_Edits r = List.map_filter (part_edit db tool cutoff now) (oc_select c (part_rows db))"
    and "st' = \<lparr>fs_Inode = ino, fs_Offset = foldl max c
           (map oc_updated (oc_select c (ot_rows (od_messages db)) @ oc_select c (part_rows db)))\<rparr>"
proof -
  let ?m = "oc_select c (ot_rows (od_messages db))" let ?p = "oc_select c (part_rows db)"
  have cur: "(if fs_Inode st \<noteq> ino then 0 else fs_Offset st) = c" using assms(3) by (simp add: cursor_of_def)
  note scan = assms(1) [unfolded opencode_Scan_def assms(2) option.case Let_def cur]
  obtain rows ok where q: "oc_query c (od_messages db) = Some (rows, ok)" and opens: "od_opens db"
    using scan by (auto split: if_splits option.splits)
  note scan' = scan [unfolded q option.case prod.case oc_loop_eq]
  have ok: "ok" using scan' opens by (auto split: if_splits prod.splits option.splits)
  then have rows: "rows = ?m" using q by (auto simp: oc_query_def Let_def split: if_splits option.splits)
  obtain edits em where parts: "scanOpencodeParts db c tool cutoff now = (edits, em, None)"
    using scan' opens ok by (cases "scanOpencodeParts db c tool cutoff now") (auto split: option.splits)
  have pm: "edits = List.map_filter (part_edit db tool cutoff now) ?p" "em = foldl max c (map oc_updated ?p)"
    using parts by (auto simp: scanOpencodeParts_def oc_query_def oc_loop_eq part_rows_def Let_def List.map_filter_simps
        oc_select_def split: if_splits option.splits)
  note res = scan' [unfolded rows parts option.case prod.case]
  show "sr_Usage r = List.map_filter (message_record db tool cutoff now) ?m" "sr_Edits r = List.map_filter (part_edit db tool cutoff now) ?p"
    using res ok opens pm(1) by auto
  have "st' = \<lparr>fs_Inode = ino, fs_Offset = max (foldl max c (map oc_updated ?m)) em\<rparr>"
    using res ok opens by (auto simp: max_def)
  then show "st' = \<lparr>fs_Inode = ino, fs_Offset = foldl max c (map oc_updated (?m @ ?p))\<rparr>"
    unfolding pm(2) foldl_max_append by simp
qed

section \<open>Any number of ticks\<close>

record oc_tick =
  ox_db :: opencode_db
  ox_now :: gotime
  ox_durable :: bool

text \<open>The watcher keeps records and progress of a tick when the scan succeeded and all was uploaded.\<close>

fun oc_run :: "string \<Rightarrow> duration \<Rightarrow> file_state \<Rightarrow> scan_result \<Rightarrow> oc_tick list \<Rightarrow> scan_result \<times> file_state" where
  "oc_run tool cutoff st acc [] = (acc, st)"
| "oc_run tool cutoff st acc (t # ts) =
     (case opencode_Scan (ox_db t) tool st cutoff (ox_now t) of
        (r, st', e) \<Rightarrow>
          if e = None \<and> ox_durable t then oc_run tool cutoff st' (append_result acc r) ts
          else oc_run tool cutoff st acc ts)"

text \<open>
  Time moves on: a row that the last snapshot did not have is stamped above every row seen so
  far, in both tables; rows may change, which stamps them anew, or go.
\<close>

definition tick_rows :: "oc_tick \<Rightarrow> oc_row list" where
  "tick_rows t = ot_rows (od_messages (ox_db t)) @ part_rows (ox_db t)"

fun oc_moves_on :: "int \<Rightarrow> int \<Rightarrow> oc_row list \<Rightarrow> oc_row list \<Rightarrow> oc_tick list \<Rightarrow> bool" where
  "oc_moves_on ino b ms ps [] = True"
| "oc_moves_on ino b ms ps (t # ts) \<longleftrightarrow>
     od_stat (ox_db t) = Some ino \<and>
     distinct (ot_rows (od_messages (ox_db t))) \<and> distinct (part_rows (ox_db t)) \<and>
     (\<forall>r \<in> set (ot_rows (od_messages (ox_db t))). r \<in> set ms \<or> b < oc_updated r) \<and>
     (\<forall>r \<in> set (part_rows (ox_db t)). r \<in> set ps \<or> b < oc_updated r) \<and>
     oc_moves_on ino (foldl max b (map oc_updated (tick_rows t)))
       (ot_rows (od_messages (ox_db t))) (part_rows (ox_db t)) ts"

text \<open>A row's record but for the directory, which its session may change, and the backfill mark.\<close>

definition oc_usage :: "string \<Rightarrow> oc_row \<Rightarrow> usage_record option" where
  "oc_usage tool r = opencodeMessageToRecord (oc_id r) (oc_session r) [] tool (oc_data r) (oc_created r) 0 0"

definition oc_edit :: "string \<Rightarrow> oc_row \<Rightarrow> edit_record option" where
  "oc_edit tool r = opencodePartToEdit (oc_id r) (oc_session r) [] tool (oc_data r) (oc_created r) 0 0"

definition bare_usage :: "usage_record \<Rightarrow> usage_record" where
  "bare_usage u = u\<lparr>ur_ProjectPath := [], ur_Backfill := False\<rparr>"

definition bare_edit :: "edit_record \<Rightarrow> edit_record" where
  "bare_edit e = e\<lparr>er_ProjectPath := [], er_Backfill := False\<rparr>"

lemma map_map_filter: "map g (List.map_filter f xs) = List.map_filter (\<lambda>x. map_option g (f x)) xs"
  by (induction xs) (auto simp: List.map_filter_simps split: option.split)

lemma message_record_bare:
  "map bare_usage (List.map_filter (message_record db tool cutoff now) rows) = List.map_filter (oc_usage tool) rows"
proof -
  have "(\<lambda>r. map_option bare_usage (message_record db tool cutoff now r)) = oc_usage tool"
    by (simp add: fun_eq_iff message_record_def oc_usage_def opencodeMessageToRecord_def bare_usage_def Let_def
        split: option.split)
  then show ?thesis by (simp add: map_map_filter)
qed

lemma part_edit_bare:
  "map bare_edit (List.map_filter (part_edit db tool cutoff now) rows) = List.map_filter (oc_edit tool) rows"
proof -
  have "(\<lambda>r. map_option bare_edit (part_edit db tool cutoff now r)) = oc_edit tool"
    by (simp add: fun_eq_iff part_edit_def oc_edit_def opencodePartToEdit_def bare_edit_def Let_def
        split: option.split prod.split)
  then show ?thesis by (simp add: map_map_filter)
qed

lemma map_filter_append': "List.map_filter f (xs @ ys) = List.map_filter f xs @ List.map_filter f ys"
  by (simp add: List.map_filter_def)

text \<open>The rows \<open>em\<close> were emitted, each once, and they are all of the snapshot up to the watermark.\<close>

definition covered :: "int \<Rightarrow> oc_row list \<Rightarrow> oc_row list \<Rightarrow> bool" where
  "covered c snap em \<longleftrightarrow> distinct em \<and> (\<forall>r \<in> set em. oc_updated r \<le> c) \<and>
     (\<forall>r \<in> set snap. oc_updated r \<le> c \<longrightarrow> r \<in> set em)"

lemma covered_next:
  assumes "covered c prev em" "\<forall>r \<in> set snap. r \<in> set prev \<or> b < oc_updated r" "c \<le> b"
  shows "covered c snap em"
  using assms by (fastforce simp: covered_def)

lemma covered_select:
  assumes "covered c snap em" "distinct snap" "c \<le> c'" "\<forall>r \<in> set (oc_select c snap). oc_updated r \<le> c'"
  shows "covered c' snap (em @ oc_select c snap)" "set snap \<subseteq> set (em @ oc_select c snap)"
  using assms by (fastforce simp: covered_def distinct_oc_select)+

definition oc_inv ::
    "string \<Rightarrow> int \<Rightarrow> int \<Rightarrow> oc_row list \<Rightarrow> oc_row list \<Rightarrow> file_state \<Rightarrow> scan_result \<Rightarrow>
     oc_row list \<Rightarrow> oc_row list \<Rightarrow> bool" where
  "oc_inv tool ino b ms ps st acc M P \<longleftrightarrow>
     cursor_of st ino \<le> b \<and> covered (cursor_of st ino) ms M \<and> covered (cursor_of st ino) ps P \<and>
     map bare_usage (sr_Usage acc) = List.map_filter (oc_usage tool) M \<and>
     map bare_edit (sr_Edits acc) = List.map_filter (oc_edit tool) P"

lemma oc_inv_step:
  assumes inv: "oc_inv tool ino b ms ps st acc M P" and mv: "oc_moves_on ino b ms ps (t # ts)"
    and run: "oc_run tool cutoff st acc [t] = (acc', st')"
    and db: "db = ox_db t" "snap = ot_rows (od_messages db)" "psnap = part_rows db"
    and b': "b' = foldl max b (map oc_updated (tick_rows t))"
  shows "\<exists>M' P'. oc_inv tool ino b' snap psnap st' acc' M' P' \<and>
    set M' \<subseteq> set M \<union> set snap \<and> set P' \<subseteq> set P \<union> set psnap \<and>
    (snd (snd (opencode_Scan db tool st cutoff (ox_now t))) = None \<and> ox_durable t \<longrightarrow>
       set snap \<subseteq> set M' \<and> set psnap \<subseteq> set P')"
proof -
  let ?c = "cursor_of st ino"
  obtain r st1 e where scan: "opencode_Scan db tool st cutoff (ox_now t) = (r, st1, e)"
    by (rule prod_cases3)
  have c: "?c \<le> b" "covered ?c snap M" "covered ?c psnap P" and bb: "b \<le> b'"
    using inv mv db covered_next foldl_max_ge(1) by (fastforce simp: oc_inv_def b')+
  show ?thesis
  proof (cases "e = None \<and> ox_durable t")
    case False
    with run scan db have "acc' = acc" "st' = st" by (auto split: if_splits)
    with inv c bb have "oc_inv tool ino b' snap psnap st' acc' M P" by (simp add: oc_inv_def)
    with False scan show ?thesis by - (rule exI [of _ M], rule exI [of _ P], auto)
  next
    case True
    with run scan db have "acc' = append_result acc r" "st' = st1" by (auto split: if_splits)
    let ?m = "oc_select ?c snap" let ?p = "oc_select ?c psnap"
    let ?c' = "foldl max ?c (map oc_updated (?m @ ?p))"
    have ok: "opencode_Scan db tool st cutoff (ox_now t) = (r, st1, None)" "od_stat db = Some ino"
      using scan True mv db by auto
    note res = opencode_Scan_ok [OF ok refl]
    have c': "cursor_of st' ino = ?c'" using res(3) \<open>st' = st1\<close> db by (simp add: cursor_of_def)
    have le: "?c \<le> ?c'" "\<forall>x \<in> set (?m @ ?p). oc_updated x \<le> ?c'"
      using foldl_max_ge by (force simp del: map_append set_append)+
    have "covered ?c' snap (M @ ?m)" "set snap \<subseteq> set (M @ ?m)"
      by (rule covered_select [OF c(2) _ le(1)]; use mv db le(2) in simp)+
    moreover have "covered ?c' psnap (P @ ?p)" "set psnap \<subseteq> set (P @ ?p)"
      by (rule covered_select [OF c(3) _ le(1)]; use mv db le(2) in simp)+
    moreover have "?c' \<le> b'"
    proof (rule foldl_max_le)
      have "oc_updated x \<le> b'" if "x \<in> set snap \<union> set psnap" for x
        unfolding b' by (rule foldl_max_ge(2)) (use that in \<open>auto simp: tick_rows_def db\<close>)
      then show "\<forall>x \<in> set (map oc_updated (?m @ ?p)). x \<le> b'" by auto
    qed (use c(1) bb in simp)
    ultimately have "oc_inv tool ino b' snap psnap st' acc' (M @ ?m) (P @ ?p)"
      using inv c' res(1,2) db \<open>acc' = append_result acc r\<close>
      by (simp add: oc_inv_def message_record_bare part_edit_bare map_filter_append')
    with \<open>set snap \<subseteq> _\<close> \<open>set psnap \<subseteq> _\<close> show ?thesis
      by - (rule exI [of _ "M @ ?m"], rule exI [of _ "P @ ?p"], auto)
  qed
qed

lemma oc_run_Cons:
  "oc_run tool cutoff st acc (t # ts) =
     (case oc_run tool cutoff st acc [t] of (acc', st') \<Rightarrow> oc_run tool cutoff st' acc' ts)"
  by (simp split: prod.split)

lemma oc_run_inv:
  assumes "oc_inv tool ino b ms ps st acc M P" "oc_moves_on ino b ms ps (ts @ [t])"
    and "oc_run tool cutoff st acc (ts @ [t]) = (acc', st')"
    and "\<And>st. snd (snd (opencode_Scan (ox_db t) tool st cutoff (ox_now t))) = None" "ox_durable t"
  shows "\<exists>M' P'. distinct M' \<and> distinct P' \<and>
    set M' \<subseteq> set M \<union> (\<Union>x \<in> set (ts @ [t]). set (ot_rows (od_messages (ox_db x)))) \<and>
    set P' \<subseteq> set P \<union> (\<Union>x \<in> set (ts @ [t]). set (part_rows (ox_db x))) \<and>
    set (ot_rows (od_messages (ox_db t))) \<subseteq> set M' \<and> set (part_rows (ox_db t)) \<subseteq> set P' \<and>
    map bare_usage (sr_Usage acc') = List.map_filter (oc_usage tool) M' \<and>
    map bare_edit (sr_Edits acc') = List.map_filter (oc_edit tool) P'"
  using assms(1-3)
proof (induction ts arbitrary: b ms ps st acc M P)
  case Nil
  from oc_inv_step [OF Nil(1) Nil(2) [simplified append_Nil] Nil(3) [simplified append_Nil] refl refl refl refl] assms(4,5)
  obtain b' M' P' where "oc_inv tool ino b' (ot_rows (od_messages (ox_db t))) (part_rows (ox_db t)) st' acc' M' P'"
    and "set M' \<subseteq> set M \<union> set (ot_rows (od_messages (ox_db t)))" "set P' \<subseteq> set P \<union> set (part_rows (ox_db t))"
    and "set (ot_rows (od_messages (ox_db t))) \<subseteq> set M'" "set (part_rows (ox_db t)) \<subseteq> set P'"
    by blast
  then show ?case unfolding oc_inv_def covered_def by - (rule exI [of _ M'], rule exI [of _ P'], simp)
next
  case (Cons x ts)
  obtain acc1 st1 where run1: "oc_run tool cutoff st acc [x] = (acc1, st1)" by (meson surj_pair)
  from oc_inv_step [OF Cons.prems(1) Cons.prems(2) [simplified append_Cons] run1 refl refl refl refl]
  obtain M1 P1 where inv1: "oc_inv tool ino (foldl max b (map oc_updated (tick_rows x)))
      (ot_rows (od_messages (ox_db x))) (part_rows (ox_db x)) st1 acc1 M1 P1"
    and sub: "set M1 \<subseteq> set M \<union> set (ot_rows (od_messages (ox_db x)))" "set P1 \<subseteq> set P \<union> set (part_rows (ox_db x))"
    by blast
  have "oc_run tool cutoff st1 acc1 (ts @ [t]) = (acc', st')"
    using Cons.prems(3) run1 oc_run_Cons [of tool cutoff st acc x "ts @ [t]"] by simp
  moreover have "oc_moves_on ino (foldl max b (map oc_updated (tick_rows x)))
      (ot_rows (od_messages (ox_db x))) (part_rows (ox_db x)) (ts @ [t])"
    using Cons.prems(2) by simp
  ultimately show ?case using Cons.IH [OF inv1] sub by (elim exE conjE impE meta_impE) (assumption | intro exI conjI; fastforce)+
qed

definition table_reads :: "oc_table \<Rightarrow> bool" where
  "table_reads t \<longleftrightarrow> ot_query_ok t \<and> ot_fails_after t = None"

definition db_reads :: "opencode_db \<Rightarrow> bool" where
  "db_reads db \<longleftrightarrow> od_stat db \<noteq> None \<and> od_opens db \<and> od_probe_ok db \<and> table_reads (od_messages db) \<and>
     (case od_parts db of None \<Rightarrow> True | Some t \<Rightarrow> table_reads t)"

lemma opencode_Scan_reads: "db_reads db \<Longrightarrow> snd (snd (opencode_Scan db tool st cutoff now)) = None"
  by (auto simp: db_reads_def table_reads_def opencode_Scan_def scanOpencodeParts_def oc_query_def Let_def
      split: option.splits prod.splits)

text \<open>
  C22. opencode's rows are read exactly once: while time moves on in the database, over any ticks with
  failed queries and failed uploads among them, after a tick that reads and uploads the kept
  records are those of a list of rows without repetition that holds every row of that tick's
  tables, and only rows that were in them.
\<close>

theorem opencode_exactly_once:
  assumes "oc_moves_on ino 0 [] [] (ts @ [t])"
    and "oc_run tool cutoff zero_file_state empty_result (ts @ [t]) = (acc, st)"
    and "db_reads (ox_db t)" "ox_durable t"
  shows "\<exists>M P. distinct M \<and> distinct P \<and>
    set (ot_rows (od_messages (ox_db t))) \<subseteq> set M \<and> set (part_rows (ox_db t)) \<subseteq> set P \<and>
    set M \<subseteq> (\<Union>x \<in> set (ts @ [t]). set (ot_rows (od_messages (ox_db x)))) \<and>
    set P \<subseteq> (\<Union>x \<in> set (ts @ [t]). set (part_rows (ox_db x))) \<and>
    map bare_usage (sr_Usage acc) = List.map_filter (oc_usage tool) M \<and>
    map bare_edit (sr_Edits acc) = List.map_filter (oc_edit tool) P"
proof -
  have "oc_inv tool ino 0 [] [] zero_file_state empty_result [] []"
    by (simp add: oc_inv_def cursor_of_def zero_file_state_def covered_def List.map_filter_simps)
  from oc_run_inv [OF this assms(1,2) opencode_Scan_reads [OF assms(3)] assms(4)] show ?thesis by auto
qed

definition oc_message :: "string \<Rightarrow> int \<Rightarrow> oc_row" where
  "oc_message i at = \<lparr>oc_id = i, oc_session = ''s'', oc_created = at, oc_updated = at,
     oc_data = jq ''{~role~:~assistant~,~modelID~:~m~,~tokens~:{~input~:3,~output~:4}}''\<rparr>"

definition oc_db :: "oc_row list \<Rightarrow> oc_row list \<Rightarrow> opencode_db" where
  "oc_db ms ps = \<lparr>od_stat = Some 7, od_opens = True, od_sessions = [],
     od_messages = \<lparr>ot_query_ok = True, ot_rows = ms, ot_fails_after = None\<rparr>, od_probe_ok = True,
     od_parts = Some \<lparr>ot_query_ok = True, ot_rows = ps, ot_fails_after = None\<rparr>\<rparr>"

definition oc_good_tick :: "oc_row list \<Rightarrow> oc_row list \<Rightarrow> oc_tick" where
  "oc_good_tick ms ps = \<lparr>ox_db = oc_db ms ps, ox_now = 0, ox_durable = True\<rparr>"

theorem opencode_exactly_once_witness:
  "let ts = [oc_good_tick [oc_message ''a'' 5] []]; t = oc_good_tick [oc_message ''a'' 5, oc_message ''b'' 8] []
   in \<exists>M acc st. oc_run ''oc'' 0 zero_file_state empty_result (ts @ [t]) = (acc, st) \<and>
        map ur_MessageID (sr_Usage acc) = [''a'', ''b''] \<and>
        distinct M \<and> map bare_usage (sr_Usage acc) = List.map_filter (oc_usage ''oc'') M"
proof -
  let ?ts = "[oc_good_tick [oc_message ''a'' 5] []]"
  let ?t = "oc_good_tick [oc_message ''a'' 5, oc_message ''b'' 8] []"
  obtain acc st where r: "oc_run ''oc'' 0 zero_file_state empty_result (?ts @ [?t]) = (acc, st)" by (meson surj_pair)
  have "oc_moves_on 7 0 [] [] (?ts @ [?t])" "db_reads (ox_db ?t)" "ox_durable ?t" by code_simp+
  note opencode_exactly_once [OF this(1) r this(2,3)]
  moreover have "map ur_MessageID (sr_Usage (fst (oc_run ''oc'' 0 zero_file_state empty_result (?ts @ [?t])))) = [''a'', ''b'']"
    by code_simp
  ultimately show ?thesis using r by (auto simp: Let_def)
qed

text \<open>
  Time has to move on: a message stamped no later than a part that was read before it became
  visible is below the watermark for good.
\<close>

lemma opencode_watermark_skips:
  "map ur_MessageID (sr_Usage (fst (oc_run ''oc'' 0 zero_file_state empty_result
     [oc_good_tick [oc_message ''a'' 5] [oc_message ''p'' 9],
      oc_good_tick [oc_message ''a'' 5, oc_message ''b'' 8] [oc_message ''p'' 9],
      oc_good_tick [oc_message ''a'' 5, oc_message ''b'' 8] [oc_message ''p'' 9]]))) = [''a'']"
  by code_simp

end
