(* ===== verification/Files.thy ===== *)
theory Files
  imports Main
begin

text \<open>
  What a write to the file system can do, shared by the checkpoint and the spool: both write a
  temporary file and rename it into place.
\<close>

text \<open>How \<open>os.WriteFile\<close> ends: all written, nothing created, or an error after some bytes.\<close>

datatype write_outcome = Written | NotCreated | Truncated nat

text \<open>What \<open>os.ReadFile\<close> finds.\<close>

datatype read_outcome = NoFile | Unreadable | Contents string

end
