(* ===== verification/Checkpoint.thy ===== *)
theory Checkpoint
  imports JsonEnc Types Files
begin

text \<open>
  The watcher's checkpoint (\<open>watcher/checkpoint.go\<close>): progress per file path, as a JSON file that
  is written beside and renamed into place.
\<close>

section \<open>The map and its file\<close>

record checkpoint =
  ck_Files :: "(string \<times> file_state) list"

text \<open>\<open>uint64\<close> fields take decimal digits in range.\<close>

definition parse_uint64 :: "string \<Rightarrow> int option" where
  "parse_uint64 n = (if n \<noteq> [] \<and> list_all is_digit n \<and> dec_val n < 2 ^ 64 then Some (dec_val n) else None)"

fun dec_uint64 :: "int decoder" where
  "dec_uint64 (_, JNum n) old = (case parse_uint64 n of Some v \<Rightarrow> (v, True) | None \<Rightarrow> (old, False))"
| "dec_uint64 (_, JNull) old = (old, True)"
| "dec_uint64 _ old = (old, False)"

definition dec_file_state :: "file_state decoder" where
  "dec_file_state = dec_struct
     [fld ''inode'' dec_uint64 fs_Inode fs_Inode_update,
      fld ''offset'' dec_int64 fs_Offset fs_Offset_update]"

definition dec_checkpoint :: "checkpoint decoder" where
  "dec_checkpoint = dec_struct
     [fld ''files'' (dec_map zero_file_state dec_file_state) ck_Files ck_Files_update]"

text \<open>\<open>None\<close> is an error: the watcher does not start.\<close>

definition LoadCheckpoint :: "read_outcome \<Rightarrow> checkpoint option" where
  "LoadCheckpoint f =
     (case f of
        NoFile \<Rightarrow> Some \<lparr>ck_Files = []\<rparr>
      | Unreadable \<Rightarrow> None
      | Contents data \<Rightarrow> unmarshal_ok dec_checkpoint data \<lparr>ck_Files = []\<rparr>)"

definition ckpt_Get :: "checkpoint \<Rightarrow> string \<Rightarrow> file_state option" where
  "ckpt_Get c path = map_of (ck_Files c) path"

definition ckpt_Set :: "checkpoint \<Rightarrow> string \<Rightarrow> file_state \<Rightarrow> checkpoint" where
  "ckpt_Set c path s = c\<lparr>ck_Files := put path s (ck_Files c)\<rparr>"

section \<open>Writing\<close>

text \<open>\<open>json.MarshalIndent\<close> with two spaces: objects over several lines, map keys in order.\<close>

definition indent :: "nat \<Rightarrow> string" where "indent k = nl # replicate (2 * k) (CHR '' '')"

definition enc_indented :: "nat \<Rightarrow> (string \<times> string) list \<Rightarrow> string" where
  "enc_indented k ms =
     (if ms = [] then ''{}''
      else ''{'' @ indent (k + 1) @
        join ('','' @ indent (k + 1)) (map (\<lambda>(key, v). enc_string key @ '': '' @ v) ms) @ indent k @ ''}'')"

definition enc_file_state :: "file_state \<Rightarrow> string" where
  "enc_file_state s = enc_indented 2 [(''inode'', itoa (fs_Inode s)), (''offset'', itoa (fs_Offset s))]"

definition marshal_checkpoint :: "checkpoint \<Rightarrow> string" where
  "marshal_checkpoint c =
     enc_indented 0
       [(''files'', enc_indented 1 (map (\<lambda>(p, s). (p, enc_file_state s)) (sort_key fst (ck_Files c))))]"

record ckpt_disk =
  dk_file :: "string option"
  dk_tmp :: "string option"

record save_env =
  ve_mkdir :: bool
  ve_write :: write_outcome
  ve_rename :: bool

definition Save :: "save_env \<Rightarrow> checkpoint \<Rightarrow> ckpt_disk \<Rightarrow> bool \<times> ckpt_disk" where
  "Save e c dk =
     (if \<not> ve_mkdir e then (False, dk)
      else (let data = marshal_checkpoint c in
        case ve_write e of
          NotCreated \<Rightarrow> (False, dk)
        | Truncated n \<Rightarrow> (False, dk\<lparr>dk_tmp := Some (take n data)\<rparr>)
        | Written \<Rightarrow>
            if ve_rename e then (True, \<lparr>dk_file = Some data, dk_tmp = None\<rparr>)
            else (False, dk\<lparr>dk_tmp := Some data\<rparr>)))"

definition disk_reads :: "ckpt_disk \<Rightarrow> read_outcome" where
  "disk_reads dk = (case dk_file dk of None \<Rightarrow> NoFile | Some s \<Rightarrow> Contents s)"

section \<open>Reading an indented object back\<close>

lemma skip_indent [simp]: "skip_ws (indent k @ s) = skip_ws s"
  by (simp add: indent_def is_ws_def dropWhile_append)

lemma parse_members_indented:
  assumes "list_all (\<lambda>(k, t, v). reads d t v) ms" "ms \<noteq> []"
  shows "parse_members d (join ('','' @ indent j) (map (\<lambda>(k, t, v). enc_string k @ '': '' @ t) ms) @
           indent i @ ''}'' @ rest) = Some (map (\<lambda>(k, t, v). (to_valid k, t, v)) ms, rest)"
  using assms
proof (induction ms)
  case (Cons m ms)
  obtain k t v where m: "m = (k, t, v)" by (cases m)
  have r: "reads d t v" using Cons.prems m by simp
  have lex: "lex_str (escape_str k @ dquote # s) = Some (escape_str k, s)" for s by (rule lex_escape_str)
  have step: "parse_members d ((enc_string k @ '': '' @ t) @ z) =
      (case skip_ws z of
         [] \<Rightarrow> None
       | y # u \<Rightarrow> if y = CHR ''}'' then Some ([(to_valid k, t, v)], u)
           else if y = CHR '','' then map_option (\<lambda>(ms, r'). ((to_valid k, t, v) # ms, r')) (parse_members d (skip_ws u))
           else None)"
    if "hd z \<in> {CHR '','', CHR ''}'', CHR '']'', nl}" for z
  proof -
    have p: "parse_value d (t @ z) = Some (v, z)" using readsD(1) [OF r that] .
    have ws: "skip_ws (t @ z) = t @ z" by (rule skip_ws_nonws) (use readsD(2,3) [OF r] in auto)
    have colon: "skip_ws (CHR '':'' # CHR '' '' # t @ z) = CHR '':'' # CHR '' '' # t @ z"
      "skip_ws (CHR '' '' # t @ z) = t @ z" using ws by (simp_all add: is_ws_def)
    have le: "length (skip_ws u) < length ((enc_string k @ '': '' @ t) @ z)" if "skip_ws z = y # u" for y u
      using length_dropWhile_le [of is_ws u] length_dropWhile_le [of is_ws z] that by simp
    have "(enc_string k @ '': '' @ t) @ z = dquote # (escape_str k @ dquote # CHR '':'' # CHR '' '' # t @ z)"
      by (simp add: enc_string_def)
    with le show ?thesis
      by (auto simp only: parse_members.simps lex option.case prod.case colon list.case ws p Let_def unquote_escape_str
          simp_thms if_True if_False split: list.split) (auto simp: le_imp_less_Suc)
  qed
  show ?case
  proof (cases ms)
    case Nil
    have "parse_members d ((enc_string k @ '': '' @ t) @ indent i @ ''}'' @ rest) = Some ([(to_valid k, t, v)], rest)"
      by (subst step) (simp_all add: indent_def is_ws_def dropWhile_append)
    then show ?thesis using m Nil by simp
  next
    case (Cons y ys)
    let ?tail = "join ('','' @ indent j) (map (\<lambda>(k, t, v). enc_string k @ '': '' @ t) ms) @ indent i @ ''}'' @ rest"
    have "hd ?tail = dquote" "?tail \<noteq> []" using Cons by (cases y; cases ys; simp add: enc_string_def)+
    then have ws: "skip_ws ?tail = ?tail" by (intro skip_ws_nonws) (auto simp: is_ws_def)
    have IH: "parse_members d ?tail = Some (map (\<lambda>(k, t, v). (to_valid k, t, v)) ms, rest)"
      using Cons.IH Cons.prems Cons by simp
    obtain z where z: "?tail = z" by blast
    have "parse_members d ((enc_string k @ '': '' @ t) @ CHR '','' # indent j @ z) =
        Some ((to_valid k, t, v) # map (\<lambda>(k, t, v). (to_valid k, t, v)) ms, rest)"
      using ws IH unfolding z by (subst step) (simp_all add: is_ws_def)
    then show ?thesis using m Cons unfolding z [symmetric] by simp
  qed
qed simp

lemma reads_indented:
  assumes "list_all (\<lambda>(k, t, v). reads (d - 1) t v) ms" "0 < d"
  shows "reads d (enc_indented i (map (\<lambda>(k, t, v). (k, t)) ms)) (JObj (map (\<lambda>(k, t, v). (to_valid k, t, v)) ms))"
proof -
  have eq: "map (\<lambda>(key, v). enc_string key @ '': '' @ v) (map (\<lambda>(k, t, v). (k, t)) ms) =
      map (\<lambda>(k, t, v). enc_string k @ '': '' @ t) ms"
    by (simp add: case_prod_unfold)
  have "parse_value d (enc_indented i (map (\<lambda>(k, t, v). (k, t)) ms) @ rest) =
      Some (JObj (map (\<lambda>(k, t, v). (to_valid k, t, v)) ms), rest)" for rest
  proof (cases ms)
    case Nil
    then show ?thesis using assms(2) by (simp add: enc_indented_def parse_value_obj is_ws_def)
  next
    case (Cons y ys)
    let ?b = "join ('','' @ indent (i + 1)) (map (\<lambda>(k, t, v). enc_string k @ '': '' @ t) ms) @ indent i @ ''}'' @ rest"
    obtain b where b: "?b = b" by blast
    have "hd ?b = dquote" "?b \<noteq> []" using Cons by (cases y; cases ys; simp add: enc_string_def)+
    then obtain u where u: "b = dquote # u" using b by (cases b) auto
    have p: "parse_members (d - 1) b = Some (map (\<lambda>(k, t, v). (to_valid k, t, v)) ms, rest)"
      using parse_members_indented [of "d - 1" ms] assms(1) Cons unfolding b [symmetric] by simp
    have "parse_value d (CHR ''{'' # indent (i + 1) @ b) = Some (JObj (map (\<lambda>(k, t, v). (to_valid k, t, v)) ms), rest)"
      using assms(2) p u by (simp add: parse_value_obj is_ws_def)
    moreover have "enc_indented i (map (\<lambda>(k, t, v). (k, t)) ms) @ rest = CHR ''{'' # indent (i + 1) @ b"
      unfolding enc_indented_def eq using Cons by (simp add: b [symmetric])
    ultimately show ?thesis by simp
  qed
  then show ?thesis by (simp add: reads_def enc_indented_def is_ws_def)
qed

section \<open>What is saved is what is loaded\<close>

text \<open>A state as the program has them: an unsigned inode and a signed offset, 64 bits each.\<close>

definition state_ok :: "file_state \<Rightarrow> bool" where
  "state_ok s \<longleftrightarrow> 0 \<le> fs_Inode s \<and> fs_Inode s < 2 ^ 64 \<and> in_i64 (fs_Offset s)"

definition checkpoint_ok :: "checkpoint \<Rightarrow> bool" where
  "checkpoint_ok c \<longleftrightarrow> distinct (map fst (ck_Files c)) \<and> (\<forall>(p, s) \<in> set (ck_Files c). valid_utf8 p \<and> state_ok s)"

definition state_value :: "file_state \<Rightarrow> json" where
  "state_value s = JObj [(''inode'', itoa (fs_Inode s), JNum (itoa (fs_Inode s))),
     (''offset'', itoa (fs_Offset s), JNum (itoa (fs_Offset s)))]"

lemma parse_uint64_itoa: "0 \<le> i \<Longrightarrow> i < 2 ^ 64 \<Longrightarrow> parse_uint64 (itoa i) = Some i"
  using nat_str_ne nat_str_digits dec_val_nat_str [of "nat i"] by (simp add: parse_uint64_def itoa_def list_all_iff)

lemma enc_state_reads: "0 < d \<Longrightarrow> reads d (enc_file_state s) (state_value s)"
proof -
  assume d: "0 < d"
  have plain: "to_valid ''inode'' = ''inode''" "to_valid ''offset'' = ''offset''" by code_simp+
  show ?thesis
    using reads_indented [of d "[(''inode'', itoa (fs_Inode s), JNum (itoa (fs_Inode s))),
       (''offset'', itoa (fs_Offset s), JNum (itoa (fs_Offset s)))]" 2] d reads_int plain
    by (simp add: enc_file_state_def state_value_def)
qed

lemma dec_state_value: "state_ok s \<Longrightarrow> dec_file_state (raw, state_value s) zero_file_state = (s, True)"
  by (cases s) (simp add: dec_file_state_def state_value_def dec_struct_def find_field_def fld_def state_ok_def
      parse_uint64_itoa parse_int64_itoa zero_file_state_def)

lemma put_fresh: "k \<notin> fst ` set n \<Longrightarrow> put k v n = n @ [(k, v)]"
  by (induction n) auto

lemma foldl_put_fresh:
  assumes "distinct (map fst m @ map fst ms)" "\<forall>(k, s) \<in> set ms. state_ok s"
  shows "foldl (\<lambda>(m, ok) (k, x). let (y, ok') = dec_file_state x zero_file_state in (put k y m, ok \<and> ok'))
    (m, True) (map (\<lambda>(k, s). (k, enc_file_state s, state_value s)) ms) = (m @ ms, True)"
  using assms
proof (induction ms arbitrary: m)
  case (Cons x ms)
  obtain k s where x: "x = (k, s)" by (cases x)
  have "put k s m = m @ [(k, s)]" by (rule put_fresh) (use Cons.prems x in auto)
  with Cons.IH [of "m @ [(k, s)]"] Cons.prems x show ?case by (simp add: dec_state_value)
qed simp

lemma load_marshal:
  assumes "checkpoint_ok c"
  shows "LoadCheckpoint (Contents (marshal_checkpoint c)) = Some \<lparr>ck_Files = sort_key fst (ck_Files c)\<rparr>"
proof -
  let ?fs = "sort_key fst (ck_Files c)"
  let ?ms = "map (\<lambda>(p, s). (p, enc_file_state s, state_value s)) ?fs"
  have fs: "distinct (map fst ?fs)" "\<forall>(p, s) \<in> set ?fs. valid_utf8 p \<and> state_ok s"
    using assms by (auto simp: checkpoint_ok_def distinct_map)
  have valid: "map (\<lambda>(k, t, v). (to_valid k, t, v)) ?ms = ?ms"
    using fs(2) by (auto simp: valid_utf8_def)
  have pairs: "map (\<lambda>(k, t, v). (k, t)) ?ms = map (\<lambda>(p, s). (p, enc_file_state s)) ?fs"
    by (simp add: case_prod_unfold)
  have "reads (max_depth - 1) (enc_indented 1 (map (\<lambda>(k, t, v). (k, t)) ?ms)) (JObj (map (\<lambda>(k, t, v). (to_valid k, t, v)) ?ms))"
    by (rule reads_indented) (auto simp: max_depth_def enc_state_reads list_all_iff)
  then have files: "reads (max_depth - 1) (enc_indented 1 (map (\<lambda>(p, s). (p, enc_file_state s)) ?fs)) (JObj ?ms)"
    by (simp only: valid pairs)
  have key: "to_valid ''files'' = ''files''" by code_simp
  have top: "reads max_depth (marshal_checkpoint c)
      (JObj [(''files'', enc_indented 1 (map (\<lambda>(p, s). (p, enc_file_state s)) ?fs), JObj ?ms)])"
    using reads_indented [of max_depth "[(''files'', enc_indented 1 (map (\<lambda>(p, s). (p, enc_file_state s)) ?fs), JObj ?ms)]" 0]
      files key by (simp add: marshal_checkpoint_def max_depth_def)
  obtain x where x: "JObj ?ms = x" and dx: "dec_map zero_file_state dec_file_state (raw, x) [] = (?fs, True)" for raw
    using foldl_put_fresh [of "[]" ?fs] fs by (fastforce simp: dec_map_def)
  have ws: "skip_ws (marshal_checkpoint c) = marshal_checkpoint c"
    using top by (intro skip_ws_nonws) (auto simp: reads_def)
  have "parse_value max_depth (marshal_checkpoint c @ []) =
      Some (JObj [(''files'', enc_indented 1 (map (\<lambda>(p, s). (p, enc_file_state s)) ?fs), x)], [])"
    using top unfolding x reads_def by blast
  then have "json_parse (marshal_checkpoint c) = Some (marshal_checkpoint c,
      JObj [(''files'', enc_indented 1 (map (\<lambda>(p, s). (p, enc_file_state s)) ?fs), x)])"
    by (simp add: json_parse_def ws)
  then show ?thesis
    by (simp add: LoadCheckpoint_def unmarshal_ok_def unmarshal_def dec_checkpoint_def dec_struct_def find_field_def fld_def dx)
qed

lemma map_of_sort_key: "distinct (map fst xs) \<Longrightarrow> map_of (sort_key fst xs) = map_of xs"
  by (subst map_of_inject_set) (simp_all add: distinct_map)

text \<open>
  C24. The checkpoint survives a restart: a save that succeeds leaves a file from which the next start
  loads the same progress for every path, and one that fails, wherever it fails, leaves the file
  the next start reads as it was.
\<close>

theorem checkpoint_save_load:
  assumes "checkpoint_ok c" "Save e c dk = (ok, dk')"
  shows "(ok \<longrightarrow> (\<exists>c'. LoadCheckpoint (disk_reads dk') = Some c' \<and> (\<forall>path. ckpt_Get c' path = ckpt_Get c path))) \<and>
    (\<not> ok \<longrightarrow> disk_reads dk' = disk_reads dk)"
proof -
  have d: "distinct (map fst (ck_Files c))" using assms(1) by (simp add: checkpoint_ok_def)
  show ?thesis
    using assms(2) load_marshal [OF assms(1)] map_of_sort_key [OF d]
    by (auto simp: Save_def Let_def disk_reads_def ckpt_Get_def split: if_splits write_outcome.splits)
qed

definition sample_checkpoint :: checkpoint where
  "sample_checkpoint = \<lparr>ck_Files = [(''/b.jsonl'', \<lparr>fs_Inode = 12, fs_Offset = 40\<rparr>), (''/a.jsonl'', \<lparr>fs_Inode = 9, fs_Offset = 0\<rparr>)]\<rparr>"

lemma sample_marshal_checkpoint:
  "marshal_checkpoint sample_checkpoint = jq
    (''{'' @ [nl] @ ''  ~files~: {'' @ [nl] @
     ''    ~/a.jsonl~: {'' @ [nl] @ ''      ~inode~: 9,'' @ [nl] @ ''      ~offset~: 0'' @ [nl] @ ''    },'' @ [nl] @
     ''    ~/b.jsonl~: {'' @ [nl] @ ''      ~inode~: 12,'' @ [nl] @ ''      ~offset~: 40'' @ [nl] @ ''    }'' @ [nl] @
     ''  }'' @ [nl] @ ''}'')"
  by code_simp

theorem checkpoint_save_load_witness:
  "\<exists>c'. LoadCheckpoint (disk_reads (snd (Save \<lparr>ve_mkdir = True, ve_write = Written, ve_rename = True\<rparr> sample_checkpoint
      \<lparr>dk_file = None, dk_tmp = None\<rparr>))) = Some c' \<and> ckpt_Get c' ''/a.jsonl'' = Some \<lparr>fs_Inode = 9, fs_Offset = 0\<rparr>"
proof -
  let ?e = "\<lparr>ve_mkdir = True, ve_write = Written, ve_rename = True\<rparr>"
  let ?s = "Save ?e sample_checkpoint \<lparr>dk_file = None, dk_tmp = None\<rparr>"
  have "checkpoint_ok sample_checkpoint" by code_simp
  moreover have "?s = (True, snd ?s)" by (simp add: Save_def Let_def)
  moreover have "ckpt_Get sample_checkpoint ''/a.jsonl'' = Some \<lparr>fs_Inode = 9, fs_Offset = 0\<rparr>" by code_simp
  ultimately show ?thesis using checkpoint_save_load [of sample_checkpoint ?e] by fastforce
qed

end
