(* ===== verification/Scanner.thy ===== *)
theory Scanner
  imports ClaudeCode Pi Codex Deepseek Opencode Checkpoint
begin

text \<open>
  The scanner (\<open>watcher/scanner.go\<close>) and the parser registry (\<open>parsers/parser.go\<close>): every source
  is walked from its root, every transcript is handed to its tool's parser with the progress the
  checkpoint has for it, and what the parsers return is merged. The sources are scanned by one
  goroutine each; they share only reads of the checkpoint and write each its own result, so the
  merge in source order is all there is to order.
\<close>

section \<open>The registry\<close>

text \<open>What a parser may look at of a path: its file, or the database opencode keeps in it.\<close>

record path_obs =
  po_file :: file_obs
  po_db :: opencode_db

type_synonym path_parser =
  "path_obs \<Rightarrow> string \<Rightarrow> string \<Rightarrow> file_state \<Rightarrow> duration \<Rightarrow> gotime \<Rightarrow> scan_return"

definition registry :: "decompressor \<Rightarrow> (string \<times> path_parser) list" where
  "registry unzstd =
     [(''claude-code'', \<lambda>ob. claudecode_Scan (po_file ob)),
      (''codex'', \<lambda>ob. codex_Scan (po_file ob)),
      (''astron-code'', \<lambda>ob. codex_Scan (po_file ob)),
      (''deepseek-harness'', \<lambda>ob. deepseek_Scan unzstd (po_file ob)),
      (''opencode'', \<lambda>ob path. opencode_Scan (po_db ob)),
      (''pi'', \<lambda>ob. pi_Scan (po_file ob))]"

definition parser_For :: "decompressor \<Rightarrow> string \<Rightarrow> path_parser option" where
  "parser_For unzstd tool =
     (case map_of (registry unzstd) tool of
        Some p \<Rightarrow> Some p
      | None \<Rightarrow> map_of (registry unzstd) ''claude-code'')"

section \<open>One source\<close>

record source =
  so_Tool :: string
  so_Root :: string

text \<open>What \<open>os.Stat\<close> finds at a root, and what \<open>WalkDir\<close> visits under it, in its order.\<close>

datatype walk_entry = WalkFails | WalkDirectory | WalkFile path_obs

datatype root_obs = RootFails | RootFile path_obs | RootDir "(string \<times> walk_entry) list"

datatype source_error = UnknownParser string | RootError string

type_synonym source_result = "scan_result \<times> (string \<times> file_state) list"

definition isTranscript :: "string \<Rightarrow> bool" where
  "isTranscript path \<longleftrightarrow> has_suffix path ''.jsonl'' \<or> has_suffix path ''.jsonl.zstd''"

text \<open>A path that fails to parse is skipped: no records, no new progress.\<close>

definition scan_path ::
    "path_parser \<Rightarrow> checkpoint \<Rightarrow> string \<Rightarrow> duration \<Rightarrow> gotime \<Rightarrow> string \<Rightarrow> path_obs \<Rightarrow> source_result \<Rightarrow> source_result" where
  "scan_path parser ck tool cutoff now path ob = (\<lambda>(acc, pending).
     (let prev = (case ckpt_Get ck path of Some s \<Rightarrow> s | None \<Rightarrow> zero_file_state) in
      case parser ob path tool prev cutoff now of
        (_, _, Some _) \<Rightarrow> (acc, pending)
      | (r, state, None) \<Rightarrow> (append_result acc r, put path state pending)))"

definition walk_step ::
    "path_parser \<Rightarrow> checkpoint \<Rightarrow> string \<Rightarrow> duration \<Rightarrow> gotime \<Rightarrow> source_result \<Rightarrow> string \<times> walk_entry \<Rightarrow> source_result" where
  "walk_step parser ck tool cutoff now acc = (\<lambda>(path, en).
     (case en of
        WalkFile ob \<Rightarrow> if isTranscript path then scan_path parser ck tool cutoff now path ob acc else acc
      | _ \<Rightarrow> acc))"

definition scan_source ::
    "decompressor \<Rightarrow> checkpoint \<Rightarrow> duration \<Rightarrow> gotime \<Rightarrow> source \<Rightarrow> root_obs \<Rightarrow> source_result \<times> source_error option" where
  "scan_source unzstd ck cutoff now src ob =
     (case parser_For unzstd (so_Tool src) of
        None \<Rightarrow> ((empty_result, []), Some (UnknownParser (so_Tool src)))
      | Some parser \<Rightarrow>
          (case ob of
             RootFails \<Rightarrow> ((empty_result, []), Some (RootError (so_Tool src)))
           | RootFile f \<Rightarrow>
               (scan_path parser ck (so_Tool src) cutoff now (so_Root src) f (empty_result, []), None)
           | RootDir es \<Rightarrow>
               (foldl (walk_step parser ck (so_Tool src) cutoff now) (empty_result, []) es, None)))"

section \<open>The merge\<close>

definition merge_pending :: "(string \<times> file_state) list \<Rightarrow> (string \<times> file_state) list \<Rightarrow> (string \<times> file_state) list" where
  "merge_pending all p = foldl (\<lambda>m (k, s). put k s m) all p"

definition merge_source ::
    "source_result \<times> source_error option \<Rightarrow> source_result \<times> source_error option \<Rightarrow>
     source_result \<times> source_error option" where
  "merge_source = (\<lambda>((all, allPending), firstErr) ((res, pending), err).
     ((append_result all res, merge_pending allPending pending),
      if firstErr = None then err else firstErr))"

text \<open>The observations come in the order of the sources.\<close>

definition Scan ::
    "decompressor \<Rightarrow> source list \<Rightarrow> checkpoint \<Rightarrow> duration \<Rightarrow> gotime \<Rightarrow> root_obs list \<Rightarrow>
     scan_result \<times> (string \<times> file_state) list \<times> source_error option" where
  "Scan unzstd sources ck cutoff now obs =
     (case foldl merge_source ((empty_result, []), None)
             (map2 (scan_source unzstd ck cutoff now) sources obs) of
        ((all, pending), err) \<Rightarrow> (all, pending, err))"

section \<open>The scan as one list\<close>

text \<open>The transcripts of a root, in walking order, and what the parser makes of each that it can read.\<close>

definition root_paths :: "source \<Rightarrow> root_obs \<Rightarrow> (string \<times> path_obs) list" where
  "root_paths src ro =
     (case ro of
        RootFails \<Rightarrow> []
      | RootFile f \<Rightarrow> [(so_Root src, f)]
      | RootDir es \<Rightarrow> List.map_filter (\<lambda>(p, en). case en of
           WalkFile ob \<Rightarrow> if isTranscript p then Some (p, ob) else None | _ \<Rightarrow> None) es)"

definition parse_path ::
    "path_parser \<Rightarrow> checkpoint \<Rightarrow> string \<Rightarrow> duration \<Rightarrow> gotime \<Rightarrow> string \<times> path_obs \<Rightarrow>
     (string \<times> scan_result \<times> file_state) option" where
  "parse_path parser ck tool cutoff now = (\<lambda>(path, ob).
     (case parser ob path tool (case ckpt_Get ck path of Some s \<Rightarrow> s | None \<Rightarrow> zero_file_state) cutoff now of
        (r, state, None) \<Rightarrow> Some (path, r, state)
      | _ \<Rightarrow> None))"

definition parsed ::
    "decompressor \<Rightarrow> checkpoint \<Rightarrow> duration \<Rightarrow> gotime \<Rightarrow> source \<times> root_obs \<Rightarrow> (string \<times> scan_result \<times> file_state) list" where
  "parsed unzstd ck cutoff now = (\<lambda>(src, ro).
     (case parser_For unzstd (so_Tool src) of
        None \<Rightarrow> []
      | Some parser \<Rightarrow> List.map_filter (parse_path parser ck (so_Tool src) cutoff now) (root_paths src ro)))"

definition keep_parsed :: "source_result \<Rightarrow> string \<times> scan_result \<times> file_state \<Rightarrow> source_result" where
  "keep_parsed = (\<lambda>(acc, pending) (p, r, s). (append_result acc r, put p s pending))"

lemma scan_path_keep:
  "scan_path parser ck tool cutoff now path ob acc =
     (case parse_path parser ck tool cutoff now (path, ob) of Some x \<Rightarrow> keep_parsed acc x | None \<Rightarrow> acc)"
  by (cases acc) (auto simp: scan_path_def parse_path_def keep_parsed_def Let_def split: prod.split option.split)

lemma walk_keep:
  "foldl (walk_step parser ck tool cutoff now) acc es =
   foldl keep_parsed acc (List.map_filter (parse_path parser ck tool cutoff now)
     (List.map_filter (\<lambda>(p, en). case en of
        WalkFile ob \<Rightarrow> if isTranscript p then Some (p, ob) else None | _ \<Rightarrow> None) es))"
proof (induction es arbitrary: acc)
  case (Cons e es)
  obtain p en where "e = (p, en)" by (cases e)
  with Cons show ?case
    by (cases en) (auto simp: walk_step_def scan_path_keep List.map_filter_simps split: option.split)
qed (simp add: List.map_filter_simps)

lemma scan_source_keep:
  "fst (scan_source unzstd ck cutoff now src ro) =
     foldl keep_parsed (empty_result, []) (parsed unzstd ck cutoff now (src, ro))"
  by (auto simp: scan_source_def parsed_def root_paths_def scan_path_keep walk_keep List.map_filter_simps
      split: option.split root_obs.split)

definition all_parsed ::
    "decompressor \<Rightarrow> source list \<Rightarrow> checkpoint \<Rightarrow> duration \<Rightarrow> gotime \<Rightarrow> root_obs list \<Rightarrow>
     (string \<times> scan_result \<times> file_state) list" where
  "all_parsed unzstd sources ck cutoff now obs =
     concat (map (parsed unzstd ck cutoff now) (zip sources obs))"

lemma keep_parsed_fold:
  "foldl keep_parsed (acc, pending) L =
     (append_result acc (concat_results (map (fst \<circ> snd) L)), merge_pending pending (map (\<lambda>(p, r, s). (p, s)) L))"
  by (induction L arbitrary: acc pending) (auto simp: keep_parsed_def merge_pending_def append_result_assoc)

lemma map_of_merge: "map_of (merge_pending m xs) = map_of m ++ map_of (rev xs)"
  by (induction xs arbitrary: m) (auto simp: merge_pending_def)

lemma distinct_merge: "distinct (map fst m) \<Longrightarrow> distinct (map fst (merge_pending m xs))"
  by (induction xs arbitrary: m) (auto simp: merge_pending_def)

lemma merge_merged: "map_of (rev (merge_pending [] xs)) = map_of (rev xs)"
proof -
  have "map_of (rev (merge_pending [] xs)) = map_of (merge_pending [] xs)"
    by (subst map_of_inject_set) (simp_all add: distinct_merge rev_map [symmetric])
  then show ?thesis by (simp add: map_of_merge)
qed

lemma merge_sources:
  assumes "foldl merge_source ((all0, pend0), err0) (map2 (scan_source unzstd ck cutoff now) sources obs) = ((r, pending), err)"
  shows "r = append_result all0 (concat_results (map (fst \<circ> snd) (all_parsed unzstd sources ck cutoff now obs))) \<and>
    map_of pending = map_of (merge_pending pend0 (map (\<lambda>(p, r, s). (p, s)) (all_parsed unzstd sources ck cutoff now obs)))"
  using assms
proof (induction sources obs arbitrary: all0 pend0 err0 rule: list_induct2')
  case (4 src sources ro obs)
  let ?L = "parsed unzstd ck cutoff now (src, ro)"
  obtain e where e: "scan_source unzstd ck cutoff now src ro =
      ((concat_results (map (fst \<circ> snd) ?L), merge_pending [] (map (\<lambda>(p, r, s). (p, s)) ?L)), e)"
    using scan_source_keep [of unzstd ck cutoff now src ro] keep_parsed_fold [of empty_result "[]" ?L]
    by (metis append_result_empty(1) prod.collapse)
  have "foldl merge_source ((append_result all0 (concat_results (map (fst \<circ> snd) ?L)),
        merge_pending pend0 (merge_pending [] (map (\<lambda>(p, r, s). (p, s)) ?L))), if err0 = None then e else err0)
      (map2 (scan_source unzstd ck cutoff now) sources obs) = ((r, pending), err)"
    using 4(2) e by (simp add: merge_source_def)
  from 4(1) [OF this] show ?case
    by (simp add: all_parsed_def append_result_assoc map_of_merge merge_merged comp_def)
qed (auto simp: all_parsed_def merge_pending_def)

text \<open>
  C25. A scan is the sum of its readable transcripts: its records are those of every transcript that
  parses, source by source in walking order, and the progress it proposes is, for each path, that
  of the path's last successful parse; a transcript that fails, or a root that is missing,
  contributes neither and keeps no other source from contributing.
\<close>

theorem scan_as_list:
  assumes "Scan unzstd sources ck cutoff now obs = (r, pending, err)"
  shows "r = concat_results (map (fst \<circ> snd) (all_parsed unzstd sources ck cutoff now obs)) \<and>
    map_of pending = map_of (merge_pending [] (map (\<lambda>(p, r, s). (p, s)) (all_parsed unzstd sources ck cutoff now obs)))"
  using assms merge_sources [of empty_result "[]" None unzstd ck cutoff now sources obs]
  by (auto simp: Scan_def split: prod.splits)

lemma map_filter_mem: "x \<in> set (List.map_filter f xs) \<Longrightarrow> \<exists>y \<in> set xs. f y = Some x"
  by (auto simp: List.map_filter_def)

lemma Scan_pending:
  assumes "Scan unzstd sources ck cutoff now obs = (r, pending, err)" "map_of pending p = Some s"
  obtains src ro ob parser r' where "(src, ro) \<in> set (zip sources obs)" "(p, ob) \<in> set (root_paths src ro)"
    "parser_For unzstd (so_Tool src) = Some parser"
    "parser ob p (so_Tool src) (case ckpt_Get ck p of Some s \<Rightarrow> s | None \<Rightarrow> zero_file_state) cutoff now = (r', s, None)"
    "set (sr_Usage r') \<subseteq> set (sr_Usage r)" "set (sr_Edits r') \<subseteq> set (sr_Edits r)"
proof -
  let ?L = "all_parsed unzstd sources ck cutoff now obs"
  from merge_sources [of empty_result "[]" None unzstd ck cutoff now sources obs r pending err] assms(1)
  have r: "r = concat_results (map (fst \<circ> snd) ?L)"
    and "map_of pending = map_of (rev (map (\<lambda>(p, r, s). (p, s)) ?L))"
    by (auto simp: Scan_def map_of_merge split: prod.splits)
  then have "(p, s) \<in> (\<lambda>(p, r, s). (p, s)) ` set ?L"
    using assms(2) by (auto dest: map_of_SomeD)
  then obtain r' where x: "(p, r', s) \<in> set ?L" by force
  then obtain src ro where src: "(src, ro) \<in> set (zip sources obs)" "(p, r', s) \<in> set (parsed unzstd ck cutoff now (src, ro))"
    by (auto simp: all_parsed_def)
  then obtain parser where parser: "parser_For unzstd (so_Tool src) = Some parser"
    and "(p, r', s) \<in> set (List.map_filter (parse_path parser ck (so_Tool src) cutoff now) (root_paths src ro))"
    by (cases "parser_For unzstd (so_Tool src)") (auto simp: parsed_def)
  then obtain y where y: "y \<in> set (root_paths src ro)"
    "parse_path parser ck (so_Tool src) cutoff now y = Some (p, r', s)"
    using map_filter_mem by metis
  then have "parser (snd y) p (so_Tool src) (case ckpt_Get ck p of Some s \<Rightarrow> s | None \<Rightarrow> zero_file_state) cutoff now = (r', s, None)"
    and "fst y = p"
    by (auto simp: parse_path_def split: prod.splits option.split_asm)
  moreover have "set (sr_Usage r') \<subseteq> set (sr_Usage r)" "set (sr_Edits r') \<subseteq> set (sr_Edits r)"
    using x by (force simp: r concat_results_sel)+
  ultimately show thesis using src(1) parser y(1) that by (metis prod.collapse)
qed

definition sample_path :: "bool \<Rightarrow> path_obs" where
  "sample_path opens =
     \<lparr>po_file = \<lparr>fo_stat = Some (7, int (length cc_line)), fo_opens = opens, fo_data = cc_line, fo_read_fails = False\<rparr>,
      po_db = oc_db [] []\<rparr>"

definition sample_sources :: "source list" where
  "sample_sources = [\<lparr>so_Tool = ''pi'', so_Root = ''/gone''\<rparr>, \<lparr>so_Tool = ''claude-code'', so_Root = ''/c''\<rparr>]"

definition sample_roots :: "root_obs list" where
  "sample_roots = [RootFails, RootDir [(''/c/a.jsonl'', WalkFile (sample_path False)),
     (''/c/b.jsonl'', WalkFile (sample_path True)), (''/c/notes.txt'', WalkFile (sample_path True))]]"

theorem scan_as_list_witness:
  "\<exists>r pending. Scan (\<lambda>_. None) sample_sources \<lparr>ck_Files = []\<rparr> 0 0 sample_roots = (r, pending, Some (RootError ''pi'')) \<and>
     r = concat_results (map (fst \<circ> snd) (all_parsed (\<lambda>_. None) sample_sources \<lparr>ck_Files = []\<rparr> 0 0 sample_roots)) \<and>
     map ur_MessageID (sr_Usage r) = [''m1''] \<and> map fst pending = [''/c/b.jsonl'']"
proof -
  let ?s = "Scan (\<lambda>_. None) sample_sources \<lparr>ck_Files = []\<rparr> 0 0 sample_roots"
  obtain r pending err where s: "?s = (r, pending, err)" by (rule prod_cases3)
  have "snd (snd ?s) = Some (RootError ''pi'')" "map ur_MessageID (sr_Usage (fst ?s)) = [''m1'']"
    "map fst (fst (snd ?s)) = [''/c/b.jsonl'']" by code_simp+
  with scan_as_list [OF s] s show ?thesis by simp
qed

end
