(* ===== verification/Uploader.thy ===== *)
theory Uploader
  imports Wire Files
begin

text \<open>
  The uploader (\<open>watcher/uploader.go\<close>): one batch per request, spooled to a buffer directory
  when the server does not take it, and the flush that sends the spooled batches again. What
  happens to a request is a function on the state of everything beyond the watcher; the
  interface \<open>durable_endpoint\<close> is what the watcher relies on there.
\<close>

section \<open>One request\<close>

record uploader =
  up_Endpoint :: string
  up_MachineID :: string
  up_APIKey :: string
  up_BufferDir :: string

record upload_req =
  uq_Endpoint :: string
  uq_Authorization :: "string option"
  uq_Body :: string

text \<open>
  How an exchange ends: no request can be made of the URL, the client's \<open>Do\<close> fails (its errors
  begin with the method), or a response with its status, its body and whether that ends cleanly.
\<close>

datatype exchange = BadURL string | Transport string | Reply int string bool

type_synonym 'w net = "upload_req \<Rightarrow> 'w \<Rightarrow> exchange \<times> 'w"

record SendResult =
  sd_Accepted :: int
  sd_Duplicates :: int
  sd_EditsAccepted :: int
  sd_EditsDuplicates :: int
  sd_Spooled :: bool
  sd_SpoolReason :: "string option"

definition no_result :: SendResult where
  "no_result = \<lparr>sd_Accepted = 0, sd_Duplicates = 0, sd_EditsAccepted = 0, sd_EditsDuplicates = 0,
     sd_Spooled = False, sd_SpoolReason = None\<rparr>"

definition response_decoders :: "(string \<times> ingest_response decoder) list" where
  "response_decoders =
     [fld ''accepted'' dec_int64 ip_Accepted ip_Accepted_update,
      fld ''duplicates'' dec_int64 ip_Duplicates ip_Duplicates_update,
      fld ''edits_accepted'' dec_int64 ip_EditsAccepted ip_EditsAccepted_update,
      fld ''edits_duplicates'' dec_int64 ip_EditsDuplicates ip_EditsDuplicates_update]"

text \<open>A body that does not decode leaves what was decoded of it, zeros at first.\<close>

definition decode_ack :: "string \<Rightarrow> bool \<Rightarrow> ingest_response" where
  "decode_ack s clean =
     (let zero = \<lparr>ip_Accepted = 0, ip_Duplicates = 0, ip_EditsAccepted = 0, ip_EditsDuplicates = 0\<rparr> in
      case json_first s clean of None \<Rightarrow> zero | Some v \<Rightarrow> fst (dec_struct response_decoders v zero))"

definition post_result :: "exchange \<Rightarrow> string + SendResult" where
  "post_result x =
     (case x of
        BadURL e \<Rightarrow> Inl (''parse '' @ e)
      | Transport e \<Rightarrow> Inl (''Post '' @ e)
      | Reply status body clean \<Rightarrow>
          if status div 100 \<noteq> 2 then
            Inl (''server '' @ itoa status @ '': '' @ trim_space (take 512 body))
          else (let ack = decode_ack body clean in
            Inr (no_result\<lparr>sd_Accepted := ip_Accepted ack, sd_Duplicates := ip_Duplicates ack,
              sd_EditsAccepted := ip_EditsAccepted ack, sd_EditsDuplicates := ip_EditsDuplicates ack\<rparr>)))"

definition upload_request :: "uploader \<Rightarrow> string \<Rightarrow> upload_req" where
  "upload_request u body =
     \<lparr>uq_Endpoint = up_Endpoint u,
      uq_Authorization = (if up_APIKey u \<noteq> [] then Some (''Bearer '' @ up_APIKey u) else None),
      uq_Body = body\<rparr>"

definition post :: "uploader \<Rightarrow> 'w net \<Rightarrow> string \<Rightarrow> 'w \<Rightarrow> (string + SendResult) \<times> 'w" where
  "post u net body w = (case net (upload_request u body) w of (x, w') \<Rightarrow> (post_result x, w'))"

definition isHTTPRejection :: "string \<Rightarrow> bool" where
  "isHTTPRejection s =
     (if length s < 10 \<or> take 7 s \<noteq> ''server '' then False
      else take 3 (drop 7 s) \<in> {''400'', ''404'', ''410'', ''413'', ''422''})"

section \<open>The buffer directory\<close>

datatype dir_entry = SubDir | Regular string

type_synonym dir = "(string \<times> dir_entry) list"

record spool_env =
  se_mkdir :: bool
  se_write :: write_outcome
  se_rename :: bool
  se_now :: gotime

definition dir_remove :: "string \<Rightarrow> dir \<Rightarrow> dir" where
  "dir_remove n d = filter (\<lambda>(m, _). m \<noteq> n) d"

definition spool_name :: "gotime \<Rightarrow> string" where
  "spool_name now = ''batch-'' @ itoa (i64 now) @ ''.json''"

definition spool :: "spool_env \<Rightarrow> string \<Rightarrow> dir \<Rightarrow> bool \<times> dir" where
  "spool e body d =
     (if \<not> se_mkdir e then (False, d)
      else (let final = spool_name (se_now e); tmp = final @ ''.tmp'' in
        if map_of d tmp = Some SubDir then (False, d)
        else (case se_write e of
           NotCreated \<Rightarrow> (False, d)
         | Truncated n \<Rightarrow> (False, put tmp (Regular (take n body)) d)
         | Written \<Rightarrow>
             if \<not> se_rename e \<or> map_of d final = Some SubDir then (False, put tmp (Regular body) d)
             else (True, put final (Regular body) (dir_remove tmp d)))))"

section \<open>Sending\<close>

definition sendRequest ::
    "uploader \<Rightarrow> 'w net \<Rightarrow> spool_env \<Rightarrow> ingest_request \<Rightarrow> bool \<Rightarrow> 'w \<times> dir \<Rightarrow>
     (string + SendResult) \<times> 'w \<times> dir" where
  "sendRequest u net e req editsBatch = (\<lambda>(w, d).
     (case marshal_request req of
        None \<Rightarrow> (Inl ''json: error calling MarshalJSON for type time.Time'', w, d)
      | Some body \<Rightarrow>
          (case post u net body w of
             (Inr res, w') \<Rightarrow>
               (Inr (if editsBatch
                     then res\<lparr>sd_Accepted := sd_EditsAccepted res, sd_Duplicates := sd_EditsDuplicates res\<rparr>
                     else res), w', d)
           | (Inl err, w') \<Rightarrow>
               if up_BufferDir u = [] then (Inl err, w', d)
               else (case spool e body d of
                  (False, d') \<Rightarrow> (Inl (''post failed ('' @ err @ '') and could not buffer''), w', d')
                | (True, d') \<Rightarrow> (Inr (no_result\<lparr>sd_Spooled := True, sd_SpoolReason := Some err\<rparr>), w', d')))))"

definition Send ::
    "uploader \<Rightarrow> 'w net \<Rightarrow> spool_env \<Rightarrow> usage_record list \<Rightarrow> 'w \<times> dir \<Rightarrow> (string + SendResult) \<times> 'w \<times> dir" where
  "Send u net e recs wd =
     (if recs = [] then (Inr no_result, wd)
      else sendRequest u net e \<lparr>iq_MachineID = up_MachineID u, iq_Records = recs, iq_Edits = []\<rparr> False wd)"

definition SendEdits ::
    "uploader \<Rightarrow> 'w net \<Rightarrow> spool_env \<Rightarrow> edit_record list \<Rightarrow> 'w \<times> dir \<Rightarrow> (string + SendResult) \<times> 'w \<times> dir" where
  "SendEdits u net e edits wd =
     (if edits = [] then (Inr no_result, wd)
      else sendRequest u net e \<lparr>iq_MachineID = up_MachineID u, iq_Records = [], iq_Edits = edits\<rparr> True wd)"

section \<open>Flushing\<close>

record flush_env =
  fe_readdir :: bool
  fe_read :: "string \<Rightarrow> bool"
  fe_remove :: "string \<Rightarrow> bool"

record flush_tally =
  fl_drained :: int
  fl_dropped :: int
  fl_Acc :: int
  fl_Dup :: int
  fl_remaining :: int
  fl_lastErr :: "string option"

definition spooled :: "string \<times> dir_entry \<Rightarrow> bool" where
  "spooled = (\<lambda>(n, x). x \<noteq> SubDir \<and> path_ext n \<noteq> ''.tmp'')"

definition flush_remove :: "flush_env \<Rightarrow> string \<Rightarrow> dir \<Rightarrow> dir" where
  "flush_remove e n d = (if fe_remove e n then dir_remove n d else d)"

text \<open>The loop over the entries; a failure that is not a rejection ends it.\<close>

fun flush_loop ::
    "uploader \<Rightarrow> 'w net \<Rightarrow> flush_env \<Rightarrow> (string \<times> dir_entry) list \<Rightarrow> flush_tally \<Rightarrow> 'w \<times> dir \<Rightarrow>
     flush_tally \<times> 'w \<times> dir" where
  "flush_loop u net e [] t wd = (t, wd)"
| "flush_loop u net e ((n, SubDir) # es) t wd = flush_loop u net e es t wd"
| "flush_loop u net e ((n, Regular body) # es) t (w, d) =
     (if path_ext n = ''.tmp'' \<or> \<not> fe_read e n then flush_loop u net e es t (w, d)
      else (case post u net body w of
         (Inl err, w') \<Rightarrow>
           (let t' = t\<lparr>fl_lastErr := Some err\<rparr> in
            if isHTTPRejection err then
              flush_loop u net e es
                (t'\<lparr>fl_dropped := fl_dropped t' + 1, fl_remaining := fl_remaining t' - 1\<rparr>)
                (w', flush_remove e n d)
            else (t', w', d))
       | (Inr res, w') \<Rightarrow>
           flush_loop u net e es
             (t\<lparr>fl_drained := fl_drained t + 1, fl_Acc := i64 (fl_Acc t + sd_Accepted res),
                fl_Dup := i64 (fl_Dup t + sd_Duplicates res), fl_remaining := fl_remaining t - 1\<rparr>)
             (w', flush_remove e n d)))"

definition flush_message :: "flush_tally \<Rightarrow> string option" where
  "flush_message t =
     (if 0 < fl_drained t \<or> 0 < fl_dropped t then
        Some (''flushed '' @ itoa (fl_drained t) @ '' spooled batch(es): accepted='' @ itoa (fl_Acc t) @
          '' duplicates='' @ itoa (fl_Dup t) @
          (if 0 < fl_dropped t
           then '', dropped='' @ itoa (fl_dropped t) @ '' (server returned a permanent 4xx)'' else []) @
          (case fl_lastErr t of
             Some err \<Rightarrow> if 0 < fl_remaining t
               then '', '' @ itoa (fl_remaining t) @ '' left in buffer (next-tick retry; last error: '' @ err @ '')''
               else []
           | None \<Rightarrow> []))
      else None)"

text \<open>\<open>os.ReadDir\<close> lists by name.\<close>

definition Flush ::
    "uploader \<Rightarrow> 'w net \<Rightarrow> flush_env \<Rightarrow> 'w \<times> dir \<Rightarrow> flush_tally \<times> 'w \<times> dir" where
  "Flush u net e wd =
     (let zero = \<lparr>fl_drained = 0, fl_dropped = 0, fl_Acc = 0, fl_Dup = 0, fl_remaining = 0, fl_lastErr = None\<rparr> in
      if up_BufferDir u = [] \<or> \<not> fe_readdir e then (zero, wd)
      else (let entries = sort_key fst (snd wd); remaining = int (length (filter spooled entries)) in
        if remaining = 0 then (zero, wd)
        else flush_loop u net e entries (zero\<lparr>fl_remaining := remaining\<rparr>) wd))"

section \<open>The endpoint the watcher relies on\<close>

text \<open>
  \<open>stored b w\<close>: the batch \<open>b\<close> has taken effect beyond the watcher, for good. A 2xx answer
  promises it for the body of the request.
\<close>

definition safe :: "(string \<Rightarrow> 'w \<Rightarrow> bool) \<Rightarrow> string \<Rightarrow> 'w \<times> dir \<Rightarrow> bool" where
  "safe stored b = (\<lambda>(w, d). stored b w \<or> (\<exists>n. (n, Regular b) \<in> set d \<and> path_ext n \<noteq> ''.tmp''))"

lemma path_ext_tail: "CHR ''.'' \<notin> set s \<Longrightarrow> slash \<notin> set s \<Longrightarrow> path_ext (y @ CHR ''.'' # s) = CHR ''.'' # s"
  by (auto simp: path_ext_def Let_def after_last_def takeWhile_append)

lemma ext_spool [simp]: "path_ext (spool_name t) = ''.json''" "path_ext (spool_name t @ ''.tmp'') = ''.tmp''"
  using path_ext_tail [of "''json''" "''batch-'' @ itoa (i64 t)"] path_ext_tail [of "''tmp''" "spool_name t"]
  by (simp_all add: spool_name_def)

lemma set_put_other: "x \<in> set m \<Longrightarrow> fst x \<noteq> k \<Longrightarrow> x \<in> set (put k v m)"
  by (induction m) auto

lemma in_put: "(k, v) \<in> set (put k v m)"
  by (induction m) auto

lemma dir_remove_other: "x \<in> set d \<Longrightarrow> fst x \<noteq> n \<Longrightarrow> x \<in> set (dir_remove n d)"
  by (auto simp: dir_remove_def)

lemma spool_writes: "spool e body d = (True, d') \<Longrightarrow> (spool_name (se_now e), Regular body) \<in> set d'"
  by (auto simp: spool_def Let_def in_put split: if_splits write_outcome.splits)

lemma spool_others:
  assumes "spool e body d = (ok, d')" "x \<in> set d" "path_ext (fst x) \<noteq> ''.tmp''" "fst x \<noteq> spool_name (se_now e)"
  shows "x \<in> set d'"
proof -
  have "fst x \<noteq> spool_name (se_now e) @ ''.tmp''" using assms(3) by auto
  with assms show ?thesis
    by (auto simp: spool_def Let_def intro!: set_put_other dir_remove_other split: if_splits write_outcome.splits)
qed

lemma flush_loop_dropped: "flush_loop u net e es t wd = (t', wd') \<Longrightarrow> fl_dropped t \<le> fl_dropped t'"
proof (induction es arbitrary: t wd)
  case (Cons x es)
  obtain n y w d where "x = (n, y)" "wd = (w, d)" by (meson surj_pair)
  with Cons show ?case
    by (cases y) (force simp: Let_def split: if_splits prod.splits sum.splits)+
qed simp

locale durable_endpoint =
  fixes net :: "'w net" and stored :: "string \<Rightarrow> 'w \<Rightarrow> bool"
  assumes keeps: "stored b w \<Longrightarrow> stored b (snd (net q w))"
    and acked: "net q w = (Reply status body clean, w') \<Longrightarrow> status div 100 = 2 \<Longrightarrow> stored (uq_Body q) w'"
begin

lemma post_stored:
  assumes "post u net b w = (Inr r, w')"
  shows "stored b w'"
proof -
  obtain x where x: "net (upload_request u b) w = (x, w')" "post_result x = Inr r"
    using assms by (auto simp: post_def split: prod.splits)
  then obtain status body clean where "x = Reply status body clean" "status div 100 = 2"
    by (cases x) (auto simp: post_result_def Let_def split: if_splits)
  with x acked show ?thesis by (fastforce simp: upload_request_def)
qed

lemma post_keeps: "post u net b w = (r, w') \<Longrightarrow> stored c w \<Longrightarrow> stored c w'"
  using keeps [of c w "upload_request u b"] by (auto simp: post_def split: prod.splits)

lemma sendRequest_safe:
  assumes "sendRequest u net e req ed wd = (Inr r, wd')" "marshal_request req = Some b"
  shows "safe stored b wd'"
  using assms spool_writes
  by (fastforce simp: sendRequest_def safe_def dest: post_stored split: prod.splits sum.splits if_splits bool.splits)

lemma sendRequest_marshals: "sendRequest u net e req ed wd = (Inr r, wd') \<Longrightarrow> marshal_request req \<noteq> None"
  by (auto simp: sendRequest_def split: prod.splits option.splits)

lemma sendRequest_keeps:
  assumes "sendRequest u net e req ed wd = (r, wd')" "safe stored c wd"
    and "spool_name (se_now e) \<notin> fst ` set (snd wd)"
  shows "safe stored c wd'"
proof -
  obtain w d where wd: "wd = (w, d)" by (cases wd)
  show ?thesis
  proof (cases "stored c w")
    case True
    with assms(1) wd post_keeps show ?thesis
      by (fastforce simp: sendRequest_def safe_def split: prod.splits sum.splits if_splits bool.splits option.splits)
  next
    case False
    then obtain n where n: "(n, Regular c) \<in> set d" "path_ext n \<noteq> ''.tmp''" using assms(2) wd by (auto simp: safe_def)
    then have "n \<noteq> spool_name (se_now e)" using assms(3) wd by force
    with n have "(n, Regular c) \<in> set d'" if "spool e b d = (ok, d')" for b ok d'
      using spool_others [OF that n(1)] by simp
    with n assms(1) wd show ?thesis
      by (fastforce simp: sendRequest_def safe_def split: prod.splits sum.splits if_splits bool.splits option.splits)
  qed
qed

text \<open>The loop loses nothing while no batch is dropped; with every exchange acknowledged it drains all.\<close>

lemma flush_loop_keeps:
  assumes "flush_loop u net e es t (w, d) = (t', w', d')" "fl_dropped t' \<le> fl_dropped t"
    and "distinct (map fst d)" "set es \<subseteq> set d" "distinct (map fst es)" "safe stored c (w, d)"
  shows "safe stored c (w', d')"
  using assms
proof (induction es arbitrary: t w d)
  case (Cons x es)
  show ?case
  proof (cases "snd x = SubDir \<or> path_ext (fst x) = ''.tmp'' \<or> \<not> fe_read e (fst x)")
    case True
    then have "flush_loop u net e es t (w, d) = (t', w', d')" using Cons.prems(1) by (cases x; cases "snd x") auto
    with Cons.IH Cons.prems show ?thesis by simp
  next
    case False
    then obtain n body where x: "x = (n, Regular body)" "path_ext n \<noteq> ''.tmp''" "fe_read e n"
      by (cases x; cases "snd x") auto
    obtain r w1 where post: "post u net body w = (r, w1)" by (meson surj_pair)
    let ?d = "flush_remove e n d"
    have step: "safe stored c (w1, ?d)" if "stored body w1"
    proof (cases "stored c w1")
      case False
      with post_keeps [OF post] Cons.prems(6) obtain m where m: "(m, Regular c) \<in> set d" "path_ext m \<noteq> ''.tmp''"
        by (auto simp: safe_def)
      have "m \<noteq> n"
      proof
        assume "m = n"
        then have "Regular c = Regular body"
          using m(1) Cons.prems(3,4) x(1) eq_key_imp_eq_value [of d n "Regular c" "Regular body"] by simp
        with False that show False by simp
      qed
      with m show ?thesis using dir_remove_other [OF m(1), of n] by (auto simp: safe_def flush_remove_def)
    qed (simp add: safe_def)
    have sub: "set es \<subseteq> set ?d" "distinct (map fst ?d)"
      using Cons.prems(3-5) x(1) by (force simp: flush_remove_def dir_remove_def distinct_map_filter)+
    show ?thesis
    proof (cases r)
      case (Inr res)
      with post post_stored have "stored body w1" by simp
      from Cons.IH [OF _ _ sub(2,1) _ step [OF this]] Cons.prems(1,2,5) x post Inr show ?thesis by simp
    next
      case (Inl err)
      show ?thesis
      proof (cases "isHTTPRejection err")
        case True
        with Cons.prems(1) x post Inl
        have "flush_loop u net e es (t\<lparr>fl_lastErr := Some err, fl_dropped := fl_dropped t + 1,
            fl_remaining := fl_remaining t - 1\<rparr>) (w1, ?d) = (t', w', d')" by (simp add: Let_def)
        from flush_loop_dropped [OF this] Cons.prems(2) show ?thesis by simp
      next
        case False
        with Cons.prems(1,6) x post Inl post_keeps [OF post] show ?thesis by (auto simp: Let_def safe_def)
      qed
    qed
  qed
qed simp

lemma Flush_keeps:
  assumes "Flush u net e (w, d) = (t', w', d')" "fl_dropped t' = 0" "distinct (map fst d)" "safe stored c (w, d)"
  shows "safe stored c (w', d')"
proof -
  have "distinct (map fst (sort_key fst d))"
    using assms(3) by (simp add: distinct_map)
  with assms show ?thesis
    by (auto simp: Flush_def Let_def split: if_splits intro: flush_loop_keeps)
qed

text \<open>Once exchanges succeed, one pass stores and removes every readable entry it is given.\<close>

lemma flush_loop_drains:
  assumes up: "\<And>b w. up w \<Longrightarrow> b \<in> B \<Longrightarrow> \<exists>r w'. post u net b w = (Inr r, w') \<and> up w'"
    and fs: "\<forall>n. fe_read e n" "\<forall>n. fe_remove e n"
    and run: "flush_loop u net e es t (w, d) = (t', w', d')" "up w"
    and es: "\<forall>(n, x) \<in> set es. \<forall>b. x = Regular b \<and> path_ext n \<noteq> ''.tmp'' \<longrightarrow> b \<in> B"
  shows "set d' \<subseteq> set d \<and> (\<forall>c. stored c w \<longrightarrow> stored c w') \<and> fl_dropped t' = fl_dropped t \<and>
    (\<forall>(n, x) \<in> set es. \<forall>b. x = Regular b \<and> path_ext n \<noteq> ''.tmp'' \<longrightarrow> stored b w' \<and> n \<notin> fst ` set d')"
  using run es
proof (induction es arbitrary: t w d)
  case (Cons x es)
  show ?case
  proof (cases "snd x = SubDir \<or> path_ext (fst x) = ''.tmp''")
    case True
    then have "flush_loop u net e es t (w, d) = (t', w', d')"
      using Cons.prems(1) by (cases x; cases "snd x") auto
    from Cons.IH [OF this Cons.prems(2)] Cons.prems(3) True show ?thesis by (cases x) auto
  next
    case False
    then obtain n body where x: "x = (n, Regular body)" "path_ext n \<noteq> ''.tmp''" by (cases x; cases "snd x") auto
    then have "body \<in> B" using Cons.prems(3) by simp
    from up [OF Cons.prems(2) this] obtain r w1 where post: "post u net body w = (Inr r, w1)" "up w1"
      by blast
    have "flush_loop u net e es (t\<lparr>fl_drained := fl_drained t + 1, fl_Acc := i64 (fl_Acc t + sd_Accepted r),
        fl_Dup := i64 (fl_Dup t + sd_Duplicates r), fl_remaining := fl_remaining t - 1\<rparr>) (w1, dir_remove n d) =
        (t', w', d')"
      using Cons.prems(1) x post(1) fs by (simp add: flush_remove_def)
    from Cons.IH [OF this post(2)] Cons.prems(3)
    have IH: "set d' \<subseteq> set (dir_remove n d)" "\<forall>c. stored c w1 \<longrightarrow> stored c w'" "fl_dropped t' = fl_dropped t"
      "\<forall>(n, x) \<in> set es. \<forall>b. x = Regular b \<and> path_ext n \<noteq> ''.tmp'' \<longrightarrow> stored b w' \<and> n \<notin> fst ` set d'"
      by simp_all
    have "stored body w'" using post_stored [OF post(1)] IH(2) by simp
    moreover have "n \<notin> fst ` set d'" "set d' \<subseteq> set d" using IH(1) by (auto simp: dir_remove_def)
    moreover have "\<forall>c. stored c w \<longrightarrow> stored c w'" using post_keeps [OF post(1)] IH(2) by simp
    ultimately show ?thesis using IH(3,4) x(1) by simp
  qed
qed simp

lemma Flush_drains:
  assumes "\<And>b w. up w \<Longrightarrow> b \<in> B \<Longrightarrow> \<exists>r w'. post u net b w = (Inr r, w') \<and> up w'"
    and "fe_readdir e" "\<forall>n. fe_read e n" "\<forall>n. fe_remove e n" "up_BufferDir u \<noteq> []"
    and "Flush u net e (w, d) = (t', w', d')" "up w"
    and "\<forall>(n, x) \<in> set d. \<forall>b. x = Regular b \<and> path_ext n \<noteq> ''.tmp'' \<longrightarrow> b \<in> B"
  shows "filter spooled d' = [] \<and> (\<forall>c. safe stored c (w, d) \<longrightarrow> stored c w')"
proof (cases "filter spooled (sort_key fst d) = []")
  case True
  then have none: "\<forall>x \<in> set d. \<not> spooled x" by (simp add: filter_empty_conv)
  moreover have "w' = w" "d' = d" using assms(2,5,6) True by (simp_all add: Flush_def Let_def)
  ultimately show ?thesis by (auto simp: safe_def spooled_def)
next
  case False
  then have "flush_loop u net e (sort_key fst d)
      \<lparr>fl_drained = 0, fl_dropped = 0, fl_Acc = 0, fl_Dup = 0,
       fl_remaining = int (length (filter spooled (sort_key fst d))), fl_lastErr = None\<rparr> (w, d) = (t', w', d')"
    using assms(2,5,6) by (simp add: Flush_def Let_def)
  from flush_loop_drains [OF assms(1,3,4) this assms(7)] assms(8)
  have *: "set d' \<subseteq> set d" "\<forall>c. stored c w \<longrightarrow> stored c w'"
    "\<forall>(n, x) \<in> set d. \<forall>b. x = Regular b \<and> path_ext n \<noteq> ''.tmp'' \<longrightarrow> stored b w' \<and> n \<notin> fst ` set d'"
    by auto
  have "\<not> spooled x" if "x \<in> set d'" for x
    using *(1,3) that by (cases x; cases "snd x") (force simp: spooled_def)+
  moreover have "stored c w'" if "safe stored c (w, d)" for c
    using *(2,3) that by (fastforce simp: safe_def)
  ultimately show ?thesis by (simp add: filter_empty_conv)
qed

end

end
