(* ===== verification/Run.thy ===== *)
theory Run
  imports Scanner Uploader
begin

text \<open>
  The watcher's resident loop (\<open>cli/run.go\<close>) and its choice of sources (\<open>watcher/defaults.go\<close>):
  one tick flushes the spool, scans, sends what is new in batches, and moves the checkpoint only
  when every batch is accepted or spooled. Elapsed times and log lines are left out, but for the
  per-tool summary.
\<close>

section \<open>Sources\<close>

record RunConfig =
  rc_Sources :: "string list"
  rc_Root :: string
  rc_Tool :: string
  rc_Endpoint :: string
  rc_APIKey :: string
  rc_Checkpoint :: string
  rc_BufferDir :: string
  rc_Interval :: duration
  rc_Batch :: int
  rc_BackfillCutoff :: duration
  rc_Once :: bool

text \<open>\<open>None\<close>: some \<open>--source\<close> is not of the form \<open>tool=path\<close>.\<close>

definition parse_source :: "string \<Rightarrow> source option" where
  "parse_source s =
     (case index_byte (CHR ''='') s of
        None \<Rightarrow> None
      | Some i \<Rightarrow> if i = 0 \<or> i + 1 = length s then None
                  else Some \<lparr>so_Tool = take i s, so_Root = drop (i + 1) s\<rparr>)"

fun parseSources :: "string list \<Rightarrow> source list option" where
  "parseSources [] = Some []"
| "parseSources (s # specs) =
     (case parse_source s of
        None \<Rightarrow> None
      | Some src \<Rightarrow> map_option (\<lambda>out. src # out) (parseSources specs))"

definition KnownToolDefaults :: "(string \<times> string) list" where
  "KnownToolDefaults =
     [(''claude-code'', ''.claude/projects''),
      (''codex'', ''.codex/sessions''),
      (''astron-code'', ''.acode/sessions''),
      (''opencode'', ''.local/share/opencode/opencode.db''),
      (''pi'', ''.pi/agent/sessions''),
      (''deepseek-harness'', ''.dsh/sessions'')]"

definition skipProfile :: "string list" where
  "skipProfile = [''Default'', ''Default User'', ''Public'', ''All Users'', ''WDAGUtilityAccount'', ''Shared'']"

text \<open>What the file system tells: the kind of a path, and the entries of a directory.\<close>

datatype path_kind = IsDirectory | IsRegular | IsOther

record file_system =
  fy_stat :: "string \<Rightarrow> path_kind option"
  fy_readdir :: "string \<Rightarrow> (string \<times> bool) list option"

definition path_join :: "string \<Rightarrow> string \<Rightarrow> string" where
  "path_join a b =
     (case filter (\<lambda>e. e \<noteq> []) [a, b] of [] \<Rightarrow> [] | es \<Rightarrow> path_clean (join [slash] es))"

text \<open>\<open>profileBase\<close> on Linux.\<close>

definition profileBase :: string where "profileBase = ''/home''"

definition candidateHomes :: "file_system \<Rightarrow> string \<Rightarrow> string list" where
  "candidateHomes fs home =
     (case fy_readdir fs profileBase of
        None \<Rightarrow> [home]
      | Some es \<Rightarrow>
          home # map (\<lambda>(n, _). path_join profileBase n)
            (filter (\<lambda>(n, dir). dir \<and> n \<notin> set skipProfile) es))"

definition detect_step :: "file_system \<Rightarrow> string \<Rightarrow> source list \<Rightarrow> string \<times> string \<Rightarrow> source list" where
  "detect_step fs h out = (\<lambda>(tool, subpath).
     (let p = path_join h subpath; src = \<lparr>so_Tool = tool, so_Root = p\<rparr> in
      if fy_stat fs p \<notin> {Some IsDirectory, Some IsRegular} \<or> src \<in> set out then out else out @ [src]))"

definition AutoDetectSources :: "file_system \<Rightarrow> string \<Rightarrow> source list" where
  "AutoDetectSources fs home =
     foldl (\<lambda>out h. foldl (detect_step fs h) out KnownToolDefaults) [] (candidateHomes fs home)"

text \<open>\<open>changed\<close>: whether \<open>--root\<close> or \<open>--tool\<close> was given.\<close>

definition resolveSources :: "file_system \<Rightarrow> bool \<Rightarrow> RunConfig \<Rightarrow> string \<Rightarrow> source list option" where
  "resolveSources fs changed cfg home =
     (if rc_Sources cfg \<noteq> [] then parseSources (rc_Sources cfg)
      else if changed then Some [\<lparr>so_Tool = rc_Tool cfg, so_Root = rc_Root cfg\<rparr>]
      else (case AutoDetectSources fs home of
         [] \<Rightarrow> Some [\<lparr>so_Tool = rc_Tool cfg, so_Root = rc_Root cfg\<rparr>]
       | auto_srcs \<Rightarrow> Some auto_srcs))"

definition formatSources :: "source list \<Rightarrow> string" where
  "formatSources ss = join '', '' (map (\<lambda>s. so_Tool s @ [CHR 0xE2, CHR 0x86, CHR 0x92] @ so_Root s) ss)"

definition displayKey :: "string \<Rightarrow> string" where
  "displayKey k = (if 12 \<le> length k then take 12 k @ [CHR 0xE2, CHR 0x80, CHR 0xA6] else ''[invalid]'')"

section \<open>The summary line\<close>

fun attribute_loop :: "string \<Rightarrow> source list \<Rightarrow> string \<Rightarrow> int \<Rightarrow> string" where
  "attribute_loop path [] best bestLen = best"
| "attribute_loop path (src # srcs) best bestLen =
     (if bestLen < int (length (so_Root src)) \<and> has_prefix path (so_Root src)
      then attribute_loop path srcs (so_Tool src) (int (length (so_Root src)))
      else attribute_loop path srcs best bestLen)"

definition attributePath :: "source list \<Rightarrow> string \<Rightarrow> string" where
  "attributePath sources path = attribute_loop path sources [] (- 1)"

definition tally :: "string list \<Rightarrow> (string \<times> int) list \<Rightarrow> (string \<times> int) list" where
  "tally ts m = foldl (\<lambda>m t. put t ((case map_of m t of None \<Rightarrow> 0 | Some n \<Rightarrow> n) + 1) m) m ts"

definition count_of :: "(string \<times> int) list \<Rightarrow> string \<Rightarrow> int" where
  "count_of m t = (case map_of m t of None \<Rightarrow> 0 | Some n \<Rightarrow> n)"

definition formatPerToolScan ::
    "source list \<Rightarrow> (string \<times> file_state) list \<Rightarrow> usage_record list \<Rightarrow> edit_record list \<Rightarrow> string" where
  "formatPerToolScan sources pending recs edits =
     (let zero = foldl (\<lambda>m s. put (so_Tool s) 0 m) [] sources;
          files = tally (filter (\<lambda>t. t \<noteq> []) (map (\<lambda>(p, _). attributePath sources p) pending)) zero;
          news = tally (map ur_Tool recs) zero;
          newEdits = tally (map er_Tool edits) []
      in join '', '' (map (\<lambda>t.
           t @ '' '' @ itoa (count_of news t) @ ''/'' @ itoa (count_of files t) @
           (if 0 < count_of newEdits t then '' (+'' @ itoa (count_of newEdits t) @ '' edits)'' else []))
           (sort (map fst files))))"

section \<open>Batches\<close>

text \<open>\<open>None\<close> is a panic: a division by zero, or a slice out of bounds, for a batch size below one.\<close>

function send_windows :: "(nat \<Rightarrow> nat \<Rightarrow> 'w \<Rightarrow> (string + SendResult) \<times> 'w) \<Rightarrow> nat \<Rightarrow> nat \<Rightarrow> nat \<Rightarrow> 'w \<Rightarrow> bool \<times> 'w" where
  "send_windows send n bs start w =
     (if start < n \<and> 0 < bs then
        (case send start (min (start + bs) n) w of
           (Inl _, w') \<Rightarrow> (False, w')
         | (Inr _, w') \<Rightarrow> send_windows send n bs (start + bs) w')
      else (True, w))"
  by pat_completeness auto
termination by (relation "measure (\<lambda>(send, n, bs, start, w). n - start)") auto

declare send_windows.simps [simp del]

definition sendBatched :: "nat \<Rightarrow> int \<Rightarrow> (nat \<Rightarrow> nat \<Rightarrow> 'w \<Rightarrow> (string + SendResult) \<times> 'w) \<Rightarrow> 'w \<Rightarrow> bool option \<times> 'w" where
  "sendBatched n batchSize send w =
     (if n = 0 then (Some True, w)
      else if batchSize \<le> 0 then (None, w)
      else (case send_windows send n (nat batchSize) 0 w of (ok, w') \<Rightarrow> (Some ok, w')))"

definition slice :: "'a list \<Rightarrow> nat \<Rightarrow> nat \<Rightarrow> 'a list" where
  "slice xs start fin = take (fin - start) (drop start xs)"

section \<open>One tick\<close>

record 'w watcher =
  wa_unzstd :: decompressor
  wa_sources :: "source list"
  wa_cutoff :: duration
  wa_up :: uploader
  wa_net :: "'w net"
  wa_batch :: int

record 'w watcher_state =
  wt_ckpt :: checkpoint
  wt_disk :: ckpt_disk
  wt_wd :: "'w \<times> dir"

text \<open>What a tick meets: the flush, the clock, the sources, the spool for each batch, the save.\<close>

record tick_env =
  te_flush :: flush_env
  te_now :: gotime
  te_roots :: "root_obs list"
  te_spool :: "bool \<Rightarrow> nat \<Rightarrow> spool_env"
  te_save :: save_env

datatype tick_end = Advanced | Kept | Panicked

definition advance ::
    "tick_env \<Rightarrow> (string \<times> file_state) list \<Rightarrow> 'w watcher_state \<Rightarrow> 'w watcher_state" where
  "advance e pending st =
     (let ck = foldl (\<lambda>c (p, s). ckpt_Set c p s) (wt_ckpt st) pending
      in st\<lparr>wt_ckpt := ck, wt_disk := snd (Save (te_save e) ck (wt_disk st))\<rparr>)"

definition tick_scan ::
    "'w watcher \<Rightarrow> tick_env \<Rightarrow> 'w watcher_state \<Rightarrow> scan_result \<times> (string \<times> file_state) list" where
  "tick_scan a e st =
     (case Scan (wa_unzstd a) (wa_sources a) (wt_ckpt st) (wa_cutoff a) (te_now e) (te_roots e) of
        (r, pending, _) \<Rightarrow> (r, pending))"

definition send_usage ::
    "'w watcher \<Rightarrow> tick_env \<Rightarrow> usage_record list \<Rightarrow> nat \<Rightarrow> nat \<Rightarrow> 'w \<times> dir \<Rightarrow> (string + SendResult) \<times> 'w \<times> dir" where
  "send_usage a e recs start fin = Send (wa_up a) (wa_net a) (te_spool e False start) (slice recs start fin)"

definition send_edits ::
    "'w watcher \<Rightarrow> tick_env \<Rightarrow> edit_record list \<Rightarrow> nat \<Rightarrow> nat \<Rightarrow> 'w \<times> dir \<Rightarrow> (string + SendResult) \<times> 'w \<times> dir" where
  "send_edits a e edits start fin = SendEdits (wa_up a) (wa_net a) (te_spool e True start) (slice edits start fin)"

definition tick_flush :: "'w watcher \<Rightarrow> tick_env \<Rightarrow> 'w watcher_state \<Rightarrow> 'w watcher_state" where
  "tick_flush a e st = st\<lparr>wt_wd := snd (Flush (wa_up a) (wa_net a) (te_flush e) (wt_wd st))\<rparr>"

definition runOnce :: "'w watcher \<Rightarrow> tick_env \<Rightarrow> 'w watcher_state \<Rightarrow> tick_end \<times> 'w watcher_state" where
  "runOnce a e st0 =
     (let st = tick_flush a e st0;
          (scanned, pending) = tick_scan a e st;
          recs = sr_Usage scanned; edits = sr_Edits scanned
      in if recs = [] \<and> edits = [] then
           (if pending = [] then (Kept, st) else (Advanced, advance e pending st))
         else (case sendBatched (length recs) (wa_batch a) (send_usage a e recs) (wt_wd st) of
             (None, wd) \<Rightarrow> (Panicked, st\<lparr>wt_wd := wd\<rparr>)
           | (Some False, wd) \<Rightarrow> (Kept, st\<lparr>wt_wd := wd\<rparr>)
           | (Some True, wd) \<Rightarrow>
               (case sendBatched (length edits) (wa_batch a) (send_edits a e edits) wd of
                  (None, wd') \<Rightarrow> (Panicked, st\<lparr>wt_wd := wd'\<rparr>)
                | (Some False, wd') \<Rightarrow> (Kept, st\<lparr>wt_wd := wd'\<rparr>)
                | (Some True, wd') \<Rightarrow> (Advanced, advance e pending (st\<lparr>wt_wd := wd'\<rparr>)))))"

section \<open>The loop\<close>

text \<open>The ticks until the context ends, or only the first; a panic ends the process.\<close>

fun watch_loop :: "'w watcher \<Rightarrow> bool \<Rightarrow> tick_env list \<Rightarrow> 'w watcher_state \<Rightarrow> tick_end list \<times> 'w watcher_state" where
  "watch_loop a once [] st = ([], st)"
| "watch_loop a once (e # es) st =
     (case runOnce a e st of
        (fin, st') \<Rightarrow>
          if fin = Panicked \<or> once then ([fin], st')
          else (case watch_loop a once es st' of (fins, st'') \<Rightarrow> (fin # fins, st'')))"

text \<open>What the process is told at its start, and the start itself: an error, or the watcher it runs.\<close>

record start_env =
  an_fs :: file_system
  an_changed :: bool
  an_home :: string
  an_hostname :: "string option"
  an_ckpt :: read_outcome

definition start_watcher ::
    "start_env \<Rightarrow> RunConfig \<Rightarrow> decompressor \<Rightarrow> 'w net \<Rightarrow> ckpt_disk \<Rightarrow> 'w \<times> dir \<Rightarrow>
     string + 'w watcher \<times> 'w watcher_state" where
  "start_watcher s cfg unzstd net dk wd =
     (case resolveSources (an_fs s) (an_changed s) cfg (an_home s) of
        None \<Rightarrow> Inl ''--source must be tool=path''
      | Some sources \<Rightarrow>
          if rc_APIKey cfg = [] then Inl ''--api-key (or $TOKENUSAGE_API_KEY) is required''
          else (case an_hostname s of
             None \<Rightarrow> Inl ''hostname''
           | Some machine \<Rightarrow>
               if machine = [] then Inl ''hostname''
               else (case LoadCheckpoint (an_ckpt s) of
                  None \<Rightarrow> Inl ''checkpoint''
                | Some ck \<Rightarrow>
                    Inr (\<lparr>wa_unzstd = unzstd, wa_sources = sources, wa_cutoff = rc_BackfillCutoff cfg,
                          wa_up = \<lparr>up_Endpoint = rc_Endpoint cfg, up_MachineID = machine,
                                   up_APIKey = rc_APIKey cfg, up_BufferDir = rc_BufferDir cfg\<rparr>,
                          wa_net = net, wa_batch = rc_Batch cfg\<rparr>,
                         \<lparr>wt_ckpt = ck, wt_disk = dk, wt_wd = wd\<rparr>))))"

definition DoRun ::
    "start_env \<Rightarrow> RunConfig \<Rightarrow> decompressor \<Rightarrow> 'w net \<Rightarrow> tick_env list \<Rightarrow> ckpt_disk \<Rightarrow> 'w \<times> dir \<Rightarrow>
     string + tick_end list \<times> 'w watcher_state" where
  "DoRun s cfg unzstd net es dk wd =
     (case start_watcher s cfg unzstd net dk wd of
        Inl err \<Rightarrow> Inl err
      | Inr (a, st) \<Rightarrow> Inr (watch_loop a (rc_Once cfg) es st))"

section \<open>Batches cover the records\<close>

definition window :: "nat \<Rightarrow> nat \<Rightarrow> nat \<Rightarrow> nat" where
  "window n bs i = min (i + bs) n"

lemma send_windows_covers:
  assumes run: "send_windows send n bs start w = (True, w')" and bs: "0 < bs"
    and sent: "\<And>i w r w'. \<lbrakk>i < n; send i (window n bs i) w = (Inr r, w'); I i w\<rbrakk> \<Longrightarrow> W i w' \<and> I (i + bs) w'"
    and keep: "\<And>i j w r w'. \<lbrakk>i < n; send i (window n bs i) w = (Inr r, w'); I i w; W j w; j < i\<rbrakk> \<Longrightarrow> W j w'"
    and "I start w" "\<And>j. j \<in> J \<Longrightarrow> j < start \<and> W j w"
  shows "(\<forall>j \<in> J. W j w') \<and> (\<forall>k. start \<le> k \<and> k < n \<longrightarrow> (\<exists>i. start \<le> i \<and> i \<le> k \<and> k < window n bs i \<and> W i w'))"
  using run assms(5,6)
proof (induction "n - start" arbitrary: start w J rule: less_induct)
  case less
  show ?case
  proof (cases "start < n")
    case False
    with less.prems send_windows.simps [of send n bs start w] show ?thesis by auto
  next
    case True
    then obtain r w1 where s: "send start (window n bs start) w = (Inr r, w1)"
      and run: "send_windows send n bs (start + bs) w1 = (True, w')"
      using less.prems(1) True bs send_windows.simps [of send n bs start w]
      by (auto simp: window_def split: sum.splits prod.splits)
    have W: "W start w1" "I (start + bs) w1" using sent [OF True s less.prems(2)] by auto
    have keeps: "j < start + bs \<and> W j w1" if "j \<in> insert start J" for j
      using that W(1) keep [OF True s less.prems(2)] less.prems(3) bs by force
    note IH = less.hyps [OF _ run W(2) keeps]
    have "(\<forall>j \<in> insert start J. W j w') \<and>
        (\<forall>k. start + bs \<le> k \<and> k < n \<longrightarrow> (\<exists>i. start + bs \<le> i \<and> i \<le> k \<and> k < window n bs i \<and> W i w'))"
      by (rule IH) (use True bs in auto)
    then have *: "\<forall>j \<in> insert start J. W j w'"
      "\<And>k. start + bs \<le> k \<Longrightarrow> k < n \<Longrightarrow> \<exists>i. start + bs \<le> i \<and> i \<le> k \<and> k < window n bs i \<and> W i w'"
      by auto
    have "\<exists>i. start \<le> i \<and> i \<le> k \<and> k < window n bs i \<and> W i w'" if k: "start \<le> k" "k < n" for k
    proof (cases "k < start + bs")
      case True
      with k * show ?thesis by (intro exI [of _ start]) (auto simp: window_def)
    next
      case False
      then have "start + bs \<le> k" by simp
      from *(2) [OF this k(2)] show ?thesis by (meson le_add1 le_trans)
    qed
    with * show ?thesis by auto
  qed
qed

lemma slice_nth: "i \<le> k \<Longrightarrow> k < fin \<Longrightarrow> fin \<le> length xs \<Longrightarrow> xs ! k \<in> set (slice xs i fin)"
  unfolding slice_def in_set_conv_nth by (rule exI [of _ "k - i"]) auto

lemma slice_nonempty: "i < length xs \<Longrightarrow> 0 < bs \<Longrightarrow> slice xs i (window (length xs) bs i) \<noteq> []"
  by (simp add: slice_def window_def)

lemma send_windows_inv:
  assumes "send_windows send n bs start w = (ok, w')" "0 < bs" "I start w" "Q w"
    and step: "\<And>i w r w'. \<lbrakk>i < n; send i (window n bs i) w = (r, w'); I i w; Q w\<rbrakk> \<Longrightarrow> Q w' \<and> I (i + bs) w'"
    and last: "\<And>i w. n \<le> i \<Longrightarrow> I i w \<Longrightarrow> J w"
  shows "Q w' \<and> (ok \<longrightarrow> J w')"
  using assms(1,3,4)
proof (induction "n - start" arbitrary: start w rule: less_induct)
  case less
  show ?case
  proof (cases "start < n")
    case False
    with less.prems send_windows.simps [of send n bs start w] last [of start] show ?thesis by auto
  next
    case True
    obtain r w1 where s: "send start (window n bs start) w = (r, w1)" by (meson surj_pair)
    have Q: "Q w1" "I (start + bs) w1" using step [OF True s less.prems(2,3)] by auto
    show ?thesis
    proof (cases r)
      case (Inl err)
      with less.prems(1) True assms(2) s Q send_windows.simps [of send n bs start w] show ?thesis
        by (auto simp: window_def)
    next
      case (Inr res)
      with less.prems(1) True assms(2) s send_windows.simps [of send n bs start w]
      have "send_windows send n bs (start + bs) w1 = (ok, w')" by (auto simp: window_def)
      from less.hyps [OF _ this Q(2,1)] True assms(2) show ?thesis by simp
    qed
  qed
qed

section \<open>A tick loses nothing\<close>

text \<open>
  The name a batch would be spooled under, and that such names are free: the clock gives each
  batch of the tick its own, and none is taken in the buffer directory.
\<close>

definition batch_name :: "tick_env \<Rightarrow> bool \<times> nat \<Rightarrow> string" where
  "batch_name e = (\<lambda>(k, i). spool_name (se_now (te_spool e k i)))"

definition free_names :: "tick_env \<Rightarrow> (bool \<times> nat) set \<Rightarrow> dir \<Rightarrow> bool" where
  "free_names e S d \<longleftrightarrow> inj_on (batch_name e) S \<and> (\<forall>x \<in> S. batch_name e x \<notin> fst ` set d)"

definition tick_batches :: "scan_result \<Rightarrow> (bool \<times> nat) set" where
  "tick_batches r = {False} \<times> {..<length (sr_Usage r)} \<union> {True} \<times> {..<length (sr_Edits r)}"

lemma dir_remove_dom: "fst ` set (dir_remove n d) \<subseteq> fst ` set d"
  by (auto simp: dir_remove_def)

lemma spool_dom:
  assumes "spool e body d = (ok, d')"
  shows "fst ` set d' \<subseteq> fst ` set d \<union> {spool_name (se_now e), spool_name (se_now e) @ ''.tmp''}"
proof -
  let ?f = "spool_name (se_now e)"
  have "d' = d \<or> (\<exists>x. d' = put (?f @ ''.tmp'') x d) \<or> (\<exists>x. d' = put ?f x (dir_remove (?f @ ''.tmp'') d))"
    using assms by (auto simp: spool_def Let_def split: if_splits write_outcome.splits)
  then show ?thesis using dir_remove_dom [of "?f @ ''.tmp''" d] by (elim disjE exE) (simp_all only: keys_put, auto)
qed

lemma sendRequest_dom:
  assumes "sendRequest u net e req ed wd = (res, wd')"
  shows "fst ` set (snd wd') \<subseteq> fst ` set (snd wd) \<union> {spool_name (se_now e), spool_name (se_now e) @ ''.tmp''}"
proof -
  obtain w d where wd: "wd = (w, d)" by (cases wd)
  have "snd wd' = d \<or> (\<exists>b ok. spool e b d = (ok, snd wd'))"
    using assms unfolding wd sendRequest_def
    by (auto split: prod.splits sum.splits if_splits bool.splits option.splits)
  then show ?thesis using spool_dom unfolding wd by (elim disjE exE) auto
qed

lemma free_names_send:
  assumes "sendRequest u net (te_spool e k i) req ed wd = (res, wd')" "free_names e S (snd wd)"
    and "(k, i) \<in> S" "S' \<subseteq> S - {(k, i)}"
  shows "free_names e S' (snd wd')"
proof -
  have "batch_name e x \<notin> fst ` set (snd wd')" if x: "x \<in> S'" for x
  proof -
    have "batch_name e x \<noteq> batch_name e (k, i)" "batch_name e x \<notin> fst ` set (snd wd)"
      using assms(2-4) x by (auto simp: free_names_def inj_on_def)
    moreover have "path_ext (batch_name e x) \<noteq> path_ext (spool_name (se_now (te_spool e k i)) @ ''.tmp'')"
      by (simp add: batch_name_def split: prod.split)
    then have "batch_name e x \<noteq> spool_name (se_now (te_spool e k i)) @ ''.tmp''" by metis
    ultimately show ?thesis using sendRequest_dom [OF assms(1)] by (auto simp: batch_name_def)
  qed
  moreover have "inj_on (batch_name e) S'"
    using assms(2,4) by (auto simp: free_names_def intro: inj_on_subset)
  ultimately show ?thesis by (simp add: free_names_def)
qed

context durable_endpoint begin

lemma batches_held:
  assumes run: "sendBatched n bz send wd = (ans, wd')"
    and sends: "\<forall>i wd. 0 < bz \<longrightarrow> i < n \<longrightarrow>
      send i (window n (nat bz) i) wd = sendRequest u net (te_spool e k i) (req i) ed wd"
    and free: "free_names e ({k} \<times> {..<n} \<union> S) (snd wd)" "\<forall>x \<in> S. fst x \<noteq> k"
  shows "safe stored c wd \<Longrightarrow> safe stored c wd'"
    and "ans = Some True \<Longrightarrow> free_names e S (snd wd')"
    and "ans = Some True \<Longrightarrow> l < n \<Longrightarrow>
      \<exists>i b. i \<le> l \<and> l < window n (nat bz) i \<and> marshal_request (req i) = Some b \<and> safe stored b wd'"
proof -
  let ?I = "\<lambda>i wd. free_names e ({k} \<times> {i..<n} \<union> S) (snd wd)"
  let ?W = "\<lambda>i wd. \<exists>b. marshal_request (req i) = Some b \<and> safe stored b wd"
  note send = sends [rule_format]
  have start: "?I 0 wd" using free by (simp add: atLeast0LessThan)
  have next_free: "?I (i + nat bz) w'"
    if "0 < bz" "i < n" "send i (window n (nat bz) i) w = (r, w')" "?I i w" for i w r w'
    by (rule free_names_send [OF that(3) [unfolded send [OF that(1,2)]] that(4)]) (use that free(2) in auto)
  have name: "spool_name (se_now (te_spool e k i)) \<notin> fst ` set (snd w)" if "i < n" "?I i w" for i w
    using that by (auto simp: free_names_def batch_name_def dest!: bspec [where x = "(k, i)"])
  have keep: "safe stored b w'"
    if "0 < bz" "i < n" "send i (window n (nat bz) i) w = (r, w')" "?I i w" "safe stored b w" for i w r w' b
    using sendRequest_keeps [OF that(3) [unfolded send [OF that(1,2)]] that(5) name [OF that(2,4)]] .
  show "safe stored c wd'" if "safe stored c wd"
  proof (cases "n = 0 \<or> bz \<le> 0")
    case False
    then obtain ok where "send_windows send n (nat bz) 0 wd = (ok, wd')"
      using run by (auto simp: sendBatched_def split: prod.splits)
    from send_windows_inv [where I = ?I and Q = "safe stored c" and J = "\<lambda>_. True", OF this _ start that]
      keep next_free False show ?thesis by fastforce
  qed (use run that in \<open>auto simp: sendBatched_def split: if_splits\<close>)
  have "(ans = Some True \<longrightarrow> free_names e S (snd wd')) \<and> (ans = Some True \<longrightarrow> (\<forall>l < n. \<exists>i. i \<le> l \<and> l < window n (nat bz) i \<and> ?W i wd'))"
  proof (cases "n = 0 \<or> bz \<le> 0")
    case True
    with run start show ?thesis by (auto simp: sendBatched_def split: if_splits)
  next
    case False
    then obtain ok where ok: "send_windows send n (nat bz) 0 wd = (ok, wd')" "ans = Some ok"
      using run by (auto simp: sendBatched_def split: prod.splits)
    have "ok \<longrightarrow> free_names e S (snd wd')"
      using send_windows_inv [where I = ?I and J = "\<lambda>w. free_names e S (snd w)" and Q = "\<lambda>_. True",
          OF ok(1) _ start] next_free False
      by fastforce
    moreover have "\<forall>l < n. \<exists>i. i \<le> l \<and> l < window n (nat bz) i \<and> ?W i wd'" if "ok"
    proof -
      have sent: "?W i w' \<and> ?I (i + nat bz) w'" if "i < n" "send i (window n (nat bz) i) w = (Inr r, w')" "?I i w" for i w r w'
      proof -
        have sr: "sendRequest u net (te_spool e k i) (req i) ed w = (Inr r, w')" using that False send by auto
        from sendRequest_marshals [OF sr] obtain b where "marshal_request (req i) = Some b" by blast
        with sendRequest_safe [OF sr this] next_free [OF _ that] False show ?thesis by auto
      qed
      have "?W j w'" if "i < n" "send i (window n (nat bz) i) w = (Inr r, w')" "?I i w" "?W j w" "j < i" for i j w r w'
        using keep [OF _ that(1-3)] that(4) False by auto
      moreover have "send_windows send n (nat bz) 0 wd = (True, wd')" using ok(1) that by simp
      ultimately show ?thesis
        using send_windows_covers [where I = ?I and W = ?W and J = "{}", OF _ _ sent _ start] False by auto
    qed
    ultimately show ?thesis using ok(2) by simp
  qed
  then show "ans = Some True \<Longrightarrow> free_names e S (snd wd')"
    "ans = Some True \<Longrightarrow> l < n \<Longrightarrow>
      \<exists>i b. i \<le> l \<and> l < window n (nat bz) i \<and> marshal_request (req i) = Some b \<and> safe stored b wd'"
    by blast+
qed

end

lemma runOnce_kept:
  assumes "runOnce a e st = (fin, st')" "fin \<noteq> Advanced"
  shows "wt_ckpt st' = wt_ckpt st" "wt_disk st' = wt_disk st"
  using assms by (auto simp: runOnce_def Let_def tick_flush_def split: prod.splits if_splits option.splits bool.splits)

lemma runOnce_advanced:
  assumes "runOnce a e st = (Advanced, st')" "tick_scan a e (tick_flush a e st) = (r, pending)"
  shows "wt_ckpt st' = foldl (\<lambda>c (p, s). ckpt_Set c p s) (wt_ckpt st) pending"
    and "wt_disk st' = snd (Save (te_save e) (wt_ckpt st') (wt_disk st))"
  using assms by (auto simp: runOnce_def Let_def tick_flush_def advance_def
      split: prod.splits if_splits option.splits bool.splits)

text \<open>The two runs of batches of a tick, as far as they went.\<close>

lemma runOnce_sends:
  assumes "runOnce a e st = (fin, st')" "tick_scan a e (tick_flush a e st) = (r, pending)"
  obtains wd0 ans1 wd1 ans2 wd2 where "wd0 = wt_wd (tick_flush a e st)"
    and "sendBatched (length (sr_Usage r)) (wa_batch a) (send_usage a e (sr_Usage r)) wd0 = (ans1, wd1)"
    and "sendBatched (length (sr_Edits r)) (wa_batch a) (send_edits a e (sr_Edits r)) wd1 = (ans2, wd2)"
    and "wt_wd st' = (if sr_Usage r = [] \<and> sr_Edits r = [] then wd0 else if ans1 = Some True then wd2 else wd1)"
    and "fin = Advanced \<Longrightarrow> ans1 = Some True \<and> ans2 = Some True"
proof -
  obtain ans1 wd1 where 1: "sendBatched (length (sr_Usage r)) (wa_batch a) (send_usage a e (sr_Usage r))
      (wt_wd (tick_flush a e st)) = (ans1, wd1)" by (meson surj_pair)
  obtain ans2 wd2 where 2: "sendBatched (length (sr_Edits r)) (wa_batch a) (send_edits a e (sr_Edits r)) wd1 = (ans2, wd2)"
    by (meson surj_pair)
  have none: "ans1 = Some True \<and> ans2 = Some True" if "sr_Usage r = [] \<and> sr_Edits r = []"
    using 1 2 that by (auto simp: sendBatched_def)
  show thesis
    by (rule that [OF refl 1 2])
      (use assms 1 2 none in \<open>auto simp: runOnce_def Let_def advance_def split: if_splits option.splits bool.splits\<close>)
qed

definition usage_batch :: "'w watcher \<Rightarrow> usage_record list \<Rightarrow> nat \<Rightarrow> ingest_request" where
  "usage_batch a recs i = \<lparr>iq_MachineID = up_MachineID (wa_up a),
     iq_Records = slice recs i (window (length recs) (nat (wa_batch a)) i), iq_Edits = []\<rparr>"

definition edit_batch :: "'w watcher \<Rightarrow> edit_record list \<Rightarrow> nat \<Rightarrow> ingest_request" where
  "edit_batch a edits i = \<lparr>iq_MachineID = up_MachineID (wa_up a), iq_Records = [],
     iq_Edits = slice edits i (window (length edits) (nat (wa_batch a)) i)\<rparr>"

lemma send_usage_batch:
  "\<forall>i wd. 0 < wa_batch a \<longrightarrow> i < length recs \<longrightarrow>
   send_usage a e recs i (window (length recs) (nat (wa_batch a)) i) wd =
   sendRequest (wa_up a) (wa_net a) (te_spool e False i) (usage_batch a recs i) False wd"
  by (simp add: send_usage_def Send_def usage_batch_def slice_nonempty)

lemma send_edits_batch:
  "\<forall>i wd. 0 < wa_batch a \<longrightarrow> i < length edits \<longrightarrow>
   send_edits a e edits i (window (length edits) (nat (wa_batch a)) i) wd =
   sendRequest (wa_up a) (wa_net a) (te_spool e True i) (edit_batch a edits i) True wd"
  by (simp add: send_edits_def SendEdits_def edit_batch_def slice_nonempty)

lemma window_le: "window n bs i \<le> n"
  by (simp add: window_def)

context durable_endpoint begin

text \<open>Each record of a scan whose tick advances is in a batch that took effect or waits in the spool.\<close>

lemma runOnce_holds:
  assumes run: "runOnce a e st = (Advanced, st')" "tick_scan a e (tick_flush a e st) = (r, pending)"
    and net: "wa_net a = net" and free: "free_names e (tick_batches r) (snd (wt_wd (tick_flush a e st)))"
  shows "u \<in> set (sr_Usage r) \<Longrightarrow> \<exists>i b. u \<in> set (iq_Records (usage_batch a (sr_Usage r) i)) \<and>
      marshal_request (usage_batch a (sr_Usage r) i) = Some b \<and> safe stored b (wt_wd st')"
    and "x \<in> set (sr_Edits r) \<Longrightarrow> \<exists>i b. x \<in> set (iq_Edits (edit_batch a (sr_Edits r) i)) \<and>
      marshal_request (edit_batch a (sr_Edits r) i) = Some b \<and> safe stored b (wt_wd st')"
proof -
  obtain wd0 ans1 wd1 ans2 wd2 where *: "wd0 = wt_wd (tick_flush a e st)"
    "sendBatched (length (sr_Usage r)) (wa_batch a) (send_usage a e (sr_Usage r)) wd0 = (ans1, wd1)"
    "sendBatched (length (sr_Edits r)) (wa_batch a) (send_edits a e (sr_Edits r)) wd1 = (ans2, wd2)"
    "wt_wd st' = (if sr_Usage r = [] \<and> sr_Edits r = [] then wd0 else if ans1 = Some True then wd2 else wd1)"
    "ans1 = Some True \<and> ans2 = Some True"
    by (rule runOnce_sends [OF run]) blast
  let ?S = "{True} \<times> {..<length (sr_Edits r)}"
  have f0: "free_names e ({False} \<times> {..<length (sr_Usage r)} \<union> ?S) (snd wd0)"
    using free *(1) by (simp add: tick_batches_def)
  note B1 = batches_held [OF *(2) send_usage_batch [of a, unfolded net] f0]
  have f1: "free_names e (?S \<union> {}) (snd wd1)" using B1(2) *(5) by auto
  note B2 = batches_held [OF *(3) send_edits_batch [of a, unfolded net] f1]
  show "\<exists>i b. u \<in> set (iq_Records (usage_batch a (sr_Usage r) i)) \<and>
      marshal_request (usage_batch a (sr_Usage r) i) = Some b \<and> safe stored b (wt_wd st')" if u: "u \<in> set (sr_Usage r)"
  proof -
    obtain l where l: "l < length (sr_Usage r)" "u = sr_Usage r ! l" using u by (auto simp: in_set_conv_nth)
    obtain i b where b: "i \<le> l" "l < window (length (sr_Usage r)) (nat (wa_batch a)) i"
      "marshal_request (usage_batch a (sr_Usage r) i) = Some b" "safe stored b wd1"
      using B1(3) [OF _ _ l(1)] *(5) by auto
    have "u \<in> set (iq_Records (usage_batch a (sr_Usage r) i))"
      using slice_nth [OF b(1,2) window_le] l(2) by (simp add: usage_batch_def)
    moreover have "safe stored b (wt_wd st')" using B2(1) [OF _ b(4)] *(4,5) u by auto
    ultimately show ?thesis using b(3) by blast
  qed
  show "\<exists>i b. x \<in> set (iq_Edits (edit_batch a (sr_Edits r) i)) \<and>
      marshal_request (edit_batch a (sr_Edits r) i) = Some b \<and> safe stored b (wt_wd st')" if x: "x \<in> set (sr_Edits r)"
  proof -
    obtain l where l: "l < length (sr_Edits r)" "x = sr_Edits r ! l" using x by (auto simp: in_set_conv_nth)
    obtain i b where b: "i \<le> l" "l < window (length (sr_Edits r)) (nat (wa_batch a)) i"
      "marshal_request (edit_batch a (sr_Edits r) i) = Some b" "safe stored b wd2"
      using B2(3) [OF _ _ l(1)] *(5) by auto
    have "x \<in> set (iq_Edits (edit_batch a (sr_Edits r) i))"
      using slice_nth [OF b(1,2) window_le] l(2) by (simp add: edit_batch_def)
    moreover have "wt_wd st' = wd2" using *(4,5) x by auto
    ultimately show ?thesis using b(3,4) by blast
  qed
qed

lemma runOnce_keeps:
  assumes run: "runOnce a e st = (fin, st')" "tick_scan a e (tick_flush a e st) = (r, pending)"
    and net: "wa_net a = net" and free: "free_names e (tick_batches r) (snd (wt_wd (tick_flush a e st)))"
    and "safe stored c (wt_wd (tick_flush a e st))"
  shows "safe stored c (wt_wd st')"
proof -
  obtain wd0 ans1 wd1 ans2 wd2 where *: "wd0 = wt_wd (tick_flush a e st)"
    "sendBatched (length (sr_Usage r)) (wa_batch a) (send_usage a e (sr_Usage r)) wd0 = (ans1, wd1)"
    "sendBatched (length (sr_Edits r)) (wa_batch a) (send_edits a e (sr_Edits r)) wd1 = (ans2, wd2)"
    "wt_wd st' = (if sr_Usage r = [] \<and> sr_Edits r = [] then wd0 else if ans1 = Some True then wd2 else wd1)"
    by (rule runOnce_sends [OF run]) blast
  let ?S = "{True} \<times> {..<length (sr_Edits r)}"
  have f0: "free_names e ({False} \<times> {..<length (sr_Usage r)} \<union> ?S) (snd wd0)"
    using free *(1) by (simp add: tick_batches_def)
  note B1 = batches_held [OF *(2) send_usage_batch [of a, unfolded net] f0]
  have s1: "safe stored c wd1" using B1(1) assms(5) *(1) by auto
  show ?thesis
  proof (cases "ans1 = Some True")
    case True
    then have f1: "free_names e (?S \<union> {}) (snd wd1)" using B1(2) by auto
    from batches_held(1) [OF *(3) send_edits_batch [of a, unfolded net] f1 _ s1] *(1,4) assms(5) True
    show ?thesis by auto
  qed (use *(1,4) assms(5) s1 in auto)
qed

end

section \<open>What a tick preserves\<close>

lemma batches_inv:
  assumes "sendBatched n bz send wd = (ans, wd')"
    and "\<forall>i wd. 0 < bz \<longrightarrow> i < n \<longrightarrow> send i (window n (nat bz) i) wd = sendRequest u net (te_spool e k i) (req i) ed wd"
    and "\<And>i wd res wd'. i < n \<Longrightarrow> sendRequest u net (te_spool e k i) (req i) ed wd = (res, wd') \<Longrightarrow> Q wd \<Longrightarrow> Q wd'"
    and "Q wd"
  shows "Q wd'"
proof (cases "n = 0 \<or> bz \<le> 0")
  case False
  then obtain ok where ok: "send_windows send n (nat bz) 0 wd = (ok, wd')"
    using assms(1) by (auto simp: sendBatched_def split: prod.splits)
  have "Q wd' \<and> (ok \<longrightarrow> True)"
    by (rule send_windows_inv [where I = "\<lambda>_ _. True", OF ok]) (use assms(2-4) False in auto)
  then show ?thesis ..
qed (use assms(1,4) in \<open>auto simp: sendBatched_def split: if_splits\<close>)

lemma runOnce_inv:
  assumes run: "runOnce a e st = (fin, st')" "tick_scan a e (tick_flush a e st) = (r, pending)"
    and flush: "Q (wt_wd (tick_flush a e st))"
    and usage: "\<And>i wd res wd'. i < length (sr_Usage r) \<Longrightarrow>
      sendRequest (wa_up a) (wa_net a) (te_spool e False i) (usage_batch a (sr_Usage r) i) False wd = (res, wd') \<Longrightarrow> Q wd \<Longrightarrow> Q wd'"
    and edits: "\<And>i wd res wd'. i < length (sr_Edits r) \<Longrightarrow>
      sendRequest (wa_up a) (wa_net a) (te_spool e True i) (edit_batch a (sr_Edits r) i) True wd = (res, wd') \<Longrightarrow> Q wd \<Longrightarrow> Q wd'"
  shows "Q (wt_wd st')"
proof -
  obtain wd0 ans1 wd1 ans2 wd2 where *: "wd0 = wt_wd (tick_flush a e st)"
    "sendBatched (length (sr_Usage r)) (wa_batch a) (send_usage a e (sr_Usage r)) wd0 = (ans1, wd1)"
    "sendBatched (length (sr_Edits r)) (wa_batch a) (send_edits a e (sr_Edits r)) wd1 = (ans2, wd2)"
    "wt_wd st' = (if sr_Usage r = [] \<and> sr_Edits r = [] then wd0 else if ans1 = Some True then wd2 else wd1)"
    by (rule runOnce_sends [OF run]) blast
  have "Q wd1" by (rule batches_inv [where Q = Q, OF *(2) send_usage_batch]) (use usage flush *(1) in auto)
  moreover from this have "Q wd2"
    by (intro batches_inv [where Q = Q, OF *(3) send_edits_batch]) (use edits in auto)
  ultimately show ?thesis using *(1,4) flush by auto
qed

text \<open>The entries that count, and what sending and flushing do to them.\<close>

definition spool_bodies :: "dir \<Rightarrow> string set" where
  "spool_bodies d = {b. \<exists>n. (n, Regular b) \<in> set d \<and> path_ext n \<noteq> ''.tmp''}"

lemma set_put_subset': "set (put k v m) \<subseteq> insert (k, v) (set m)"
  by (induction m) (auto split: if_splits)

lemma spool_bodies_spool: "spool e b d = (ok, d') \<Longrightarrow> spool_bodies d' \<subseteq> insert b (spool_bodies d)"
  using set_put_subset'
  by (fastforce simp: spool_def Let_def spool_bodies_def dir_remove_def split: if_splits write_outcome.splits)

lemma spool_distinct: "spool e b d = (ok, d') \<Longrightarrow> distinct (map fst d) \<Longrightarrow> distinct (map fst d')"
  by (auto simp: spool_def Let_def dir_remove_def distinct_map_filter split: if_splits write_outcome.splits)

lemma sendRequest_dir:
  assumes "sendRequest u net e req ed wd = (res, wd')"
  shows "snd wd' = snd wd \<or> (\<exists>b ok. marshal_request req = Some b \<and> spool e b (snd wd) = (ok, snd wd'))"
  using assms unfolding sendRequest_def
  by (auto split: prod.splits sum.splits if_splits bool.splits option.splits)

lemma flush_loop_dir: "flush_loop u net e es t wd = (t', wd') \<Longrightarrow> set (snd wd') \<subseteq> set (snd wd)"
proof (induction es arbitrary: t wd)
  case (Cons x es)
  obtain n y w d where x: "x = (n, y)" "wd = (w, d)" by (meson surj_pair)
  have rm: "set (flush_remove e n d) \<subseteq> set d" by (auto simp: flush_remove_def dir_remove_def)
  show ?case
  proof (cases y)
    case SubDir
    with Cons.prems x have "flush_loop u net e es t (w, d) = (t', wd')" by simp
    from Cons.IH [OF this] x show ?thesis by simp
  next
    case (Regular body)
    obtain r w1 where p: "post u net body w = (r, w1)" by (meson surj_pair)
    from Cons.prems x Regular p consider t1 where "flush_loop u net e es t1 (w, d) = (t', wd')"
      | t1 where "flush_loop u net e es t1 (w1, flush_remove e n d) = (t', wd')"
      | "wd' = (w1, d)"
      by (cases r) (auto simp: Let_def split: if_splits)
    then show ?thesis using Cons.IH x rm by cases fastforce+
  qed
qed simp

lemma flush_loop_distinct: "flush_loop u net e es t wd = (t', wd') \<Longrightarrow> distinct (map fst (snd wd)) \<Longrightarrow> distinct (map fst (snd wd'))"
proof (induction es arbitrary: t wd)
  case (Cons x es)
  obtain n y w d where x: "x = (n, y)" "wd = (w, d)" by (meson surj_pair)
  have rm: "distinct (map fst (flush_remove e n d))" if "distinct (map fst d)"
    using that by (simp add: flush_remove_def dir_remove_def distinct_map_filter)
  show ?case
  proof (cases y)
    case SubDir
    with Cons x show ?thesis by auto
  next
    case (Regular body)
    obtain r w1 where p: "post u net body w = (r, w1)" by (meson surj_pair)
    from Cons.prems(1) x Regular p consider t1 where "flush_loop u net e es t1 (w, d) = (t', wd')"
      | t1 where "flush_loop u net e es t1 (w1, flush_remove e n d) = (t', wd')"
      | "wd' = (w1, d)"
      by (cases r) (auto simp: Let_def split: if_splits)
    then show ?thesis using Cons.IH Cons.prems(2) x rm by cases fastforce+
  qed
qed simp

lemma flush_loop_no_drop:
  assumes "flush_loop u net e es t wd = (t', wd')"
    and "\<And>n b w err w'. (n, Regular b) \<in> set es \<Longrightarrow> path_ext n \<noteq> ''.tmp'' \<Longrightarrow>
      post u net b w = (Inl err, w') \<Longrightarrow> \<not> isHTTPRejection err"
  shows "fl_dropped t' = fl_dropped t"
  using assms
proof (induction es arbitrary: t wd)
  case (Cons x es)
  obtain n y w d where x: "x = (n, y)" "wd = (w, d)" by (meson surj_pair)
  show ?case
  proof (cases y)
    case SubDir
    with Cons x show ?thesis by auto
  next
    case (Regular body)
    obtain r w1 where p: "post u net body w = (r, w1)" by (meson surj_pair)
    have "\<not> isHTTPRejection err" if "path_ext n \<noteq> ''.tmp''" "r = Inl err" for err
      using Cons.prems(2) [of n body w err w1] that x(1) Regular p by simp
    with Cons.prems(1) x Regular p consider t1 wd1 where "flush_loop u net e es t1 wd1 = (t', wd')" "fl_dropped t1 = fl_dropped t"
      | "fl_dropped t' = fl_dropped t"
      by (cases r) (auto simp: Let_def split: if_splits)
    then show ?thesis
    proof cases
      case 1
      have "fl_dropped t' = fl_dropped t1"
        by (rule Cons.IH [OF 1(1)], rule Cons.prems(2), rule list.set_intros(2))
      with 1(2) show ?thesis by simp
    qed simp
  qed
qed simp


section \<open>Batches as a list\<close>

definition windows :: "nat \<Rightarrow> nat \<Rightarrow> (nat \<times> nat) list" where
  "windows bs n = map (\<lambda>i. (i * bs, min (i * bs + bs) n)) [0..<(n + bs - 1) div bs]"

fun send_all :: "(nat \<Rightarrow> nat \<Rightarrow> 'w \<Rightarrow> (string + SendResult) \<times> 'w) \<Rightarrow> (nat \<times> nat) list \<Rightarrow> 'w \<Rightarrow> bool \<times> 'w" where
  "send_all send [] w = (True, w)"
| "send_all send ((a, b) # ws) w =
     (case send a b w of
        (Inl _, w') \<Rightarrow> (False, w')
      | (Inr _, w') \<Rightarrow> send_all send ws w')"

lemma window_count: "0 < bs \<Longrightarrow> i < (n + bs - 1) div bs \<longleftrightarrow> i * bs < (n::nat)"
proof -
  assume bs: "0 < bs"
  have "Suc i \<le> (n + bs - 1) div bs \<longleftrightarrow> Suc i * bs \<le> n + bs - 1"
    by (rule less_eq_div_iff_mult_less_eq [OF bs])
  with bs show ?thesis by auto
qed

lemma send_windows_list:
  assumes "0 < bs"
  shows "i \<le> (n + bs - 1) div bs \<Longrightarrow>
    send_windows send n bs (i * bs) w =
    send_all send (map (\<lambda>i. (i * bs, min (i * bs + bs) n)) [i..<(n + bs - 1) div bs]) w"
proof (induction "(n + bs - 1) div bs - i" arbitrary: i w)
  case 0
  then have "\<not> i * bs < n" using window_count [OF assms, of i n] by simp
  then have "send_windows send n bs (i * bs) w = (True, w)" by (subst send_windows.simps) simp
  with 0 show ?case by simp
next
  case (Suc d)
  then have "i < (n + bs - 1) div bs" by linarith
  then have i: "i < (n + bs - 1) div bs" "i * bs < n" using window_count [OF assms, of i n] by blast+
  have "send_windows send n bs (Suc i * bs) w' =
      send_all send (map (\<lambda>i. (i * bs, min (i * bs + bs) n)) [Suc i..<(n + bs - 1) div bs]) w'" for w'
    by (rule Suc.hyps(1)) (use Suc.hyps(2) i in auto)
  with i assms show ?case
    by (simp add: send_windows.simps [of send n bs "i * bs"] upt_conv_Cons add.commute split: prod.split sum.split)
qed

lemma windows_slices: "concat (map (\<lambda>i. slice xs (i * bs) (min (i * bs + bs) (length xs))) [0..<m]) = take (m * bs) xs"
proof (induction m)
  case (Suc m)
  have "slice xs (m * bs) (min (m * bs + bs) (length xs)) = take bs (drop (m * bs) xs)"
    by (simp add: slice_def min_def)
  with Suc show ?case by (simp add: take_add add.commute [of bs])
qed simp

text \<open>
  C26. Batches partition what is sent: a positive batch size cuts the records into consecutive
  nonempty windows of at most that size which joined give them back, and they are sent in order
  up to the first failure, which is the answer; a batch size below one panics as soon as there
  is a record, and never before.
\<close>

theorem batches_partition:
  "sendBatched (length xs) batch send w =
     (if xs = [] then (Some True, w)
      else if batch \<le> 0 then (None, w)
      else (Some (fst (send_all send (windows (nat batch) (length xs)) w)), snd (send_all send (windows (nat batch) (length xs)) w))) \<and>
   (0 < batch \<longrightarrow>
      concat (map (\<lambda>(a, b). slice xs a b) (windows (nat batch) (length xs))) = xs \<and>
      (\<forall>(a, b) \<in> set (windows (nat batch) (length xs)). a < b \<and> b \<le> a + nat batch \<and> b \<le> length xs))"
proof -
  have "concat (map (\<lambda>(a, b). slice xs a b) (windows bs (length xs))) = xs \<and>
      (\<forall>(a, b) \<in> set (windows bs (length xs)). a < b \<and> b \<le> a + bs \<and> b \<le> length xs)" if bs: "0 < bs" for bs
  proof -
    let ?k = "(length xs + bs - 1) div bs"
    have "\<not> ?k * bs < length xs" using window_count [OF bs, of ?k "length xs"] by simp
    then have "concat (map (\<lambda>(a, b). slice xs a b) (windows bs (length xs))) = xs"
      using windows_slices [of xs bs ?k] by (simp add: windows_def comp_def)
    with window_count [OF bs, of _ "length xs"] bs show ?thesis by (auto simp: windows_def)
  qed
  from this [of "nat batch"] show ?thesis
    using send_windows_list [of "nat batch" 0 "length xs" send w]
    by (auto simp: sendBatched_def windows_def split: prod.split)
qed

theorem batches_partition_witness:
  "windows 3 (length ''abcdefg'') = [(0, 3), (3, 6), (6, 7)] \<and>
   concat (map (\<lambda>(a, b). slice ''abcdefg'' a b) (windows 3 (length ''abcdefg''))) = ''abcdefg''"
proof -
  have "windows 3 (length ''abcdefg'') = [(0, 3), (3, 6), (6, 7)]" by code_simp
  moreover have "(0::int) < 3" by simp
  from batches_partition [of "''abcdefg''" 3, THEN conjunct2, THEN mp, OF this, THEN conjunct1]
  have "concat (map (\<lambda>(a, b). slice ''abcdefg'' a b) (windows 3 (length ''abcdefg''))) = ''abcdefg''"
    by (simp only: nat_numeral)
  ultimately show ?thesis by blast
qed

end
