(* ===== verification/System.thy ===== *)
theory System
  imports Api Run
begin

text \<open>
  Watcher and server together: the network between the uploader and the ingest handler, the
  handler as the durable endpoint the uploader relies on, and what that gives for a transcript
  from its lines to the server's tables, through crashes, outages and failed statements.
\<close>

section \<open>The network\<close>

text \<open>
  What happens to one request: it never arrives; it arrives cut off after some bytes; it is
  served and the answer arrives, or is lost. The server's environment for a request comes with it.
\<close>

datatype fault =
    Unreachable string
  | CutOff nat req_env string
  | Answered req_env
  | AnswerLost req_env string

record world =
  wd_server :: server_state
  wd_plan :: "nat \<Rightarrow> fault"

definition to_http :: "string \<Rightarrow> upload_req \<Rightarrow> http_request" where
  "to_http path q =
     \<lparr>rq_Method = ''POST'', rq_Path = path, rq_RawQuery = [],
      rq_Authorization = (case uq_Authorization q of None \<Rightarrow> [] | Some h \<Rightarrow> h),
      rq_Body = uq_Body q, rq_BodyClean = True\<rparr>"

text \<open>The bytes of an answer; what a page or a refused body says does not matter here.\<close>

definition enc_response :: "ingest_response \<Rightarrow> string" where
  "enc_response r = enc_object
     ([(''accepted'', itoa (ip_Accepted r)), (''duplicates'', itoa (ip_Duplicates r))] @
      unless_zero (ip_EditsAccepted r = 0) (''edits_accepted'', itoa (ip_EditsAccepted r)) @
      unless_zero (ip_EditsDuplicates r = 0) (''edits_duplicates'', itoa (ip_EditsDuplicates r))) @ [nl]"

definition body_bytes :: "resp_body \<Rightarrow> string" where
  "body_bytes b =
     (case b of
        IngestBody r \<Rightarrow> enc_response r
      | ErrorText s \<Rightarrow> s @ [nl]
      | _ \<Rightarrow> ''<html>'')"

text \<open>The faults come in the plan's order. The database's way with texts is that of the parameter.\<close>

definition deliver :: "pg \<Rightarrow> pricer \<Rightarrow> string \<Rightarrow> upload_req \<Rightarrow> world \<Rightarrow> exchange \<times> world" where
  "deliver p pricer path q w =
     (let serve_it = (\<lambda>e r. serve (e\<lparr>en_pg := p\<rparr>) pricer r (wd_server w));
          req = to_http path q; fs = (\<lambda>n. wd_plan w (Suc n))
      in case wd_plan w 0 of
           Unreachable m \<Rightarrow> (Transport m, w\<lparr>wd_plan := fs\<rparr>)
         | CutOff n e m \<Rightarrow>
             (Transport m, \<lparr>wd_server = snd (serve_it e (req\<lparr>rq_Body := take n (rq_Body req), rq_BodyClean := False\<rparr>)),
               wd_plan = fs\<rparr>)
         | AnswerLost e m \<Rightarrow> (Transport m, \<lparr>wd_server = snd (serve_it e req), wd_plan = fs\<rparr>)
         | Answered e \<Rightarrow>
             (case serve_it e req of
                (resp, st') \<Rightarrow>
                  (Reply (rs_Status resp) (body_bytes (rs_Body resp)) True, \<lparr>wd_server = st', wd_plan = fs\<rparr>)))"

section \<open>A batch on the server\<close>

definition row_of_usage :: "pg \<Rightarrow> server_state \<Rightarrow> usage_record \<Rightarrow> bool" where
  "row_of_usage p st x \<longleftrightarrow>
     (\<exists>y. usage_texts p x = Some y \<and>
        (ur_MessageID y \<noteq> [] \<longrightarrow> map_of (fst (sv_Usage st)) (ur_MessageID y, ur_RequestID y) \<noteq> None))"

definition row_of_edit :: "pg \<Rightarrow> server_state \<Rightarrow> edit_record \<Rightarrow> bool" where
  "row_of_edit p st x \<longleftrightarrow>
     (\<exists>y. edit_texts p x = Some y \<and>
        (er_EventID y \<noteq> [] \<longrightarrow> map_of (fst (sv_Edits st)) (er_EventID y) \<noteq> None))"

definition ingested :: "pg \<Rightarrow> string \<Rightarrow> world \<Rightarrow> bool" where
  "ingested p b w \<longleftrightarrow>
     (case decode_request (take max_body b) (length b \<le> max_body) of
        None \<Rightarrow> False
      | Some q \<Rightarrow> list_all (row_of_usage p (wd_server w)) (iq_Records q) \<and>
                  list_all (row_of_edit p (wd_server w)) (iq_Edits q))"

section \<open>Rows stay\<close>

lemma ingest_detail_mono:
  assumes "ingest_rows add fits proj rows tabs = Some (n, tabs')" "map_of (fst tabs) k \<noteq> None"
  shows "map_of (fst tabs') k \<noteq> None"
proof -
  obtain detail' ins where ins: "insert_new (fst tabs) rows = (detail', ins)" by force
  then have "fst tabs' = detail'"
    using assms(1) by (cases tabs) (auto simp: ingest_rows_def Let_def split: if_splits)
  with insert_new_append [OF ins] assms(2) show ?thesis by (auto simp: map_add_def split: option.splits)
qed

lemma Insert_mono:
  assumes "Insert p up m u recs tabs = (res, tabs')" "map_of (fst tabs) k \<noteq> None"
  shows "map_of (fst tabs') k \<noteq> None"
  using assms(1)
proof (cases rule: Insert_cases)
  case (stored rows n)
  from ingest_detail_mono [OF stored(4) assms(2)] show ?thesis .
qed (use assms(2) in simp_all)

lemma InsertEdits_mono:
  assumes "InsertEdits p up m u recs tabs = (res, tabs')" "map_of (fst tabs) k \<noteq> None"
  shows "map_of (fst tabs') k \<noteq> None"
  using assms(1)
proof (cases rule: InsertEdits_cases)
  case (stored rows n)
  from ingest_detail_mono [OF stored(4) assms(2)] show ?thesis .
qed (use assms(2) in simp_all)

lemma serve_mono:
  assumes "serve e pricer r st = (rs, st')"
  shows "(map_of (fst (sv_Usage st)) k \<noteq> None \<longrightarrow> map_of (fst (sv_Usage st')) k \<noteq> None) \<and>
    (map_of (fst (sv_Edits st)) l \<noteq> None \<longrightarrow> map_of (fst (sv_Edits st')) l \<noteq> None)"
proof (cases "rq_Path r = ''/ingest''")
  case True
  then have "handleIngest e r st = (rs, st')" using assms by (simp add: serve_def)
  then show ?thesis
  proof (cases rule: handleIngest_cases)
    case (processed u auth' q)
    from processed(4) show ?thesis
    proof (cases rule: store_request_cases)
      case (half n ut err et)
      from Insert_mono [OF half(4), of k] half(3) show ?thesis by simp
    next
      case (stored n ut m et)
      from Insert_mono [OF stored(4), of k] InsertEdits_mono [OF stored(5), of l] stored(3) show ?thesis by simp
    qed simp_all
  qed simp
next
  case False
  then have "st' = st" using assms by (auto simp: serve_def split: if_splits)
  then show ?thesis by simp
qed

lemma row_of_usage_mono: "serve e pricer r st = (rs, st') \<Longrightarrow> row_of_usage p st x \<Longrightarrow> row_of_usage p st' x"
  using serve_mono [THEN conjunct1] unfolding row_of_usage_def by blast

lemma row_of_edit_mono: "serve e pricer r st = (rs, st') \<Longrightarrow> row_of_edit p st x \<Longrightarrow> row_of_edit p st' x"
  using serve_mono [THEN conjunct2] unfolding row_of_edit_def by blast


section \<open>The handler is a durable endpoint\<close>

lemma Insert_rows:
  assumes "Insert p up m u recs tabs = (Inr n, tabs')" "r \<in> set recs"
  obtains y where "usage_texts p r = Some y"
    "ur_MessageID y \<noteq> [] \<longrightarrow> map_of (fst tabs') (ur_MessageID y, ur_RequestID y) \<noteq> None"
proof -
  obtain rs where "map_opt (usage_texts p) recs = Some rs"
    using assms(1) by (cases rule: Insert_cases) (use assms(2) in \<open>auto simp: usage_input_def split: option.splits\<close>)
  from map_opt_mem(1) [OF this assms(2)] obtain y where "usage_texts p r = Some y" by blast
  with Insert_durable [OF assms this] that show thesis by blast
qed

lemma InsertEdits_rows:
  assumes "InsertEdits p up m u recs tabs = (Inr n, tabs')" "r \<in> set recs"
  obtains y where "edit_texts p r = Some y" "er_EventID y \<noteq> [] \<longrightarrow> map_of (fst tabs') (er_EventID y) \<noteq> None"
proof -
  obtain rs where "map_opt (edit_texts p) recs = Some rs"
    using assms(1) by (cases rule: InsertEdits_cases) (use assms(2) in \<open>auto simp: edit_input_def split: option.splits\<close>)
  from map_opt_mem(1) [OF this assms(2)] obtain y where "edit_texts p r = Some y" by blast
  with InsertEdits_durable [OF assms this] that show thesis by blast
qed

lemma ingest_stores:
  assumes "handleIngest e r st = (rs, st')" "rs_Status rs div 100 = 2"
  obtains q where "body_of r = Some q" "iq_MachineID q \<noteq> []"
    "list_all (row_of_usage (en_pg e) st') (iq_Records q)" "list_all (row_of_edit (en_pg e) st') (iq_Edits q)"
  using assms(1)
proof (cases rule: handleIngest_cases)
  case refused
  with assms(2) show ?thesis by auto
next
  case (processed u auth' q)
  from processed(4) show ?thesis
  proof (cases rule: store_request_cases)
    case (stored n ut m et)
    have "row_of_usage (en_pg e) st' x" if "x \<in> set (iq_Records q)" for x
      by (rule Insert_rows [OF stored(4) that]) (use stored(3) in \<open>simp add: row_of_usage_def\<close>)
    moreover have "row_of_edit (en_pg e) st' x" if "x \<in> set (iq_Edits q)" for x
      by (rule InsertEdits_rows [OF stored(5) that]) (use stored(3) in \<open>simp add: row_of_edit_def\<close>)
    ultimately show ?thesis using processed(2) stored(1) that by (simp add: list_all_iff)
  qed (use assms(2) in auto)
qed

lemma ingested_mono:
  assumes "serve e pricer r (wd_server w) = (rs, st')" "wd_server w' = st'" "ingested p b w"
  shows "ingested p b w'"
  using assms row_of_usage_mono [OF assms(1)] row_of_edit_mono [OF assms(1)]
  by (auto simp: ingested_def list_all_iff split: option.splits)

lemma deliver_server:
  assumes "deliver p pricer path q w = (x, w')"
  shows "w' = w \<or> wd_server w' = wd_server w \<or>
    (\<exists>e r resp. serve (e\<lparr>en_pg := p\<rparr>) pricer r (wd_server w) = (resp, wd_server w'))"
  using assms unfolding deliver_def Let_def
  by (auto split: fault.splits prod.splits) (metis prod.collapse)+

lemma deliver_keeps: "ingested p b w \<Longrightarrow> ingested p b (snd (deliver p pricer path q w))"
proof -
  assume b: "ingested p b w"
  obtain x w' where d: "deliver p pricer path q w = (x, w')" by (meson surj_pair)
  from deliver_server [OF d] show "ingested p b (snd (deliver p pricer path q w))"
  proof (elim disjE exE)
    assume "wd_server w' = wd_server w"
    with b have "ingested p b w'" unfolding ingested_def by metis
    with d show ?thesis by simp
  next
    fix e r resp
    assume "serve (e\<lparr>en_pg := p\<rparr>) pricer r (wd_server w) = (resp, wd_server w')"
    from ingested_mono [OF this refl b] d show ?thesis by simp
  qed (use b d in simp)
qed

lemma deliver_reply:
  assumes "deliver p pricer path q w = (Reply status body clean, w')"
  obtains e resp where "wd_plan w 0 = Answered e"
    "serve (e\<lparr>en_pg := p\<rparr>) pricer (to_http path q) (wd_server w) = (resp, wd_server w')"
    "status = rs_Status resp" "body = body_bytes (rs_Body resp)"
  using assms by (auto simp: deliver_def Let_def split: fault.splits prod.splits)

interpretation ingest: durable_endpoint "deliver p pricer ''/ingest''" "ingested p" for p pricer
proof unfold_locales
  show "ingested p b w \<Longrightarrow> ingested p b (snd (deliver p pricer ''/ingest'' q w))" for b w q
    by (rule deliver_keeps)
  fix q w status body clean w'
  assume d: "deliver p pricer ''/ingest'' q w = (Reply status body clean, w')" and 2: "status div 100 = 2"
  from d obtain e resp where r: "serve (e\<lparr>en_pg := p\<rparr>) pricer (to_http ''/ingest'' q) (wd_server w) = (resp, wd_server w')"
    "status = rs_Status resp" by (rule deliver_reply)
  then have "handleIngest (e\<lparr>en_pg := p\<rparr>) (to_http ''/ingest'' q) (wd_server w) = (resp, wd_server w')"
    by (simp add: serve_def to_http_def)
  moreover have "rs_Status resp div 100 = 2" using 2 r(2) by simp
  ultimately obtain b where "body_of (to_http ''/ingest'' q) = Some b"
    "list_all (row_of_usage p (wd_server w')) (iq_Records b)" "list_all (row_of_edit p (wd_server w')) (iq_Edits b)"
    by (rule ingest_stores) simp
  then show "ingested p (uq_Body q) w'"
    by (simp add: ingested_def body_of_def to_http_def)
qed

end
