(* ===== verification/Service.thy ===== *)
theory Service
  imports Uploader Checkpoint
begin

text \<open>
  Installing and controlling the watcher as a service (\<open>cmd/watcher/cli\<close> but for \<open>run.go\<close>, and
  \<open>cmd/watcher/cli/svc\<close>). The host is what the code asks of the operating system; the service
  manager behind \<open>kardianos/service\<close> and the commands that are run are parameters acting on
  the files and on a state of their own. Output is kept as the texts printed.
\<close>

section \<open>The host\<close>

datatype os = Linux | Darwin | Windows

text \<open>What does not change during a command; \<open>ho_denied\<close> are the paths that cannot be changed.\<close>

record host =
  ho_os :: os
  ho_root :: bool
  ho_elevated :: bool
  ho_inPath :: "string \<Rightarrow> bool"
  ho_home :: "string option"
  ho_denied :: "string \<Rightarrow> bool"

datatype node = DirNode nat | FileNode nat string

record 'm machine =
  wo_files :: "string \<Rightarrow> node option"
  wo_mgr :: 'm
  wo_out :: "string list"

text \<open>A step ends with an error or without one.\<close>

type_synonym 'm step = "'m machine \<Rightarrow> string option \<times> 'm machine"

fun steps :: "'m step list \<Rightarrow> 'm step" where
  "steps [] w = (None, w)"
| "steps (f # fs) w =
     (case f w of
        (Some e, w') \<Rightarrow> (Some e, w')
      | (None, w') \<Rightarrow> steps fs w')"

definition fails :: "string \<Rightarrow> 'm step" where
  "fails e w = (Some e, w)"

definition ignoring :: "'m step \<Rightarrow> 'm step" where
  "ignoring f w = (None, snd (f w))"

definition wrap :: "string \<Rightarrow> 'm step \<Rightarrow> 'm step" where
  "wrap pre f w = (map_option (\<lambda>e. pre @ '': '' @ e) (fst (f w)), snd (f w))"

definition say :: "string \<Rightarrow> 'm step" where
  "say s w = (None, w\<lparr>wo_out := wo_out w @ [s]\<rparr>)"

definition put_node :: "string \<Rightarrow> node \<Rightarrow> 'm machine \<Rightarrow> 'm machine" where
  "put_node path n w = w\<lparr>wo_files := (wo_files w)(path := Some n)\<rparr>"

text \<open>Permission bits: \<open>0o600\<close>, \<open>0o644\<close>, \<open>0o700\<close>, \<open>0o755\<close>.\<close>

definition mode_600 :: nat where "mode_600 = 384"
definition mode_644 :: nat where "mode_644 = 420"
definition mode_700 :: nat where "mode_700 = 448"
definition mode_755 :: nat where "mode_755 = 493"

text \<open>
  The file operations. \<open>os.WriteFile\<close> sets the mode of a file it creates and keeps that of one
  that exists; a directory that exists is left as it is.
\<close>

definition mkdir_all :: "host \<Rightarrow> string \<Rightarrow> nat \<Rightarrow> 'm step" where
  "mkdir_all h path mode w =
     (case wo_files w path of
        Some (DirNode _) \<Rightarrow> (None, w)
      | Some (FileNode _ _) \<Rightarrow> (Some (''mkdir '' @ path), w)
      | None \<Rightarrow> if ho_denied h path then (Some (''mkdir '' @ path), w) else (None, put_node path (DirNode mode) w))"

definition write_file :: "host \<Rightarrow> string \<Rightarrow> string \<Rightarrow> nat \<Rightarrow> 'm step" where
  "write_file h path content mode w =
     (if ho_denied h path then (Some (''open '' @ path), w)
      else (case wo_files w path of
         Some (DirNode _) \<Rightarrow> (Some (''open '' @ path), w)
       | Some (FileNode m _) \<Rightarrow> (None, put_node path (FileNode m content) w)
       | None \<Rightarrow> (None, put_node path (FileNode mode content) w)))"

definition chmod_file :: "host \<Rightarrow> string \<Rightarrow> nat \<Rightarrow> 'm step" where
  "chmod_file h path mode w =
     (case wo_files w path of
        Some (FileNode _ c) \<Rightarrow>
          if ho_denied h path then (Some (''chmod '' @ path), w) else (None, put_node path (FileNode mode c) w)
      | Some (DirNode _) \<Rightarrow>
          if ho_denied h path then (Some (''chmod '' @ path), w) else (None, put_node path (DirNode mode) w)
      | None \<Rightarrow> (Some (''chmod '' @ path), w))"

definition remove_path :: "host \<Rightarrow> string \<Rightarrow> 'm step" where
  "remove_path h path w =
     (if wo_files w path = None \<or> ho_denied h path then (Some (''remove '' @ path), w)
      else (None, w\<lparr>wo_files := (wo_files w)(path := None)\<rparr>))"

definition remove_all :: "host \<Rightarrow> string \<Rightarrow> 'm step" where
  "remove_all h path w =
     (if ho_denied h path then (Some (''remove '' @ path), w)
      else (None, w\<lparr>wo_files := (\<lambda>p. if p = path \<or> has_prefix p (path @ [slash]) then None else wo_files w p)\<rparr>))"

definition path_join_all :: "string list \<Rightarrow> string" where
  "path_join_all es = (case filter (\<lambda>e. e \<noteq> []) es of [] \<Rightarrow> [] | es' \<Rightarrow> path_clean (join [slash] es'))"

section \<open>The service manager\<close>

record svc_config =
  sg_Name :: string
  sg_DisplayName :: string
  sg_Description :: string
  sg_Executable :: string
  sg_Arguments :: "string list"
  sg_EnvVars :: "(string \<times> string) list"
  sg_LogOutput :: bool
  sg_Restart :: string
  sg_RestartSec :: int
  sg_UserService :: bool
  sg_SystemdScript :: "string option"

datatype svc_status = StatusUnknown | StatusRunning | StatusStopped

text \<open>
  \<open>kardianos/service\<close> on a configuration, and running a command, whose error is that of its exit;
  what a command prints to the inherited streams is left out.
\<close>

record 'm manager =
  mg_new :: "svc_config \<Rightarrow> string option"
  mg_status :: "svc_config \<Rightarrow> 'm machine \<Rightarrow> svc_status \<times> string option"
  mg_stop :: "svc_config \<Rightarrow> 'm step"
  mg_start :: "svc_config \<Rightarrow> 'm step"
  mg_restart :: "svc_config \<Rightarrow> 'm step"
  mg_install :: "svc_config \<Rightarrow> 'm step"
  mg_uninstall :: "svc_config \<Rightarrow> 'm step"
  mg_run :: "string list \<Rightarrow> 'm step"
  mg_output :: "string list \<Rightarrow> 'm machine \<Rightarrow> string"

section \<open>Platforms\<close>

definition Name :: string where "Name = ''token-usage-watcher''"
definition DisplayName :: string where "DisplayName = ''Token usage watcher''"

definition Description :: string where
  "Description = ''Tail Claude Code / Codex transcripts and ship token usage.''"

definition goos :: "os \<Rightarrow> string" where
  "goos x = (case x of Linux \<Rightarrow> ''linux'' | Darwin \<Rightarrow> ''darwin'' | Windows \<Rightarrow> ''windows'')"

definition quoted :: "string \<Rightarrow> string" where
  "quoted s = CHR 0x22 # s @ [CHR 0x22]"

text \<open>Each platform has its own functions, chosen when the program is built.\<close>

definition SupervisorAvailable :: "host \<Rightarrow> bool" where
  "SupervisorAvailable h \<longleftrightarrow> ho_os h = Linux \<and> ho_inPath h ''supervisorctl''"

definition linux_DefaultBackends :: "host \<Rightarrow> string list" where
  "linux_DefaultBackends h =
     (if \<not> ho_root h then [''user'']
      else if SupervisorAvailable h then [''supervisor'', ''system'', ''user'']
      else [''system'', ''user''])"

definition darwin_DefaultBackends :: "host \<Rightarrow> string list" where
  "darwin_DefaultBackends h = (if ho_root h then [''system'', ''user''] else [''user''])"

definition windows_DefaultBackends :: "string list" where
  "windows_DefaultBackends = [''system'']"

definition DefaultBackends :: "host \<Rightarrow> string list" where
  "DefaultBackends h =
     (case ho_os h of
        Linux \<Rightarrow> linux_DefaultBackends h
      | Darwin \<Rightarrow> darwin_DefaultBackends h
      | Windows \<Rightarrow> windows_DefaultBackends)"

definition linux_PlatformPreInstall :: "host \<Rightarrow> string \<Rightarrow> string option" where
  "linux_PlatformPreInstall h backend =
     (if backend = ''system'' \<and> \<not> ho_root h then
        Some ''--backend system writes to /etc/systemd/system/, which needs root; re-run with sudo''
      else if backend = ''user'' \<and> \<not> ho_inPath h ''systemctl'' then Some ''systemctl not found in $PATH''
      else None)"

definition darwin_PlatformPreInstall :: "host \<Rightarrow> string \<Rightarrow> string option" where
  "darwin_PlatformPreInstall h backend =
     (if \<not> ho_inPath h ''launchctl'' then
        Some ''launchctl not found in $PATH; install Xcode Command Line Tools''
      else if backend = ''system'' \<and> \<not> ho_root h then
        Some ''--backend system writes /Library/LaunchDaemons/, which needs root; re-run with sudo''
      else None)"

definition windows_PlatformPreInstall :: "host \<Rightarrow> string \<Rightarrow> string option" where
  "windows_PlatformPreInstall h backend =
     (if backend \<noteq> ''system'' then None
      else if \<not> ho_elevated h then
        Some (''--backend system writes to the Service Control Manager and needs an elevated ('' @
          quoted ''Run as administrator'' @ '') shell'')
      else None)"

definition PlatformPreInstall :: "host \<Rightarrow> string \<Rightarrow> string option" where
  "PlatformPreInstall h backend =
     (case ho_os h of
        Linux \<Rightarrow> linux_PlatformPreInstall h backend
      | Darwin \<Rightarrow> darwin_PlatformPreInstall h backend
      | Windows \<Rightarrow> windows_PlatformPreInstall h backend)"

definition pickSupervisorConfDir :: "'m machine \<Rightarrow> string" where
  "pickSupervisorConfDir w =
     (if wo_files w ''/etc/supervisord.d'' \<noteq> None then ''/etc/supervisord.d'' else ''/etc/supervisor/conf.d'')"

definition SupervisorInstalled :: "host \<Rightarrow> 'm machine \<Rightarrow> bool" where
  "SupervisorInstalled h w \<longleftrightarrow>
     ho_os h = Linux \<and> wo_files w (path_join_all [pickSupervisorConfDir w, Name @ ''.conf'']) \<noteq> None"

text \<open>\<open>home, _ := os.UserHomeDir()\<close>.\<close>

definition home_or_empty :: "host \<Rightarrow> string" where
  "home_or_empty h = (case ho_home h of Some d \<Rightarrow> d | None \<Rightarrow> [])"

definition linux_PlatformInstallHint :: "host \<Rightarrow> 'm machine \<Rightarrow> string \<Rightarrow> string" where
  "linux_PlatformInstallHint h w backend =
     (if backend = ''user'' then ''unit: '' @ home_or_empty h @ ''/.config/systemd/user/'' @ Name @ ''.service''
      else if backend = ''system'' then ''unit: /etc/systemd/system/'' @ Name @ ''.service''
      else if backend = ''supervisor'' then ''program: '' @ pickSupervisorConfDir w @ ''/'' @ Name @ ''.conf''
      else [])"

definition darwin_PlatformInstallHint :: "host \<Rightarrow> string \<Rightarrow> string" where
  "darwin_PlatformInstallHint h backend =
     (if backend = ''user'' then
        ''plist: '' @ path_join_all [home_or_empty h, ''Library'', ''LaunchAgents'', Name @ ''.plist'']
      else if backend = ''system'' then ''plist: /Library/LaunchDaemons/'' @ Name @ ''.plist''
      else [])"

definition windows_PlatformInstallHint :: "string \<Rightarrow> string" where
  "windows_PlatformInstallHint backend =
     (if backend = ''system'' then
        ''registered in the SCM; manage via `sc.exe query '' @ Name @ ''` or services.msc''
      else [])"

definition PlatformInstallHint :: "host \<Rightarrow> 'm machine \<Rightarrow> string \<Rightarrow> string" where
  "PlatformInstallHint h w backend =
     (case ho_os h of
        Linux \<Rightarrow> linux_PlatformInstallHint h w backend
      | Darwin \<Rightarrow> darwin_PlatformInstallHint h backend
      | Windows \<Rightarrow> windows_PlatformInstallHint backend)"

text \<open>The unit that carries the API key is made private on Linux only.\<close>

definition user_unit :: "string \<Rightarrow> string" where
  "user_unit home = path_join_all [home, ''.config'', ''systemd'', ''user'', Name @ ''.service'']"

definition system_unit :: string where
  "system_unit = ''/etc/systemd/system/'' @ Name @ ''.service''"

definition SecureUnitFile :: "host \<Rightarrow> string \<Rightarrow> 'm step" where
  "SecureUnitFile h backend =
     (if ho_os h \<noteq> Linux then steps []
      else if backend = ''user'' then
        (case ho_home h of None \<Rightarrow> fails ''$HOME is not defined'' | Some home \<Rightarrow> chmod_file h (user_unit home) mode_600)
      else if backend = ''system'' then chmod_file h system_unit mode_600
      else steps [])"

text \<open>The command that shows the logs, or the error that there is none.\<close>

definition journalctl :: "bool \<Rightarrow> string list \<Rightarrow> string list" where
  "journalctl follow head =
     ''journalctl'' # head @ [''--no-pager''] @ (if follow then [''-f''] else [''-n'', ''200''])"

definition linux_ShowLogs :: "'m manager \<Rightarrow> string \<Rightarrow> bool \<Rightarrow> 'm step" where
  "linux_ShowLogs mg backend follow =
     (if backend = ''user'' then mg_run mg (journalctl follow [''--user'', ''-u'', Name])
      else if backend = ''system'' then mg_run mg (journalctl follow [''-u'', Name])
      else if backend = ''supervisor'' then
        mg_run mg ([''tail'', ''-n'', ''200''] @ (if follow then [''-f''] else []) @
          [''/var/log/'' @ Name @ ''.out.log'', ''/var/log/'' @ Name @ ''.err.log''])
      else fails (''backend '' @ quoted backend @ '' has no log source on linux''))"

definition darwin_ShowLogs :: "'m manager \<Rightarrow> bool \<Rightarrow> 'm step" where
  "darwin_ShowLogs mg follow =
     (let pred = ''process == '' @ quoted Name in
      if follow then mg_run mg [''log'', ''stream'', ''--predicate'', pred]
      else mg_run mg [''log'', ''show'', ''--predicate'', pred, ''--last'', ''1h'', ''--style'', ''compact''])"

definition windows_ShowLogs :: "'m manager \<Rightarrow> bool \<Rightarrow> 'm step" where
  "windows_ShowLogs mg follow =
     (if follow then
        fails (''-f isn'' @ [CHR 0x27] @ ''t supported on Windows event logs; use Event Viewer'' @ [CHR 0x27] @
          ''s live view (filter by Source = '' @ Name @ '')'')
      else mg_run mg [''powershell.exe'', ''-NoProfile'', ''-Command'',
        ''Get-WinEvent -LogName Application -MaxEvents 200 '' @
        ''-FilterXPath '' @ quoted (''*[System[Provider[@Name='' @ [CHR 0x27] @ Name @ [CHR 0x27] @ '']]]'') @
        '' -ErrorAction SilentlyContinue | Format-Table TimeCreated, LevelDisplayName, Message -AutoSize -Wrap''])"

definition ShowLogs :: "host \<Rightarrow> 'm manager \<Rightarrow> string \<Rightarrow> bool \<Rightarrow> 'm step" where
  "ShowLogs h mg backend follow =
     (case ho_os h of
        Linux \<Rightarrow> linux_ShowLogs mg backend follow
      | Darwin \<Rightarrow> darwin_ShowLogs mg follow
      | Windows \<Rightarrow> windows_ShowLogs mg follow)"

section \<open>The supervisord backend\<close>

definition arrow :: string where "arrow = [CHR 0xE2, CHR 0x86, CHR 0x92, CHR '' '']"
definition emdash :: string where "emdash = [CHR 0xE2, CHR 0x80, CHR 0x94]"

definition supervisor_only :: "host \<Rightarrow> 'm step \<Rightarrow> 'm step" where
  "supervisor_only h f =
     (if ho_os h = Linux then f
      else fails (''--backend supervisor is only available on Linux (current OS: '' @ goos (ho_os h) @ '')''))"

definition needs_ctl :: "host \<Rightarrow> string \<Rightarrow> 'm step \<Rightarrow> 'm step" where
  "needs_ctl h hint f =
     (if ho_inPath h ''supervisorctl'' then f else fails (''supervisorctl not found in $PATH'' @ hint))"

text \<open>Its environment file, sourced by a shell, and its program file.\<close>

definition env_content :: "string \<Rightarrow> string \<Rightarrow> string" where
  "env_content apiKey endpoint =
     ''TOKENUSAGE_API_KEY='' @ apiKey @ nl # ''TOKENUSAGE_ENDPOINT='' @ endpoint @ nl # ''HOME=/root'' @ [nl]"

definition conf_content :: "string \<Rightarrow> string list \<Rightarrow> string" where
  "conf_content binPath extra =
     (let execLine = binPath @ '' run'' @ (if extra \<noteq> [] then '' '' @ join '' '' extra else []) in
      concat (map (\<lambda>l. l @ [nl])
        [''[program:'' @ Name @ '']'',
         ''command=/bin/bash -c '' @ [CHR 0x27] @ ''set -a; . /etc/token-usage-watcher/env; set +a; exec '' @ execLine @ [CHR 0x27],
         ''autostart=true'', ''autorestart=true'', ''startsecs=1'', ''startretries=10'',
         ''stopsignal=TERM'', ''stopwaitsecs=10'', ''user=root'',
         ''stdout_logfile=/var/log/'' @ Name @ ''.out.log'',
         ''stderr_logfile=/var/log/'' @ Name @ ''.err.log'',
         ''stdout_logfile_maxbytes=10MB'', ''stderr_logfile_maxbytes=10MB'',
         ''stdout_logfile_backups=3'', ''stderr_logfile_backups=3'']))"

text \<open>
  \<open>copySelf\<close>: a temporary file next to the target, renamed into place; the temporary is
  removed when anything fails, so nothing or the whole copy is seen.
\<close>

definition copySelf :: "host \<Rightarrow> string \<Rightarrow> string \<Rightarrow> 'm step" where
  "copySelf h src dst w =
     (case wo_files w src of
        Some (FileNode _ c) \<Rightarrow>
          if ho_denied h dst \<or> (case wo_files w dst of Some (DirNode _) \<Rightarrow> True | _ \<Rightarrow> False) then (Some (''rename '' @ dst), w)
          else (None, put_node dst (FileNode mode_755 c) w)
      | _ \<Rightarrow> (Some (''open '' @ src), w))"

definition StatusSupervisor :: "host \<Rightarrow> 'm manager \<Rightarrow> 'm step" where
  "StatusSupervisor h mg w =
     (if ho_os h = Linux then say (''  '' @ mg_output mg [''supervisorctl'', ''status'', Name] w) w
      else say (''  '' @ Name @ '': (--backend supervisor not available on '' @ goos (ho_os h) @ '')'') w)"

definition env_path :: string where "env_path = ''/etc/token-usage-watcher/env''"

definition InstallSupervisor :: "host \<Rightarrow> 'm manager \<Rightarrow> string \<Rightarrow> string \<Rightarrow> string \<Rightarrow> string list \<Rightarrow> 'm step" where
  "InstallSupervisor h mg self apiKey endpoint extra = supervisor_only h (\<lambda>w.
     (if \<not> ho_root h then fails ''--backend supervisor needs root; re-run with sudo'' w
      else needs_ctl h '' (apt-get install supervisor)'' (\<lambda>w.
        (let confDir = pickSupervisorConfDir w;
             binPath = path_join_all [''/usr/local/bin'', Name];
             confPath = path_join_all [confDir, Name @ ''.conf'']
         in steps
           [mkdir_all h ''/usr/local/bin'' mode_755,
            wrap ''copy binary'' (copySelf h self binPath),
            mkdir_all h ''/etc/token-usage-watcher'' mode_700,
            write_file h env_path (env_content apiKey endpoint) mode_600,
            mkdir_all h confDir mode_755,
            write_file h confPath (conf_content binPath extra) mode_644,
            mg_run mg [''supervisorctl'', ''reread''],
            mg_run mg [''supervisorctl'', ''update''],
            wrap ''supervisorctl restart'' (mg_run mg [''supervisorctl'', ''restart'', Name]),
            say (arrow @ ''installed supervisor program '' @ confPath),
            StatusSupervisor h mg] w)) w))"

definition UninstallSupervisor :: "host \<Rightarrow> 'm manager \<Rightarrow> 'm step" where
  "UninstallSupervisor h mg = supervisor_only h (\<lambda>w.
     (let confPath = path_join_all [pickSupervisorConfDir w, Name @ ''.conf''] in
      steps
        [ignoring (mg_run mg [''supervisorctl'', ''stop'', Name]),
         ignoring (mg_run mg [''supervisorctl'', ''remove'', Name]),
         ignoring (remove_path h confPath),
         ignoring (mg_run mg [''supervisorctl'', ''reread'']),
         ignoring (mg_run mg [''supervisorctl'', ''update'']),
         ignoring (remove_path h (''/usr/local/bin/'' @ Name)),
         ignoring (remove_all h ''/etc/token-usage-watcher''),
         say (arrow @ ''uninstalled supervisor program '' @ confPath)] w))"

definition StopSupervisor :: "host \<Rightarrow> 'm manager \<Rightarrow> 'm step" where
  "StopSupervisor h mg = supervisor_only h (needs_ctl h []
     (wrap ''supervisorctl stop'' (mg_run mg [''supervisorctl'', ''stop'', Name])))"

definition StartSupervisor :: "host \<Rightarrow> 'm manager \<Rightarrow> 'm step" where
  "StartSupervisor h mg = supervisor_only h (needs_ctl h []
     (wrap ''supervisorctl start'' (mg_run mg [''supervisorctl'', ''start'', Name])))"

definition RestartSupervisor :: "host \<Rightarrow> 'm manager \<Rightarrow> 'm step" where
  "RestartSupervisor h mg = supervisor_only h (needs_ctl h [] (steps
     [wrap ''supervisorctl restart'' (mg_run mg [''supervisorctl'', ''restart'', Name]),
      say (arrow @ ''restarted supervisor program '' @ Name),
      StatusSupervisor h mg]))"

section \<open>The other backends\<close>

definition SupervisorFlagHelp :: "host \<Rightarrow> string" where
  "SupervisorFlagHelp h = (if SupervisorAvailable h then '' | supervisor'' else [])"

text \<open>The unit template of a user service; the service manager fills it in.\<close>

definition userSystemdScript :: string where
  "userSystemdScript = concat (map (\<lambda>l. l @ [nl])
    [''[Unit]'',
     ''Description={{.Description}}'',
     ''ConditionFileIsExecutable={{.Path|cmdEscape}}'',
     ''{{range $i, $dep := .Dependencies}} '',
     ''{{$dep}} {{end}}'',
     [],
     ''[Service]'',
     ''StartLimitInterval=5'',
     ''StartLimitBurst=10'',
     ''ExecStart={{.Path|cmdEscape}}{{range .Arguments}} {{.|cmd}}{{end}}'',
     ''{{if .WorkingDirectory}}WorkingDirectory={{.WorkingDirectory|cmdEscape}}{{end}}'',
     ''{{if .ReloadSignal}}ExecReload=/bin/kill -{{.ReloadSignal}} '' @ [CHR 0x22] @ ''$MAINPID'' @ [CHR 0x22] @ ''{{end}}'',
     ''{{if .PIDFile}}PIDFile={{.PIDFile|cmd}}{{end}}'',
     ''{{if gt .LimitNOFILE -1 }}LimitNOFILE={{.LimitNOFILE}}{{end}}'',
     ''{{if .Restart}}Restart={{.Restart}}{{end}}'',
     ''{{if .SuccessExitStatus}}SuccessExitStatus={{.SuccessExitStatus}}{{end}}'',
     ''RestartSec=10'',
     [],
     ''{{range $k, $v := .EnvVars -}}'',
     ''Environment={{$k}}={{$v}}'',
     ''{{end -}}'',
     [],
     ''[Install]'',
     ''WantedBy=default.target''])"

text \<open>On Linux a user service gets the user-scoped unit template and no log file.\<close>

definition Config :: "host \<Rightarrow> string \<Rightarrow> string \<Rightarrow> string \<Rightarrow> string \<Rightarrow> string list \<Rightarrow> string + svc_config" where
  "Config h backend self apiKey endpoint extra =
     (let cfg = \<lparr>sg_Name = Name, sg_DisplayName = DisplayName, sg_Description = Description,
                 sg_Executable = self, sg_Arguments = ''run'' # extra,
                 sg_EnvVars = [(''TOKENUSAGE_API_KEY'', apiKey), (''TOKENUSAGE_ENDPOINT'', endpoint)],
                 sg_LogOutput = True, sg_Restart = ''on-failure'', sg_RestartSec = 10, sg_UserService = False,
                 sg_SystemdScript = None\<rparr>
      in if backend = ''user'' then
           (if ho_os h = Windows then
              Inl ''user backend isn't supported on Windows; use --backend system (needs admin)''
            else Inr (cfg\<lparr>sg_UserService := True, sg_LogOutput := (ho_os h \<noteq> Linux),
                   sg_SystemdScript := (if ho_os h = Linux then Some userSystemdScript else None)\<rparr>))
         else if backend = ''system'' then Inr cfg
         else Inl (''invalid backend '' @ quoted backend @ '' (use user | system'' @ SupervisorFlagHelp h @ '')''))"

definition StatusName :: "svc_status \<Rightarrow> string" where
  "StatusName s = (case s of StatusRunning \<Rightarrow> ''running'' | StatusStopped \<Rightarrow> ''stopped'' | StatusUnknown \<Rightarrow> ''unknown'')"

text \<open>A command on a service that is built from its configuration.\<close>

definition with_service :: "host \<Rightarrow> 'm manager \<Rightarrow> string \<Rightarrow> string \<Rightarrow> string \<Rightarrow> string \<Rightarrow> string list \<Rightarrow> (svc_config \<Rightarrow> 'm step) \<Rightarrow> 'm step" where
  "with_service h mg backend self apiKey endpoint extra f =
     (case Config h backend self apiKey endpoint extra of
        Inl e \<Rightarrow> fails e
      | Inr cfg \<Rightarrow> (case mg_new mg cfg of Some e \<Rightarrow> fails (''service: '' @ e) | None \<Rightarrow> f cfg))"

definition say_status :: "'m manager \<Rightarrow> svc_config \<Rightarrow> string \<Rightarrow> string \<Rightarrow> 'm step" where
  "say_status mg cfg pre backend w =
     say (pre @ Name @ '' (backend='' @ backend @ '', status='' @ StatusName (fst (mg_status mg cfg w)) @ '')'') w"

definition IsInstalled :: "host \<Rightarrow> 'm manager \<Rightarrow> string \<Rightarrow> string \<Rightarrow> 'm machine \<Rightarrow> bool" where
  "IsInstalled h mg backend self w \<longleftrightarrow>
     (if backend = ''supervisor'' then SupervisorInstalled h w
      else (case Config h backend self ''x'' ''x'' [] of
         Inl _ \<Rightarrow> False
       | Inr cfg \<Rightarrow> mg_new mg cfg = None \<and> snd (mg_status mg cfg w) = None))"

definition installOne :: "host \<Rightarrow> 'm manager \<Rightarrow> string \<Rightarrow> string \<Rightarrow> string \<Rightarrow> string \<Rightarrow> string list \<Rightarrow> 'm step" where
  "installOne h mg backend self apiKey endpoint extra =
     (if backend = ''supervisor'' then InstallSupervisor h mg self apiKey endpoint extra
      else with_service h mg backend self apiKey endpoint extra (\<lambda>cfg. steps
        [ignoring (mg_stop mg cfg),
         ignoring (mg_uninstall mg cfg),
         wrap ''install'' (mg_install mg cfg),
         wrap ''secure unit file'' (SecureUnitFile h backend),
         wrap ''start'' (mg_start mg cfg),
         say_status mg cfg (arrow @ ''installed and started '') backend,
         (\<lambda>w. if PlatformInstallHint h w backend \<noteq> [] then say (''  '' @ PlatformInstallHint h w backend) w else (None, w))]))"

definition restartOne :: "host \<Rightarrow> 'm manager \<Rightarrow> string \<Rightarrow> string \<Rightarrow> 'm step" where
  "restartOne h mg self backend =
     (if backend = ''supervisor'' then RestartSupervisor h mg
      else with_service h mg backend self ''x'' ''x'' [] (\<lambda>cfg. steps
        [wrap ''restart'' (mg_restart mg cfg), say_status mg cfg ''  restarted '' backend]))"

definition startOne :: "host \<Rightarrow> 'm manager \<Rightarrow> string \<Rightarrow> string \<Rightarrow> 'm step" where
  "startOne h mg self backend =
     (if backend = ''supervisor'' then StartSupervisor h mg
      else with_service h mg backend self ''x'' ''x'' [] (\<lambda>cfg. steps
        [wrap ''start'' (mg_start mg cfg), say_status mg cfg ''  started '' backend]))"

definition stopOne :: "host \<Rightarrow> 'm manager \<Rightarrow> string \<Rightarrow> string \<Rightarrow> 'm step" where
  "stopOne h mg self backend =
     (if backend = ''supervisor'' then StopSupervisor h mg
      else with_service h mg backend self ''x'' ''x'' [] (\<lambda>cfg. steps
        [wrap ''stop'' (mg_stop mg cfg), say (''  stopped '' @ Name @ '' (backend='' @ backend @ '')'')]))"

definition uninstallOne :: "host \<Rightarrow> 'm manager \<Rightarrow> string \<Rightarrow> string \<Rightarrow> 'm step" where
  "uninstallOne h mg self backend =
     (if backend = ''supervisor'' then UninstallSupervisor h mg
      else with_service h mg backend self ''x'' ''x'' [] (\<lambda>cfg. steps
        [ignoring (mg_stop mg cfg), wrap ''uninstall'' (mg_uninstall mg cfg),
         say (''  uninstalled '' @ Name @ '' (backend='' @ backend @ '')'')]))"

section \<open>Commands\<close>

text \<open>\<open>install\<close>: the candidates in order, up to the first that can be installed.\<close>

fun try_backends :: "host \<Rightarrow> 'm manager \<Rightarrow> string \<Rightarrow> string \<Rightarrow> string \<Rightarrow> string list \<Rightarrow> string list \<Rightarrow> string list \<Rightarrow> 'm step" where
  "try_backends h mg self apiKey endpoint extra [] skipped w =
     (Some (''no backend usable on '' @ goos (ho_os h) @ '' '' @ emdash @ '' tried: '' @
        join ''; '' skipped), w)"
| "try_backends h mg self apiKey endpoint extra (b # bs) skipped w =
     (let w0 = snd (say (arrow @ ''trying backend='' @ b) w) in
      case PlatformPreInstall h b of
        Some e \<Rightarrow> try_backends h mg self apiKey endpoint extra bs (skipped @ [b @ '' ('' @ e @ '')''])
                    (snd (say (''  not viable: '' @ e) w0))
      | None \<Rightarrow>
          (case installOne h mg b self apiKey endpoint extra w0 of
             (Some e, w1) \<Rightarrow> try_backends h mg self apiKey endpoint extra bs (skipped @ [b @ '' ('' @ e @ '')''])
                               (snd (say (''  install failed: '' @ e) w1))
           | (None, w1) \<Rightarrow> (None, w1)))"

definition doInstall :: "host \<Rightarrow> 'm manager \<Rightarrow> string option \<Rightarrow> string \<Rightarrow> string \<Rightarrow> string list \<Rightarrow> 'm step" where
  "doInstall h mg exe apiKey endpoint extra =
     (if apiKey = [] then fails ''--api-key (or $TOKENUSAGE_API_KEY) is required''
      else if endpoint = [] then fails ''--endpoint (or $TOKENUSAGE_ENDPOINT) is required''
      else (case exe of
         None \<Rightarrow> fails ''locate self''
       | Some self \<Rightarrow> try_backends h mg self apiKey endpoint extra (DefaultBackends h) []))"

text \<open>
  The loop that \<open>start\<close>, \<open>stop\<close>, \<open>restart\<close> and \<open>uninstall\<close> share: every installed candidate,
  with the number that succeeded. \<open>os.Executable\<close> failing leaves an empty path.
\<close>

fun each_installed :: "('m machine \<Rightarrow> string \<Rightarrow> bool) \<Rightarrow> string \<Rightarrow> (string \<Rightarrow> 'm step) \<Rightarrow> string list \<Rightarrow> 'm machine \<Rightarrow> nat \<times> 'm machine" where
  "each_installed inst doing one [] w = (0, w)"
| "each_installed inst doing one (b # bs) w =
     (if \<not> inst w b then
        each_installed inst doing one bs (snd (say (arrow @ ''backend='' @ b @ '': not installed; skipping'') w))
      else (case one b (snd (say (arrow @ doing @ '' backend='' @ b) w)) of
         (Some e, w') \<Rightarrow> each_installed inst doing one bs (snd (say (''  failed: '' @ e) w'))
       | (None, w') \<Rightarrow> (case each_installed inst doing one bs w' of (n, w'') \<Rightarrow> (Suc n, w''))))"

definition control :: "host \<Rightarrow> 'm manager \<Rightarrow> string \<Rightarrow> string \<Rightarrow> string \<Rightarrow> (string \<Rightarrow> 'm step) \<Rightarrow> 'm step" where
  "control h mg self doing verb one w =
     (case each_installed (\<lambda>w b. IsInstalled h mg b self w) doing one (DefaultBackends h) w of
        (n, w') \<Rightarrow>
          (if n = 0 then Some (''nothing to '' @ verb @ '' '' @ emdash @
             '' no candidate backend has a unit on disk'') else None, w'))"

definition doRestart :: "host \<Rightarrow> 'm manager \<Rightarrow> string \<Rightarrow> 'm step" where
  "doRestart h mg self = control h mg self ''restarting'' ''restart'' (restartOne h mg self)"

definition doStart :: "host \<Rightarrow> 'm manager \<Rightarrow> string \<Rightarrow> 'm step" where
  "doStart h mg self = control h mg self ''starting'' ''start'' (startOne h mg self)"

definition doStop :: "host \<Rightarrow> 'm manager \<Rightarrow> string \<Rightarrow> 'm step" where
  "doStop h mg self = control h mg self ''stopping'' ''stop'' (stopOne h mg self)"

definition doUninstall :: "host \<Rightarrow> 'm manager \<Rightarrow> string \<Rightarrow> 'm step" where
  "doUninstall h mg self = control h mg self ''uninstalling'' ''uninstall'' (uninstallOne h mg self)"

definition rule3 :: string where
  "rule3 = concat (replicate 3 [CHR 0xE2, CHR 0x94, CHR 0x80])"

definition statusOne :: "host \<Rightarrow> 'm manager \<Rightarrow> string \<Rightarrow> string \<Rightarrow> 'm step" where
  "statusOne h mg self backend w =
     (if backend = ''supervisor'' then ignoring (StatusSupervisor h mg) w
      else (case Config h backend self ''x'' ''x'' [] of
         Inl e \<Rightarrow> say (''  '' @ Name @ '': '' @ e) w
       | Inr cfg \<Rightarrow>
           (case mg_new mg cfg of
              Some e \<Rightarrow> say (''  '' @ Name @ '': '' @ e) w
            | None \<Rightarrow>
                (case mg_status mg cfg w of
                   (_, Some e) \<Rightarrow> say (''  '' @ Name @ '': '' @ e) w
                 | (st, None) \<Rightarrow> say (''  '' @ Name @ '': '' @ StatusName st) w))))"

definition doStatus :: "host \<Rightarrow> 'm manager \<Rightarrow> string \<Rightarrow> 'm step" where
  "doStatus h mg self = steps (concat (map (\<lambda>b.
     [say (rule3 @ '' backend='' @ b @ '' '' @ rule3), statusOne h mg self b, say []]) (DefaultBackends h)))"

text \<open>\<open>logs\<close>: following never returns but for an error or an interrupt, so only one backend is followed.\<close>

fun show_logs :: "host \<Rightarrow> 'm manager \<Rightarrow> string \<Rightarrow> bool \<Rightarrow> string list \<Rightarrow> nat \<Rightarrow> 'm step" where
  "show_logs h mg self follow [] shown w =
     (if shown = 0 then Some (''nothing to show '' @ emdash @
        '' no candidate backend has a unit on disk'') else None, w)"
| "show_logs h mg self follow (b # bs) shown w =
     (if \<not> IsInstalled h mg b self w then show_logs h mg self follow bs shown w
      else (case ShowLogs h mg b follow (snd (say (rule3 @ '' backend='' @ b @ '' '' @ rule3) w)) of
         (Some e, w') \<Rightarrow> show_logs h mg self follow bs shown (snd (say (''  failed: '' @ e) w'))
       | (None, w') \<Rightarrow> if follow then (None, w') else show_logs h mg self follow bs (Suc shown) w'))"

definition doLogs :: "host \<Rightarrow> 'm manager \<Rightarrow> string \<Rightarrow> bool \<Rightarrow> 'm step" where
  "doLogs h mg self follow = show_logs h mg self follow (DefaultBackends h) 0"

section \<open>Cleaning up\<close>

text \<open>
  The watcher's state directory: the buffer, where it exists, and the checkpoint. What is
  cleaned is the directory of that name, which is the watcher's own where it runs with the same
  home.
\<close>

record state_files =
  sf_buffer :: "dir option"
  sf_ckpt :: ckpt_disk

text \<open>What cleaning meets: the listing, the removal of each file, the removal of the checkpoint.\<close>

record cleanup_env =
  cn_list :: bool
  cn_remove :: "string \<Rightarrow> bool"
  cn_ckpt :: bool

definition clean_entry :: "cleanup_env \<Rightarrow> string \<times> dir_entry \<Rightarrow> bool" where
  "clean_entry e = (\<lambda>(n, x). x \<noteq> SubDir \<and> cn_remove e n)"

definition cleanDirContents :: "cleanup_env \<Rightarrow> dir option \<Rightarrow> (string + nat) \<times> dir option" where
  "cleanDirContents e buf =
     (case buf of
        None \<Rightarrow> (Inr 0, None)
      | Some d \<Rightarrow>
          if \<not> cn_list e then (Inl ''open buffer'', buf)
          else (Inr (length (filter (clean_entry e) d)), Some (filter (\<lambda>x. \<not> clean_entry e x) d)))"

definition remove_checkpoint :: "cleanup_env \<Rightarrow> string \<Rightarrow> ckpt_disk \<Rightarrow> string \<times> ckpt_disk" where
  "remove_checkpoint e ckpt dk =
     (case dk_file dk of
        None \<Rightarrow> (arrow @ ckpt @ '' already absent'', dk)
      | Some _ \<Rightarrow>
          if cn_ckpt e then
            (arrow @ ''removed '' @ ckpt @ '' '' @ emdash @ '' next scan will re-read every source file from the start'',
             dk\<lparr>dk_file := None\<rparr>)
          else (arrow @ ''checkpoint cleanup: remove '' @ ckpt, dk))"

definition cleanup_dir :: "host \<Rightarrow> string \<Rightarrow> string" where
  "cleanup_dir h override =
     (if override = [] then path_join_all [home_or_empty h, ''.token-usage-watcher''] else override)"

definition report_failure :: "string \<Rightarrow> 'm step \<Rightarrow> 'm step" where
  "report_failure suf f w =
     (case f w of (Some e, w') \<Rightarrow> say (''  failed: '' @ e @ suf) w' | (None, w') \<Rightarrow> (None, w'))"

definition doCleanup ::
    "host \<Rightarrow> 'm manager \<Rightarrow> string \<Rightarrow> bool \<Rightarrow> string \<Rightarrow> cleanup_env \<Rightarrow> 'm machine \<times> state_files \<Rightarrow> 'm machine \<times> state_files" where
  "doCleanup h mg self withCheckpoint override e = (\<lambda>(w, s).
     (let installed = filter (\<lambda>b. IsInstalled h mg b self w) (DefaultBackends h);
          w1 = snd (steps ((if installed = [] then [say (arrow @ ''no service installed; cleaning state files only'')] else []) @
            concat (map (\<lambda>b. [say (arrow @ ''stopping backend='' @ b),
              report_failure ('' (continuing '' @ emdash @ '' cleanup still useful)'') (stopOne h mg self b)]) installed)) w);
          stateDir = cleanup_dir h override;
          bufferDir = path_join_all [stateDir, ''buffer''];
          (cleaned, buf) = cleanDirContents e (sf_buffer s);
          w2 = snd (say (case cleaned of
             Inl err \<Rightarrow> arrow @ ''buffer cleanup: '' @ err
           | Inr n \<Rightarrow> arrow @ ''removed '' @ nat_str n @ '' file(s) from '' @ bufferDir) w1);
          (line, dk) = remove_checkpoint e (path_join_all [stateDir, ''checkpoint.json'']) (sf_ckpt s);
          w3 = (if withCheckpoint then snd (say line w2) else w2);
          w4 = snd (steps (concat (map (\<lambda>b. [say (arrow @ ''starting backend='' @ b),
              report_failure [] (startOne h mg self b)]) installed)) w3)
      in (w4, \<lparr>sf_buffer = buf, sf_ckpt = (if withCheckpoint then dk else sf_ckpt s)\<rparr>)))"

section \<open>What the commands come to\<close>

text \<open>The state directory after a cleanup, whatever the service managers do.\<close>

definition clean_state :: "bool \<Rightarrow> cleanup_env \<Rightarrow> state_files \<Rightarrow> state_files" where
  "clean_state withCheckpoint e s =
     \<lparr>sf_buffer = snd (cleanDirContents e (sf_buffer s)),
      sf_ckpt = (if withCheckpoint \<and> cn_ckpt e then (sf_ckpt s)\<lparr>dk_file := None\<rparr> else sf_ckpt s)\<rparr>"

lemma remove_checkpoint_disk: "snd (remove_checkpoint e ckpt dk) = (if cn_ckpt e then dk\<lparr>dk_file := None\<rparr> else dk)"
  by (auto simp: remove_checkpoint_def split: option.split)

lemma doCleanup_state: "snd (doCleanup h mg self withCheckpoint override e (w, s)) = clean_state withCheckpoint e s"
  using remove_checkpoint_disk [of e "path_join_all [cleanup_dir h override, ''checkpoint.json'']" "sf_ckpt s"]
  by (cases "cleanDirContents e (sf_buffer s)")
    (auto simp: doCleanup_def clean_state_def Let_def split: prod.split)

text \<open>A cleanup with the checkpoint makes the watcher start over.\<close>

lemma clean_state_fresh:
  assumes "cn_ckpt e"
  shows "LoadCheckpoint (disk_reads (sf_ckpt (clean_state True e s))) = Some \<lparr>ck_Files = []\<rparr>"
  using assms by (simp add: clean_state_def disk_reads_def LoadCheckpoint_def)

lemma cleaned_buffer:
  "cleanDirContents e (Some d) = (res, Some d') \<Longrightarrow> set d' \<subseteq> set d \<and> (distinct (map fst d) \<longrightarrow> distinct (map fst d'))"
  by (auto simp: cleanDirContents_def distinct_map_filter split: if_splits)

lemma cleaned_counts:
  "cleanDirContents e buf = (Inr n, buf') \<Longrightarrow>
     n + length (case buf' of None \<Rightarrow> [] | Some d \<Rightarrow> d) = length (case buf of None \<Rightarrow> [] | Some d \<Rightarrow> d)"
  using sum_length_filter_compl [of "clean_entry e"]
  by (auto simp: cleanDirContents_def split: option.splits if_splits)

text \<open>Installing succeeds with the first candidate that is viable and installs, and stops there.\<close>

lemma try_backends_success:
  assumes "try_backends h mg self k ep ex bs skipped w = (None, w')"
  shows "\<exists>pre b post w0. bs = pre @ b # post \<and> PlatformPreInstall h b = None \<and>
    installOne h mg b self k ep ex w0 = (None, w')"
  using assms
proof (induction bs arbitrary: skipped w)
  case (Cons b bs)
  let ?w = "snd (say (arrow @ ''trying backend='' @ b) w)"
  show ?case
  proof (cases "PlatformPreInstall h b = None \<and> fst (installOne h mg b self k ep ex ?w) = None")
    case True
    then have "installOne h mg b self k ep ex ?w = (None, w')"
      using Cons.prems by (cases "installOne h mg b self k ep ex ?w") (simp add: Let_def)
    with True show ?thesis by blast
  next
    case False
    then obtain sk v where "try_backends h mg self k ep ex bs sk v = (None, w')"
      using Cons.prems by (cases "installOne h mg b self k ep ex ?w") (auto simp: Let_def split: option.splits)
    from Cons.IH [OF this] show ?thesis by (metis append_Cons)
  qed
qed simp

end
