(* ===== verification/Delivery.thy ===== *)
theory Delivery
  imports System Service
begin

text \<open>
  A transcript on its way to the server's tables: the file grows, the watcher ticks, dies and
  starts again from its checkpoint file, other clients use the server, requests get lost. What
  the checkpoint claims is read has its rows on the server or waits in the buffer directory.
\<close>

section \<open>Bodies the server does not refuse\<close>

definition good_body :: "string \<Rightarrow> bool" where
  "good_body b \<longleftrightarrow>
     (case decode_request (take max_body b) (length b \<le> max_body) of
        None \<Rightarrow> False
      | Some q \<Rightarrow> iq_MachineID q \<noteq> [])"

definition good_request :: "ingest_request \<Rightarrow> bool" where
  "good_request q \<longleftrightarrow> request_i64 q \<and> to_valid (iq_MachineID q) \<noteq> [] \<and>
     (\<forall>b. marshal_request q = Some b \<longrightarrow> length b \<le> max_body)"

lemma good_marshal:
  assumes "good_request q" "marshal_request q = Some b"
  shows "decode_request (take max_body b) (length b \<le> max_body) = Some (valid_request q)"
  using assms decode_marshal [OF assms(2), of "[]" True] by (simp add: good_request_def)

lemma good_request_body: "good_request q \<Longrightarrow> marshal_request q = Some b \<Longrightarrow> good_body b"
  by (simp add: good_body_def good_marshal) (simp add: good_request_def valid_request_def)

lemma ingest_status:
  assumes "handleIngest e r st = (rs, st')" "body_of r = Some q" "iq_MachineID q \<noteq> []" "rq_Method r = ''POST''"
  shows "rs_Status rs \<in> {200, 401, 500}"
proof (cases "extractBearer (rq_Authorization r) = []")
  case True
  with assms show ?thesis by (auto simp: handleIngest_def http_error_def)
next
  case False
  obtain x auth' where x: "ResolveAPIKey (en_authUp e) (en_now e) (extractBearer (rq_Authorization r)) (sv_Auth st) = (x, auth')"
    by (meson surj_pair)
  show ?thesis
  proof (cases x)
    case (Inl err)
    with False x assms show ?thesis by (auto simp: handleIngest_def http_error_def split: if_splits)
  next
    case (Inr u)
    with False x assms have "store_request e u q (st\<lparr>sv_Auth := auth'\<rparr>) = (rs, st')"
      by (auto simp: handleIngest_def body_of_def)
    then show ?thesis by (cases rule: store_request_cases) (use assms(3) in \<open>auto simp: http_ok_def\<close>)
  qed
qed

lemma rejection_shape: "isHTTPRejection (''server '' @ itoa s @ '': '' @ t) \<longleftrightarrow> s \<in> {400, 404, 410, 413, 422}"
  if "s \<in> {401, 500}"
proof -
  have "itoa 401 = ''401''" "itoa 500 = ''500''" by code_simp+
  with that show ?thesis by (auto simp: isHTTPRejection_def)
qed

lemma transport_not_rejection: "\<not> isHTTPRejection (''Post '' @ m)"
  by (cases "length m < 2") (auto simp: isHTTPRejection_def numeral_eq_Suc take_Cons')

lemma post_good:
  assumes "post u (deliver p pricer ''/ingest'') b w = (Inl err, w')" "good_body b"
  shows "\<not> isHTTPRejection err"
proof -
  obtain x where x: "deliver p pricer ''/ingest'' (upload_request u b) w = (x, w')" "post_result x = Inl err"
    using assms(1) by (auto simp: post_def split: prod.splits)
  show ?thesis
  proof (cases x)
    case (BadURL m)
    with x(1) show ?thesis by (auto simp: deliver_def Let_def split: fault.splits prod.splits)
  next
    case (Transport m)
    with x(2) transport_not_rejection [of m] show ?thesis by (simp add: post_result_def)
  next
    case (Reply status body clean)
    let ?r = "to_http ''/ingest'' (upload_request u b)"
    from x(1) Reply obtain e resp where s: "serve (e\<lparr>en_pg := p\<rparr>) pricer ?r (wd_server w) = (resp, wd_server w')"
      "status = rs_Status resp" by (auto elim: deliver_reply)
    then have h: "handleIngest (e\<lparr>en_pg := p\<rparr>) ?r (wd_server w) = (resp, wd_server w')"
      by (simp add: serve_def to_http_def)
    obtain q where q: "body_of ?r = Some q" "iq_MachineID q \<noteq> []"
      using assms(2) by (auto simp: good_body_def body_of_def to_http_def upload_request_def split: option.splits)
    have "rq_Method ?r = ''POST''" by (simp add: to_http_def)
    from ingest_status [OF h q this] s(2) have "status \<in> {200, 401, 500}" by simp
    then show ?thesis
      using x(2) Reply rejection_shape [of status "trim_space (take 512 body)"]
      by (auto simp: post_result_def Let_def split: if_splits)
  qed
qed

lemma flush_no_drop:
  assumes "Flush u (deliver p pricer ''/ingest'') e (w, d) = (t', wd')" "\<forall>b \<in> spool_bodies d. good_body b"
  shows "fl_dropped t' = 0"
proof (cases "up_BufferDir u = [] \<or> \<not> fe_readdir e \<or> filter spooled (sort_key fst d) = []")
  case True
  with assms(1) show ?thesis by (auto simp: Flush_def Let_def split: if_splits)
next
  case False
  then have "flush_loop u (deliver p pricer ''/ingest'') e (sort_key fst d)
      \<lparr>fl_drained = 0, fl_dropped = 0, fl_Acc = 0, fl_Dup = 0,
       fl_remaining = int (length (filter spooled (sort_key fst d))), fl_lastErr = None\<rparr> (w, d) = (t', wd')"
    using assms(1) by (simp add: Flush_def Let_def)
  from flush_loop_no_drop [OF this] have "fl_dropped t' = 0"
    if "\<And>n b w err w'. (n, Regular b) \<in> set d \<Longrightarrow> path_ext n \<noteq> ''.tmp'' \<Longrightarrow>
      post u (deliver p pricer ''/ingest'') b w = (Inl err, w') \<Longrightarrow> \<not> isHTTPRejection err"
    using that by simp
  then show ?thesis using post_good assms(2) by (fastforce simp: spool_bodies_def)
qed


section \<open>The system\<close>

text \<open>
  What a tick sees of the transcript at \<open>path\<close>, which held \<open>d\<close> when the tick began and \<open>d'\<close> when it
  ended: bytes in between, a size between \<open>d\<close>'s and that of the bytes read, the same inode.
\<close>

definition sees :: "int \<Rightarrow> string \<Rightarrow> string \<Rightarrow> file_obs \<Rightarrow> bool" where
  "sees ino d d' f \<longleftrightarrow> prefix d (fo_data f) \<and> prefix (fo_data f) d' \<and>
     (case fo_stat f of
        None \<Rightarrow> True
      | Some (i, sz) \<Rightarrow> i = ino \<and> int (length d) \<le> sz \<and> sz \<le> int (length (fo_data f)))"

definition watches :: "world watcher \<Rightarrow> tick_env \<Rightarrow> string \<Rightarrow> (file_obs \<Rightarrow> bool) \<Rightarrow> bool" where
  "watches a e path sight \<longleftrightarrow>
     (\<forall>(src, ro) \<in> set (zip (wa_sources a) (te_roots e)). \<forall>(q, ob) \<in> set (root_paths src ro).
        q = path \<longrightarrow> so_Tool src = ''claude-code'' \<and> sight (po_file ob))"

text \<open>
  What a tick needs: buffer names that are new, saved states in the range of their types and paths
  that are UTF-8, and batches that the server's limit on bodies lets through.
\<close>

definition tick_ok :: "world watcher \<Rightarrow> tick_env \<Rightarrow> world watcher_state \<Rightarrow> bool" where
  "tick_ok a e st \<longleftrightarrow>
     (case tick_scan a e (tick_flush a e st) of
        (r, pending) \<Rightarrow>
          free_names e (tick_batches r) (snd (wt_wd (tick_flush a e st))) \<and>
          (\<forall>(q, s) \<in> set pending. valid_utf8 q \<and> state_ok s) \<and>
          (\<forall>i < length (sr_Usage r). good_request (usage_batch a (sr_Usage r) i)) \<and>
          (\<forall>i < length (sr_Edits r). good_request (edit_batch a (sr_Edits r) i)))"

text \<open>
  The steps. A process that dies in the middle of a tick is a tick whose later requests find no
  network and no disk, followed by a restart; what other clients do to the server, and how the
  network will behave from there on, is a step of its own. A cleanup that removes the checkpoint
  comes between two processes: the first has stopped, the second loads what is left.
\<close>

inductive sys_step ::
    "pg \<Rightarrow> pricer \<Rightarrow> world watcher \<Rightarrow> int \<Rightarrow> string \<Rightarrow> string \<times> world watcher_state \<Rightarrow> string \<times> world watcher_state \<Rightarrow> bool"
  for p pricer a ino path
where
  Grow: "sys_step p pricer a ino path (d, st) (d @ added, st)"
| Outside: "wt_wd st = (w, d) \<Longrightarrow>
    sys_step p pricer a ino path (f, st)
      (f, st\<lparr>wt_wd := (\<lparr>wd_server = snd (serve (e\<lparr>en_pg := p\<rparr>) pricer r (wd_server w)), wd_plan = plan\<rparr>, d)\<rparr>)"
| Tick: "\<lbrakk>tick_ok a e st; prefix d d'; in_i64 (int (length d')); watches a e path (sees ino d d');
      runOnce a e st = (fin, st')\<rbrakk> \<Longrightarrow>
    sys_step p pricer a ino path (d, st) (d', st')"
| Restart: "LoadCheckpoint (disk_reads (wt_disk st)) = Some ck \<Longrightarrow>
    sys_step p pricer a ino path (d, st) (d, st\<lparr>wt_ckpt := ck\<rparr>)"
| Cleanup: "\<lbrakk>wt_wd st = (w, b); cn_ckpt e;
      clean_state True e \<lparr>sf_buffer = Some b, sf_ckpt = wt_disk st\<rparr> = \<lparr>sf_buffer = Some b', sf_ckpt = dk\<rparr>;
      LoadCheckpoint (disk_reads dk) = Some ck\<rbrakk> \<Longrightarrow>
    sys_step p pricer a ino path (d, st) (d, st\<lparr>wt_ckpt := ck, wt_disk := dk, wt_wd := (w, b')\<rparr>)"

definition first_start :: "world watcher_state \<Rightarrow> bool" where
  "first_start st \<longleftrightarrow> ck_Files (wt_ckpt st) = [] \<and> dk_file (wt_disk st) = None \<and> snd (wt_wd st) = []"

definition sys_reach ::
    "pg \<Rightarrow> pricer \<Rightarrow> world watcher \<Rightarrow> int \<Rightarrow> string \<Rightarrow> string \<times> world watcher_state \<Rightarrow> bool" where
  "sys_reach p pricer a ino path s \<longleftrightarrow>
     (\<exists>d st. first_start st \<and> (sys_step p pricer a ino path)\<^sup>*\<^sup>* (d, st) s)"

section \<open>What stays true\<close>

text \<open>A record has its row, or waits in the spool in a body the server can decode.\<close>

definition usage_kept :: "pg \<Rightarrow> world \<times> dir \<Rightarrow> usage_record \<Rightarrow> bool" where
  "usage_kept p = (\<lambda>(w, d) u.
     row_of_usage p (wd_server w) (valid_usage u) \<or>
     (\<exists>b q. b \<in> spool_bodies d \<and> decode_request (take max_body b) (length b \<le> max_body) = Some q \<and>
        valid_usage u \<in> set (iq_Records q)))"

definition edit_kept :: "pg \<Rightarrow> world \<times> dir \<Rightarrow> edit_record \<Rightarrow> bool" where
  "edit_kept p = (\<lambda>(w, d) x.
     row_of_edit p (wd_server w) (valid_edit x) \<or>
     (\<exists>b q. b \<in> spool_bodies d \<and> decode_request (take max_body b) (length b \<le> max_body) = Some q \<and>
        valid_edit x \<in> set (iq_Edits q)))"

definition line_with ::
    "(usage_record \<Rightarrow> bool) \<Rightarrow> (edit_record \<Rightarrow> bool) \<Rightarrow> (gotime \<Rightarrow> string \<Rightarrow> scan_result) \<Rightarrow> string \<Rightarrow> bool" where
  "line_with U X emit l \<longleftrightarrow>
     (\<exists>now. (\<forall>u \<in> set (sr_Usage (emit now l)). U u) \<and> (\<forall>x \<in> set (sr_Edits (emit now l)). X x))"

text \<open>A checkpoint claims, for the file at \<open>path\<close>, no lines but such.\<close>

definition claims_with ::
    "(usage_record \<Rightarrow> bool) \<Rightarrow> (edit_record \<Rightarrow> bool) \<Rightarrow> (gotime \<Rightarrow> string \<Rightarrow> scan_result) \<Rightarrow>
     int \<Rightarrow> string \<Rightarrow> string \<Rightarrow> checkpoint \<Rightarrow> bool" where
  "claims_with U X emit ino path d ck \<longleftrightarrow>
     (\<forall>s. ckpt_Get ck path = Some s \<longrightarrow>
        (\<exists>off. tail_saved s ino off \<and> at_line_end d off \<and> (\<forall>l \<in> set (lines_upto d off). line_with U X emit l)))"

lemma line_with_mono: "line_with U X emit l \<Longrightarrow> \<forall>u. U u \<longrightarrow> U' u \<Longrightarrow> \<forall>x. X x \<longrightarrow> X' x \<Longrightarrow> line_with U' X' emit l"
  unfolding line_with_def by blast

lemma claims_with_mono:
  "claims_with U X emit ino path d ck \<Longrightarrow> \<forall>u. U u \<longrightarrow> U' u \<Longrightarrow> \<forall>x. X x \<longrightarrow> X' x \<Longrightarrow> claims_with U' X' emit ino path d ck"
proof -
  assume c: "claims_with U X emit ino path d ck" and u: "\<forall>u. U u \<longrightarrow> U' u" and x: "\<forall>x. X x \<longrightarrow> X' x"
  note mono = line_with_mono [OF _ u x]
  show ?thesis
    unfolding claims_with_def
  proof (intro allI impI)
    fix s assume "ckpt_Get ck path = Some s"
    with c obtain off where "tail_saved s ino off" "at_line_end d off" "\<forall>l \<in> set (lines_upto d off). line_with U X emit l"
      unfolding claims_with_def by blast
    with mono show "\<exists>off. tail_saved s ino off \<and> at_line_end d off \<and> (\<forall>l \<in> set (lines_upto d off). line_with U' X' emit l)"
      by blast
  qed
qed

lemma claims_grow:
  assumes "claims_with U X emit ino path d ck" "prefix d d'"
  shows "claims_with U X emit ino path d' ck"
  unfolding claims_with_def
proof (intro allI impI)
  fix s assume "ckpt_Get ck path = Some s"
  then obtain off where off: "tail_saved s ino off" "at_line_end d off" "\<forall>l \<in> set (lines_upto d off). line_with U X emit l"
    using assms(1) by (auto simp: claims_with_def)
  moreover have "off \<le> int (length d)" using off(2) by (simp add: at_line_end_def)
  ultimately show "\<exists>off. tail_saved s ino off \<and> at_line_end d' off \<and> (\<forall>l \<in> set (lines_upto d' off). line_with U X emit l)"
    using at_line_end_prefix [OF assms(2)] lines_upto_prefix [OF assms(2)] by metis
qed

text \<open>What the proof follows: a body with the record took effect or waits.\<close>

definition usage_sent :: "pg \<Rightarrow> world \<times> dir \<Rightarrow> usage_record \<Rightarrow> bool" where
  "usage_sent p wd u \<longleftrightarrow>
     (\<exists>b q. safe (ingested p) b wd \<and> decode_request (take max_body b) (length b \<le> max_body) = Some q \<and>
        valid_usage u \<in> set (iq_Records q))"

definition edit_sent :: "pg \<Rightarrow> world \<times> dir \<Rightarrow> edit_record \<Rightarrow> bool" where
  "edit_sent p wd x \<longleftrightarrow>
     (\<exists>b q. safe (ingested p) b wd \<and> decode_request (take max_body b) (length b \<le> max_body) = Some q \<and>
        valid_edit x \<in> set (iq_Edits q))"

lemma safe_spool: "safe stored b (w, d) \<longleftrightarrow> stored b w \<or> b \<in> spool_bodies d"
  by (auto simp: safe_def spool_bodies_def)

lemma sent_kept: "usage_sent p wd u \<Longrightarrow> usage_kept p wd u" "edit_sent p wd x \<Longrightarrow> edit_kept p wd x"
  by (cases wd; auto simp: usage_sent_def usage_kept_def edit_sent_def edit_kept_def safe_spool ingested_def list_all_iff)+

definition no_worse :: "pg \<Rightarrow> world \<times> dir \<Rightarrow> world \<times> dir \<Rightarrow> bool" where
  "no_worse p wd wd' \<longleftrightarrow> (\<forall>b. safe (ingested p) b wd \<longrightarrow> safe (ingested p) b wd')"

lemma no_worse_sent:
  assumes "no_worse p wd wd'"
  shows "\<forall>u. usage_sent p wd u \<longrightarrow> usage_sent p wd' u" "\<forall>x. edit_sent p wd x \<longrightarrow> edit_sent p wd' x"
  using assms by (auto simp: no_worse_def usage_sent_def edit_sent_def)

lemma no_worse_trans: "no_worse p a b \<Longrightarrow> no_worse p b c \<Longrightarrow> no_worse p a c"
  by (auto simp: no_worse_def)

section \<open>Each step keeps it\<close>

definition disk_ckpt :: "ckpt_disk \<Rightarrow> checkpoint \<Rightarrow> bool" where
  "disk_ckpt dk ck \<longleftrightarrow> (dk_file dk = None \<and> ck_Files ck = []) \<or> dk_file dk = Some (marshal_checkpoint ck)"

definition sys_inv :: "pg \<Rightarrow> (gotime \<Rightarrow> string \<Rightarrow> scan_result) \<Rightarrow> int \<Rightarrow> string \<Rightarrow> string \<times> world watcher_state \<Rightarrow> bool" where
  "sys_inv p emit ino path = (\<lambda>(d, st).
     (let ok = (\<lambda>ck. checkpoint_ok ck \<and>
           claims_with (usage_sent p (wt_wd st)) (edit_sent p (wt_wd st)) emit ino path d ck)
      in ok (wt_ckpt st) \<and> (\<exists>ck. disk_ckpt (wt_disk st) ck \<and> ok ck) \<and>
         distinct (map fst (snd (wt_wd st))) \<and> (\<forall>b \<in> spool_bodies (snd (wt_wd st)). good_body b)))"

lemma put_all:
  assumes "distinct (map fst m)" "\<forall>x \<in> set m. P x" "P (k, v)"
  shows "distinct (map fst (put k v m)) \<and> (\<forall>x \<in> set (put k v m). P x)"
  using assms set_put_subset' [of k v m] distinct_put by fastforce

lemma set_many_ok:
  assumes "checkpoint_ok ck" "\<forall>(q, s) \<in> set pending. valid_utf8 q \<and> state_ok s"
  shows "checkpoint_ok (foldl (\<lambda>c (q, s). ckpt_Set c q s) ck pending)"
  using assms
proof (induction pending arbitrary: ck)
  case (Cons x pending)
  obtain q s where x: "x = (q, s)" by (cases x)
  have "checkpoint_ok (ckpt_Set ck q s)"
    using Cons.prems x put_all [of "ck_Files ck" "\<lambda>(q, s). valid_utf8 q \<and> state_ok s" q s]
    by (auto simp: checkpoint_ok_def ckpt_Set_def)
  with Cons x show ?case by simp
qed simp

lemma Get_set_many: "ckpt_Get (foldl (\<lambda>c (q, s). ckpt_Set c q s) ck pending) path = (map_of (ck_Files ck) ++ map_of (rev pending)) path"
proof (induction pending arbitrary: ck)
  case (Cons x pending)
  then show ?case by (cases x) (simp add: ckpt_Set_def map_add_def split: option.splits)
qed (simp add: ckpt_Get_def)

lemma load_disk:
  assumes "disk_ckpt dk ck" "checkpoint_ok ck"
  obtains ck' where "LoadCheckpoint (disk_reads dk) = Some ck'" "checkpoint_ok ck'" "\<forall>q. ckpt_Get ck' q = ckpt_Get ck q"
proof (cases "dk_file dk")
  case None
  with assms show thesis
    by (intro that [of "\<lparr>ck_Files = []\<rparr>"])
      (auto simp: disk_ckpt_def disk_reads_def LoadCheckpoint_def checkpoint_ok_def ckpt_Get_def)
next
  case (Some s)
  then have load: "LoadCheckpoint (disk_reads dk) = Some \<lparr>ck_Files = sort_key fst (ck_Files ck)\<rparr>"
    using assms load_marshal [OF assms(2)] by (simp add: disk_ckpt_def disk_reads_def)
  moreover have d: "distinct (map fst (ck_Files ck))" using assms(2) by (simp add: checkpoint_ok_def)
  moreover have "map_of (sort_key fst (ck_Files ck)) = map_of (ck_Files ck)" by (rule map_of_sort_key [OF d])
  moreover have "distinct (map fst (sort_key fst (ck_Files ck)))" using d by (simp add: distinct_map)
  ultimately show thesis using assms(2) by (intro that [OF load]) (auto simp: checkpoint_ok_def ckpt_Get_def)
qed


text \<open>What a flush does to the world and the spool.\<close>

lemma flush_no_worse:
  assumes net: "wa_net a = deliver p pricer ''/ingest''"
    and inv: "distinct (map fst (snd (wt_wd st)))" "\<forall>b \<in> spool_bodies (snd (wt_wd st)). good_body b"
  shows "no_worse p (wt_wd st) (wt_wd (tick_flush a e st))"
    and "distinct (map fst (snd (wt_wd (tick_flush a e st))))"
    and "\<forall>b \<in> spool_bodies (snd (wt_wd (tick_flush a e st))). good_body b"
proof -
  obtain w d where wd: "wt_wd st = (w, d)" by (cases "wt_wd st")
  obtain t' w' d' where f: "Flush (wa_up a) (deliver p pricer ''/ingest'') (te_flush e) (w, d) = (t', w', d')" by (rule prod_cases3)
  have wd': "wt_wd (tick_flush a e st) = (w', d')" by (simp add: tick_flush_def net wd f)
  have "fl_dropped t' = 0" by (rule flush_no_drop [OF f]) (use inv(2) wd in simp)
  with ingest.Flush_keeps [OF f] inv(1) wd show "no_worse p (wt_wd st) (wt_wd (tick_flush a e st))"
    by (simp add: no_worse_def wd')
  have "d' = d \<or> (\<exists>t. flush_loop (wa_up a) (deliver p pricer ''/ingest'') (te_flush e) (sort_key fst d) t (w, d) = (t', w', d'))"
    using f by (auto simp: Flush_def Let_def split: if_splits)
  then have sub: "set d' \<subseteq> set d \<and> (distinct (map fst d) \<longrightarrow> distinct (map fst d'))"
    using flush_loop_dir flush_loop_distinct by fastforce
  then show "distinct (map fst (snd (wt_wd (tick_flush a e st))))"
    "\<forall>b \<in> spool_bodies (snd (wt_wd (tick_flush a e st))). good_body b"
    using inv wd wd' by (auto simp: spool_bodies_def)
qed

text \<open>A tick: nothing that was sent is unsent, and the spool stays as it should be.\<close>

lemma tick_inv:
  assumes net: "wa_net a = deliver p pricer ''/ingest''"
    and inv: "distinct (map fst (snd (wt_wd st)))" "\<forall>b \<in> spool_bodies (snd (wt_wd st)). good_body b"
    and ok: "tick_ok a e st" and run: "runOnce a e st = (fin, st')"
  shows "no_worse p (wt_wd st) (wt_wd st')" "distinct (map fst (snd (wt_wd st')))"
    "\<forall>b \<in> spool_bodies (snd (wt_wd st')). good_body b"
proof -
  obtain r pending where sc: "tick_scan a e (tick_flush a e st) = (r, pending)" by (meson surj_pair)
  note fl = flush_no_worse [OF net inv, of e]
  have free: "free_names e (tick_batches r) (snd (wt_wd (tick_flush a e st)))"
    and good: "\<forall>i < length (sr_Usage r). good_request (usage_batch a (sr_Usage r) i)"
      "\<forall>i < length (sr_Edits r). good_request (edit_batch a (sr_Edits r) i)"
    using ok sc by (simp_all add: tick_ok_def)
  have "no_worse p (wt_wd (tick_flush a e st)) (wt_wd st')"
    using ingest.runOnce_keeps [OF run sc net free] by (simp add: no_worse_def)
  then show "no_worse p (wt_wd st) (wt_wd st')" by (rule no_worse_trans [OF fl(1)])
  let ?Q = "\<lambda>wd :: world \<times> dir. distinct (map fst (snd wd)) \<and> (\<forall>b \<in> spool_bodies (snd wd). good_body b)"
  have send: "?Q wd'" if "sendRequest u net se q ed wd = (res, wd')" "?Q wd" "good_request q"
    for u and net :: "world net" and se q ed wd res wd'
    using sendRequest_dir [OF that(1)]
  proof (elim disjE exE conjE)
    fix b ok
    assume m: "marshal_request q = Some b" and sp: "spool se b (snd wd) = (ok, snd wd')"
    from good_request_body [OF that(3) m] spool_bodies_spool [OF sp] spool_distinct [OF sp] that(2) show "?Q wd'" by blast
  qed (use that(2) in simp)
  have "?Q (wt_wd st')"
    by (rule runOnce_inv [where Q = ?Q, OF run sc]) (use fl(2,3) send good in blast)+
  then show "distinct (map fst (snd (wt_wd st')))" "\<forall>b \<in> spool_bodies (snd (wt_wd st')). good_body b" by simp_all
qed


section \<open>What an advanced checkpoint claims\<close>

lemma merge_source_distinct:
  assumes "foldl merge_source ((all0, pend0), err0) xs = ((r, pending), err)" "distinct (map fst pend0)"
  shows "distinct (map fst pending)"
  using assms
proof (induction xs arbitrary: all0 pend0 err0)
  case (Cons x xs)
  obtain res p e where x: "x = ((res, p), e)" by (metis prod.collapse)
  from Cons.IH [OF _ distinct_merge [OF Cons.prems(2)], of _ p] Cons.prems(1) x show ?case
    by (simp add: merge_source_def)
qed simp

lemma Scan_distinct:
  assumes "Scan unzstd sources ck cutoff now obs = (r, pending, err)"
  shows "distinct (map fst pending)"
proof (cases "foldl merge_source ((empty_result, []), None) (map2 (scan_source unzstd ck cutoff now) sources obs)")
  case (Pair x e)
  obtain all p where "x = (all, p)" by (cases x)
  with Pair merge_source_distinct [of empty_result "[]"] assms show ?thesis by (simp add: Scan_def)
qed

lemma batch_index: "u \<in> set (slice xs i k) \<Longrightarrow> i < length xs"
  by (cases "i < length xs") (auto simp: slice_def)

lemma tick_sends:
  assumes net: "wa_net a = deliver p pricer ''/ingest''" and ok: "tick_ok a e st"
    and run: "runOnce a e st = (Advanced, st')" and sc: "tick_scan a e (tick_flush a e st) = (r, pending)"
  shows "u \<in> set (sr_Usage r) \<Longrightarrow> usage_sent p (wt_wd st') u" "x \<in> set (sr_Edits r) \<Longrightarrow> edit_sent p (wt_wd st') x"
proof -
  have free: "free_names e (tick_batches r) (snd (wt_wd (tick_flush a e st)))"
    and good: "\<forall>i < length (sr_Usage r). good_request (usage_batch a (sr_Usage r) i)"
      "\<forall>i < length (sr_Edits r). good_request (edit_batch a (sr_Edits r) i)"
    using ok sc by (simp_all add: tick_ok_def)
  note holds = ingest.runOnce_holds [OF run sc net free]
  show "usage_sent p (wt_wd st') u" if u: "u \<in> set (sr_Usage r)"
  proof -
    obtain i b where b: "u \<in> set (iq_Records (usage_batch a (sr_Usage r) i))"
      "marshal_request (usage_batch a (sr_Usage r) i) = Some b" "safe (ingested p) b (wt_wd st')"
      using holds(1) [OF u] by blast
    have "i < length (sr_Usage r)" using b(1) batch_index by (auto simp: usage_batch_def)
    from good_marshal [OF good(1) [rule_format, OF this] b(2)] b(1,3) show ?thesis
      unfolding usage_sent_def by (intro exI conjI) (auto simp: valid_request_def)
  qed
  show "edit_sent p (wt_wd st') x" if x: "x \<in> set (sr_Edits r)"
  proof -
    obtain i b where b: "x \<in> set (iq_Edits (edit_batch a (sr_Edits r) i))"
      "marshal_request (edit_batch a (sr_Edits r) i) = Some b" "safe (ingested p) b (wt_wd st')"
      using holds(2) [OF x] by blast
    have "i < length (sr_Edits r)" using b(1) batch_index by (auto simp: edit_batch_def)
    from good_marshal [OF good(2) [rule_format, OF this] b(2)] b(1,3) show ?thesis
      unfolding edit_sent_def by (intro exI conjI) (auto simp: valid_request_def)
  qed
qed

abbreviation cc_emit :: "world watcher \<Rightarrow> string \<Rightarrow> gotime \<Rightarrow> string \<Rightarrow> scan_result" where
  "cc_emit a path \<equiv> claudecode_emit (project_from_path path) ''claude-code'' (wa_cutoff a)"

lemma lines_emitted:
  assumes "lines_upto d off' = lines_upto d off @ ls" "r = concat_results (map (emit now) ls)"
    and "\<forall>l \<in> set (lines_upto d off). line_with U X emit l"
    and "\<forall>u \<in> set (sr_Usage r). U u" "\<forall>x \<in> set (sr_Edits r). X x"
  shows "\<forall>l \<in> set (lines_upto d off'). line_with U X emit l"
proof -
  have "line_with U X emit l" if "l \<in> set ls" for l
    using that assms(2,4,5) unfolding line_with_def by (intro exI [of _ now]) (auto simp: concat_results_sel)
  with assms(1,3) show ?thesis by auto
qed

text \<open>One scan of the transcript from a state the checkpoint has, or from the start.\<close>

lemma scan_claims:
  assumes claims: "claims_with U X (cc_emit a path) ino path d ck"
    and sight: "sees ino d d' f" "in_i64 (int (length d'))"
    and scan: "claudecode_Scan f path ''claude-code''
      (case ckpt_Get ck path of Some s \<Rightarrow> s | None \<Rightarrow> zero_file_state) (wa_cutoff a) now = (r, s, None)"
    and sent: "\<forall>u \<in> set (sr_Usage r). U u" "\<forall>x \<in> set (sr_Edits r). X x"
  shows "\<exists>off. tail_saved s ino off \<and> at_line_end d' off \<and>
    (\<forall>l \<in> set (lines_upto d' off). line_with U X (cc_emit a path) l)"
proof -
  let ?prev = "case ckpt_Get ck path of Some s \<Rightarrow> s | None \<Rightarrow> zero_file_state"
  obtain off where off: "tail_saved ?prev ino off" "at_line_end d off"
    "\<forall>l \<in> set (lines_upto d off). line_with U X (cc_emit a path) l"
    using claims claude.saved_zero [of ino] by (cases "ckpt_Get ck path") (fastforce simp: claims_with_def)+
  have pre: "prefix d (fo_data f)" "prefix (fo_data f) d'" using sight(1) by (auto simp: sees_def)
  obtain sz where sz: "fo_stat f = Some (ino, sz)" "int (length d) \<le> sz" "sz \<le> int (length (fo_data f))"
    using claude.scan_no_stat [of f path "''claude-code''" ?prev "wa_cutoff a" now] scan sight(1)
    by (cases "fo_stat f") (auto simp: sees_def)
  have le: "off \<le> int (length d)" using off(2) by (simp add: at_line_end_def)
  have "length (fo_data f) \<le> length d'" using pre(2) prefix_length_le by blast
  then have i64: "in_i64 (int (length (fo_data f)))" using sight(2) by (auto simp: in_i64_def i64_min_def)
  from claude.scan_emits [OF off(1) at_line_end_prefix [OF pre(1) off(2)] _ sz(3) i64 sz(1) scan] le sz(2)
  obtain off' ls where off': "tail_saved s ino off'" "at_line_end (fo_data f) off'"
    "lines_upto (fo_data f) off' = lines_upto (fo_data f) off @ ls"
    "r = concat_results (map (cc_emit a path now) ls)" by auto
  have "\<forall>l \<in> set (lines_upto (fo_data f) off'). line_with U X (cc_emit a path) l"
    by (rule lines_emitted [where U = U and X = X and emit = "cc_emit a path" and now = now, OF off'(3,4) _ sent]) (use off(3) lines_upto_prefix [OF pre(1) le] in simp)
  moreover have "off' \<le> int (length (fo_data f))" using off'(2) by (simp add: at_line_end_def)
  ultimately show ?thesis
    using off'(1) at_line_end_prefix [OF pre(2) off'(2)] lines_upto_prefix [OF pre(2)] by metis
qed


lemma tick_claims:
  assumes net: "wa_net a = deliver p pricer ''/ingest''" and ok: "tick_ok a e st"
    and run: "runOnce a e st = (Advanced, st')"
    and sight: "watches a e path (sees ino d d')" "prefix d d'" "in_i64 (int (length d'))"
    and claims: "claims_with (usage_sent p (wt_wd st')) (edit_sent p (wt_wd st')) (cc_emit a path) ino path d (wt_ckpt st)"
  shows "claims_with (usage_sent p (wt_wd st')) (edit_sent p (wt_wd st')) (cc_emit a path) ino path d' (wt_ckpt st')"
  unfolding claims_with_def
proof (intro allI impI)
  fix s assume s: "ckpt_Get (wt_ckpt st') path = Some s"
  obtain r pending err where sc: "Scan (wa_unzstd a) (wa_sources a) (wt_ckpt st) (wa_cutoff a) (te_now e) (te_roots e) = (r, pending, err)"
    by (rule prod_cases3)
  then have ts: "tick_scan a e (tick_flush a e st) = (r, pending)" by (simp add: tick_scan_def tick_flush_def)
  have "map_of (rev pending) = map_of pending"
    using Scan_distinct [OF sc] by (subst map_of_inject_set) (simp_all add: rev_map [symmetric])
  then have get: "(map_of (ck_Files (wt_ckpt st)) ++ map_of pending) path = Some s"
    using s runOnce_advanced(1) [OF run ts] Get_set_many [of "wt_ckpt st" pending path] by simp
  show "\<exists>off. tail_saved s ino off \<and> at_line_end d' off \<and> (\<forall>l \<in> set (lines_upto d' off).
      line_with (usage_sent p (wt_wd st')) (edit_sent p (wt_wd st')) (cc_emit a path) l)"
  proof (cases "map_of pending path")
    case None
    with get have "ckpt_Get (wt_ckpt st) path = Some s" by (simp add: ckpt_Get_def map_add_def)
    with claims_grow [OF claims sight(2)] show ?thesis by (simp add: claims_with_def)
  next
    case (Some s')
    with get have pend: "map_of pending path = Some s" by (simp add: map_add_def)
    from Scan_pending [OF sc pend] obtain src ro ob parser r' where *:
      "(src, ro) \<in> set (zip (wa_sources a) (te_roots e))" "(path, ob) \<in> set (root_paths src ro)"
      "parser_For (wa_unzstd a) (so_Tool src) = Some parser"
      "parser ob path (so_Tool src) (case ckpt_Get (wt_ckpt st) path of Some s \<Rightarrow> s | None \<Rightarrow> zero_file_state)
        (wa_cutoff a) (te_now e) = (r', s, None)"
      "set (sr_Usage r') \<subseteq> set (sr_Usage r)" "set (sr_Edits r') \<subseteq> set (sr_Edits r)" by metis
    have src: "so_Tool src = ''claude-code''" "sees ino d d' (po_file ob)"
      using sight(1) *(1,2) by (auto simp: watches_def)
    then have "claudecode_Scan (po_file ob) path ''claude-code''
        (case ckpt_Get (wt_ckpt st) path of Some s \<Rightarrow> s | None \<Rightarrow> zero_file_state) (wa_cutoff a) (te_now e) = (r', s, None)"
      using *(3,4) by (auto simp: parser_For_def registry_def)
    from scan_claims [OF claims src(2) sight(3) this] tick_sends [OF net ok run ts] *(5,6) show ?thesis by blast
  qed
qed


section \<open>Reachable states\<close>

lemma pending_ok:
  assumes "tick_ok a e st" "runOnce a e st = (Advanced, st')" "checkpoint_ok (wt_ckpt st)"
  shows "checkpoint_ok (wt_ckpt st')"
proof -
  obtain r pending where ts: "tick_scan a e (tick_flush a e st) = (r, pending)" by (meson surj_pair)
  with assms(1) have "\<forall>(q, s) \<in> set pending. valid_utf8 q \<and> state_ok s" by (simp add: tick_ok_def)
  from set_many_ok [OF assms(3) this] runOnce_advanced(1) [OF assms(2) ts] show ?thesis by simp
qed

lemma save_disk: "Save e ck dk = (ok, dk') \<Longrightarrow> disk_ckpt dk old \<Longrightarrow> disk_ckpt dk' ck \<or> disk_ckpt dk' old"
  by (auto simp: Save_def Let_def disk_ckpt_def split: if_splits write_outcome.splits)

lemma tick_sys_inv:
  assumes net: "wa_net a = deliver p pricer ''/ingest''" and inv: "sys_inv p (cc_emit a path) ino path (d, st)"
    and ok: "tick_ok a e st" and sight: "watches a e path (sees ino d d')" "prefix d d'" "in_i64 (int (length d'))"
    and run: "runOnce a e st = (fin, st')"
  shows "sys_inv p (cc_emit a path) ino path (d', st')"
proof -
  let ?C = "claims_with (usage_sent p (wt_wd st')) (edit_sent p (wt_wd st')) (cc_emit a path) ino path"
  obtain ck where inv': "checkpoint_ok (wt_ckpt st)" "disk_ckpt (wt_disk st) ck" "checkpoint_ok ck"
    "distinct (map fst (snd (wt_wd st)))" "\<forall>b \<in> spool_bodies (snd (wt_wd st)). good_body b"
    using inv by (auto simp: sys_inv_def Let_def)
  note tick = tick_inv [OF net inv'(4,5) ok run]
  have up: "?C d c" if "claims_with (usage_sent p (wt_wd st)) (edit_sent p (wt_wd st)) (cc_emit a path) ino path d c" for c
    by (rule claims_with_mono [OF that no_worse_sent [OF tick(1)]])
  have old: "?C d (wt_ckpt st)" "\<exists>ck. disk_ckpt (wt_disk st) ck \<and> checkpoint_ok ck \<and> ?C d ck"
    using inv up by (auto simp: sys_inv_def Let_def)
  have "(checkpoint_ok (wt_ckpt st') \<and> ?C d' (wt_ckpt st')) \<and> (\<exists>ck. disk_ckpt (wt_disk st') ck \<and> checkpoint_ok ck \<and> ?C d' ck)"
  proof (cases "fin = Advanced")
    case True
    with run have adv: "runOnce a e st = (Advanced, st')" by simp
    note new = tick_claims [OF net ok adv sight old(1)] pending_ok [OF ok adv inv'(1)]
    obtain r pending where ts: "tick_scan a e (tick_flush a e st) = (r, pending)" by (meson surj_pair)
    obtain ok' where "Save (te_save e) (wt_ckpt st') (wt_disk st) = (ok', wt_disk st')"
      using runOnce_advanced(2) [OF adv ts] by (metis prod.collapse)
    from save_disk [OF this] old(2) claims_grow [OF _ sight(2)] new show ?thesis by blast
  next
    case False
    with runOnce_kept [OF run] old inv'(1) claims_grow [OF _ sight(2)] show ?thesis by auto
  qed
  then show ?thesis using tick(2,3) by (simp add: sys_inv_def Let_def)
qed

lemma outside_no_worse:
  assumes "wt_wd st = (w, d)"
  shows "no_worse p (wt_wd st) (\<lparr>wd_server = snd (serve (e\<lparr>en_pg := p\<rparr>) pricer r (wd_server w)), wd_plan = plan\<rparr>, d)"
proof -
  obtain rs s' where s: "serve (e\<lparr>en_pg := p\<rparr>) pricer r (wd_server w) = (rs, s')" by (meson surj_pair)
  from ingested_mono [OF s, of "\<lparr>wd_server = s', wd_plan = plan\<rparr>"] show ?thesis
    unfolding no_worse_def assms by (simp add: s safe_spool)
qed

lemma step_inv:
  assumes "sys_step p pricer a ino path s s'" "wa_net a = deliver p pricer ''/ingest''"
    and "sys_inv p (cc_emit a path) ino path s"
  shows "sys_inv p (cc_emit a path) ino path s'"
  using assms
proof (cases rule: sys_step.cases)
  case (Grow d st added)
  have "prefix d (d @ added)" by simp
  with Grow assms(3) claims_grow show ?thesis by (fastforce simp: sys_inv_def Let_def)
next
  case (Outside st w d f e r plan)
  from no_worse_sent [OF outside_no_worse [OF Outside(3), of p e pricer r plan]] assms(3) Outside(1-3) claims_with_mono
  show ?thesis unfolding sys_inv_def Let_def by auto
next
  case (Tick e st d d' fin st')
  from tick_sys_inv [OF assms(2) _ Tick(3,6,4,5,7)] assms(3) Tick(1,2) show ?thesis by simp
next
  case (Restart st ck d)
  then obtain c where c: "disk_ckpt (wt_disk st) c" "checkpoint_ok c"
    "claims_with (usage_sent p (wt_wd st)) (edit_sent p (wt_wd st)) (cc_emit a path) ino path d c"
    using assms(3) by (auto simp: sys_inv_def Let_def)
  obtain ck' where "LoadCheckpoint (disk_reads (wt_disk st)) = Some ck'" "checkpoint_ok ck'" "\<forall>q. ckpt_Get ck' q = ckpt_Get c q"
    by (rule load_disk [OF c(1,2)])
  with Restart(3) c(3) have "checkpoint_ok ck"
    "claims_with (usage_sent p (wt_wd st)) (edit_sent p (wt_wd st)) (cc_emit a path) ino path d ck"
    by (auto simp: claims_with_def)
  then show ?thesis using Restart(1,2) assms(3) by (auto simp: sys_inv_def Let_def)
next
  case (Cleanup st w b e b' dk ck d)
  let ?s = "clean_state True e \<lparr>sf_buffer = Some b, sf_ckpt = wt_disk st\<rparr>"
  have "cleanDirContents e (Some b) = (fst (cleanDirContents e (Some b)), Some b')"
    using Cleanup(5) by (simp add: clean_state_def prod_eq_iff)
  note buf = cleaned_buffer [OF this]
  have dk: "sf_ckpt ?s = dk" "sf_ckpt ?s = (wt_disk st)\<lparr>dk_file := None\<rparr>"
    using Cleanup(4,5) by (simp_all add: clean_state_def)
  have "ck = \<lparr>ck_Files = []\<rparr>" using Cleanup(6) clean_state_fresh [OF Cleanup(4)] dk(1) by fastforce
  moreover have "dk_file dk = None" using dk by auto
  moreover have "claims_with U X (cc_emit a path) ino path d \<lparr>ck_Files = []\<rparr>" for U X
    by (simp add: claims_with_def ckpt_Get_def)
  moreover have "checkpoint_ok \<lparr>ck_Files = []\<rparr>" by (simp add: checkpoint_ok_def)
  moreover have "disk_ckpt dk \<lparr>ck_Files = []\<rparr>" using calculation(2) by (simp add: disk_ckpt_def)
  moreover have "distinct (map fst b')" "\<forall>x \<in> spool_bodies b'. good_body x"
    using buf assms(3) Cleanup(1,3) by (auto simp: sys_inv_def Let_def spool_bodies_def)
  ultimately show ?thesis unfolding Cleanup(2) sys_inv_def Let_def by auto
qed

lemma reach_inv:
  assumes "sys_reach p pricer a ino path s" "wa_net a = deliver p pricer ''/ingest''"
  shows "sys_inv p (cc_emit a path) ino path s"
proof -
  obtain d st where st: "first_start st" "(sys_step p pricer a ino path)\<^sup>*\<^sup>* (d, st) s"
    using assms(1) by (auto simp: sys_reach_def)
  from st(2) show ?thesis
  proof (induction rule: rtranclp_induct)
    case base
    from st(1) show ?case
      by (auto simp: sys_inv_def Let_def first_start_def checkpoint_ok_def claims_with_def ckpt_Get_def disk_ckpt_def spool_bodies_def
          intro!: exI [of _ "wt_ckpt st"])
  qed (rule step_inv [OF _ assms(2)])
qed


section \<open>Properties\<close>

text \<open>
  C1. Nothing is lost between a transcript and the server's tables: from a first start on, through
  any interleaving of appends, ticks, restarts, cleanups with the checkpoint, other clients' requests, and whatever the network,
  the disk and the database do in between, the offset the checkpoint has for the transcript ends
  a line, and each usage and edit record of each line before it has its row in the server's
  tables or is in a spooled body that the server can decode.
\<close>

theorem nothing_lost:
  assumes "sys_reach p pricer a ino path (d, st)" "wa_net a = deliver p pricer ''/ingest''"
    and "ckpt_Get (wt_ckpt st) path = Some s"
  shows "at_line_end d (fs_Offset s) \<and>
    (\<forall>l \<in> set (lines_upto d (fs_Offset s)). \<exists>now.
       (\<forall>u \<in> set (sr_Usage (cc_emit a path now l)). usage_kept p (wt_wd st) u) \<and>
       (\<forall>x \<in> set (sr_Edits (cc_emit a path now l)). edit_kept p (wt_wd st) x))"
proof -
  have "claims_with (usage_sent p (wt_wd st)) (edit_sent p (wt_wd st)) (cc_emit a path) ino path d (wt_ckpt st)"
    using reach_inv [OF assms(1,2)] by (simp add: sys_inv_def Let_def)
  then have "claims_with (usage_kept p (wt_wd st)) (edit_kept p (wt_wd st)) (cc_emit a path) ino path d (wt_ckpt st)"
    by (rule claims_with_mono) (simp_all add: sent_kept)
  with assms(3) show ?thesis by (auto simp: claims_with_def line_with_def tail_saved_def)
qed

text \<open>The server goes on taking bodies of \<open>B\<close>, whatever of them it has taken.\<close>

coinductive takes :: "uploader \<Rightarrow> world net \<Rightarrow> string set \<Rightarrow> world \<Rightarrow> bool" for u net B where
  "(\<And>b. b \<in> B \<Longrightarrow> \<exists>res w'. post u net b w = (Inr res, w') \<and> takes u net B w') \<Longrightarrow> takes u net B w"

text \<open>
  C2. Delivery: once the server takes the spooled bodies again, one flush of a readable buffer directory
  empties it, and from then on each record of each line the checkpoint has behind it has its row
  in the server's tables.
\<close>

theorem delivered:
  assumes "sys_reach p pricer a ino path (d, st)" "wa_net a = deliver p pricer ''/ingest''"
    and "ckpt_Get (wt_ckpt st) path = Some s"
    and "up_BufferDir (wa_up a) \<noteq> []" "fe_readdir (te_flush e)" "\<forall>n. fe_read (te_flush e) n" "\<forall>n. fe_remove (te_flush e) n"
    and "takes (wa_up a) (wa_net a) (spool_bodies (snd (wt_wd st))) (fst (wt_wd st))"
    and "tick_flush a e st = st'"
  shows "spool_bodies (snd (wt_wd st')) = {} \<and>
    (\<forall>l \<in> set (lines_upto d (fs_Offset s)). \<exists>now.
       (\<forall>u \<in> set (sr_Usage (cc_emit a path now l)). row_of_usage p (wd_server (fst (wt_wd st'))) (valid_usage u)) \<and>
       (\<forall>x \<in> set (sr_Edits (cc_emit a path now l)). row_of_edit p (wd_server (fst (wt_wd st'))) (valid_edit x)))"
proof -
  let ?B = "spool_bodies (snd (wt_wd st))"
  obtain w dir where wd: "wt_wd st = (w, dir)" by (cases "wt_wd st")
  obtain t' w' dir' where f: "Flush (wa_up a) (deliver p pricer ''/ingest'') (te_flush e) (w, dir) = (t', w', dir')"
    by (rule prod_cases3)
  have wd': "wt_wd st' = (w', dir')" using assms(9) by (auto simp: tick_flush_def assms(2) wd f)
  have step: "\<exists>r w'. post (wa_up a) (deliver p pricer ''/ingest'') b w = (Inr r, w') \<and>
      takes (wa_up a) (deliver p pricer ''/ingest'') ?B w'"
    if "takes (wa_up a) (deliver p pricer ''/ingest'') ?B w" "b \<in> ?B" for b w
    using takes.cases [OF that(1)] that(2) by blast
  have "filter spooled dir' = [] \<and> (\<forall>c. safe (ingested p) c (w, dir) \<longrightarrow> ingested p c w')"
    by (rule ingest.Flush_drains [where B = ?B and up = "takes (wa_up a) (deliver p pricer ''/ingest'') ?B", OF step assms(5-7,4) f])
      (use assms(2,8) wd in \<open>auto simp: spool_bodies_def\<close>)
  then have none: "spool_bodies dir' = {}" and all: "\<forall>c. safe (ingested p) c (w, dir) \<longrightarrow> ingested p c w'"
    by (auto simp: spool_bodies_def spooled_def filter_empty_conv)
  have "claims_with (usage_sent p (w, dir)) (edit_sent p (w, dir)) (cc_emit a path) ino path d (wt_ckpt st)"
    using reach_inv [OF assms(1,2)] wd by (simp add: sys_inv_def Let_def)
  then have "claims_with (\<lambda>u. row_of_usage p (wd_server w') (valid_usage u)) (\<lambda>x. row_of_edit p (wd_server w') (valid_edit x))
      (cc_emit a path) ino path d (wt_ckpt st)"
    by (rule claims_with_mono) (use all in \<open>fastforce simp: usage_sent_def edit_sent_def ingested_def list_all_iff\<close>)+
  with assms(3) none wd' show ?thesis by (auto simp: claims_with_def line_with_def tail_saved_def)
qed


section \<open>A run\<close>

text \<open>
  One transcript; its only batch is spooled while the server is out of reach, then another
  client's request marks the end of the outage.
\<close>

definition run_watcher :: "world watcher" where
  "run_watcher = \<lparr>wa_unzstd = (\<lambda>_. None), wa_sources = [\<lparr>so_Tool = ''claude-code'', so_Root = ''/c''\<rparr>], wa_cutoff = 0,
     wa_up = \<lparr>up_Endpoint = ''http://s/ingest'', up_MachineID = ''box'', up_APIKey = sample_raw, up_BufferDir = ''/b''\<rparr>,
     wa_net = deliver plain_pg (reindex []) ''/ingest'', wa_batch = 200\<rparr>"

definition run_tick :: tick_env where
  "run_tick = \<lparr>te_flush = \<lparr>fe_readdir = True, fe_read = (\<lambda>_. True), fe_remove = (\<lambda>_. True)\<rparr>,
     te_now = 1782900002000000000,
     te_roots = [RootDir [(''/c/b.jsonl'', WalkFile (sample_path True))]],
     te_spool = (\<lambda>k i. \<lparr>se_mkdir = True, se_write = Written, se_rename = True, se_now = 42 + int i\<rparr>),
     te_save = \<lparr>ve_mkdir = True, ve_write = Written, ve_rename = True\<rparr>\<rparr>"

definition run_start :: "world watcher_state" where
  "run_start = \<lparr>wt_ckpt = \<lparr>ck_Files = []\<rparr>, wt_disk = \<lparr>dk_file = None, dk_tmp = None\<rparr>,
     wt_wd = (\<lparr>wd_server = sample_server, wd_plan = (\<lambda>_. Unreachable ''down'')\<rparr>, [])\<rparr>"

definition run_usage :: usage_record where
  "run_usage = hd (sr_Usage (cc_emit run_watcher ''/c/b.jsonl'' 1782900002000000000 cc_line))"

definition run_body :: string where
  "run_body = the (marshal_request (usage_batch run_watcher [run_usage] 0))"

definition run_spooled :: "world watcher_state" where
  "run_spooled = \<lparr>wt_ckpt = \<lparr>ck_Files = [(''/c/b.jsonl'', \<lparr>fs_Inode = 7, fs_Offset = int (length cc_line)\<rparr>)]\<rparr>,
     wt_disk = \<lparr>dk_file = Some (marshal_checkpoint \<lparr>ck_Files = [(''/c/b.jsonl'', \<lparr>fs_Inode = 7, fs_Offset = int (length cc_line)\<rparr>)]\<rparr>),
       dk_tmp = None\<rparr>,
     wt_wd = (\<lparr>wd_server = sample_server, wd_plan = (\<lambda>_. Unreachable ''down'')\<rparr>, [(''batch-42.json'', Regular run_body)])\<rparr>"

lemma run_usage_eq: "run_usage = \<lparr>ur_MessageID = ''m1'', ur_RequestID = [], ur_SessionID = [], ur_Tool = ''claude-code'', ur_Model = ''o'',
   ur_Timestamp = 1782900002000000000, ur_InputTokens = 12, ur_OutputTokens = 0, ur_CacheCreationTokens = 5,
   ur_CacheCreation1hTokens = 5, ur_CacheReadTokens = 0, ur_ProjectPath = ''c'', ur_Backfill = False\<rparr>"
  unfolding run_usage_def by code_simp

lemma run_scan:
  "tick_scan run_watcher run_tick (tick_flush run_watcher run_tick run_start) =
     (\<lparr>sr_Usage = [run_usage], sr_Edits = []\<rparr>, [(''/c/b.jsonl'', \<lparr>fs_Inode = 7, fs_Offset = int (length cc_line)\<rparr>)])"
proof -
  have "claudecode_Scan (po_file (sample_path True)) ''/c/b.jsonl'' ''claude-code'' zero_file_state 0 1782900002000000000 =
      (\<lparr>sr_Usage = [run_usage], sr_Edits = []\<rparr>, \<lparr>fs_Inode = 7, fs_Offset = int (length cc_line)\<rparr>, None)"
    unfolding run_usage_eq by code_simp
  moreover have "isTranscript ''/c/b.jsonl''" by code_simp
  ultimately show ?thesis
    by (simp add: tick_scan_def tick_flush_def Scan_def scan_source_def parser_For_def registry_def run_watcher_def
        run_tick_def walk_step_def scan_path_def ckpt_Get_def run_start_def merge_source_def merge_pending_def
        append_result_def empty_result_def)
qed


lemma run_marshal: "marshal_request (usage_batch run_watcher [run_usage] 0) = Some run_body"
  and run_good: "good_request (usage_batch run_watcher [run_usage] 0)"
proof -
  let ?q = "usage_batch run_watcher [run_usage] 0"
  have "marshal_request ?q \<noteq> None" "length (the (marshal_request ?q)) \<le> 400"
    unfolding run_usage_eq by code_simp+
  then show m: "marshal_request ?q = Some run_body" and "good_request ?q"
    unfolding good_request_def by (auto simp: run_body_def max_body_def) (simp_all add: run_usage_eq, code_simp+)
qed

lemma run_once: "runOnce run_watcher run_tick run_start = (Advanced, run_spooled)"
proof -
  have flush: "tick_flush run_watcher run_tick run_start = run_start"
    by (simp add: tick_flush_def Flush_def Let_def run_start_def)
  have name: "spool_name 42 = ''batch-42.json''" by code_simp
  have batch: "\<lparr>iq_MachineID = ''box'', iq_Records = [run_usage], iq_Edits = []\<rparr> = usage_batch run_watcher [run_usage] 0"
    by (simp add: usage_batch_def run_watcher_def slice_def window_def)
  have send: "send_usage run_watcher run_tick [run_usage] 0 (Suc 0) (wt_wd run_start) =
      (Inr (no_result\<lparr>sd_Spooled := True, sd_SpoolReason := Some (''Post down'')\<rparr>), wt_wd run_spooled)"
    using run_marshal
    by (simp add: send_usage_def Send_def slice_def sendRequest_def run_watcher_def run_start_def run_tick_def batch [unfolded run_watcher_def]
        post_def deliver_def post_result_def spool_def name run_spooled_def dir_remove_def)
  have "sendBatched 1 200 (send_usage run_watcher run_tick [run_usage]) (wt_wd run_start) = (Some True, wt_wd run_spooled)"
    by (simp add: sendBatched_def send_windows.simps send)
  moreover have "wa_batch run_watcher = 200" "te_save run_tick = \<lparr>ve_mkdir = True, ve_write = Written, ve_rename = True\<rparr>"
    by (simp_all add: run_watcher_def run_tick_def)
  moreover have "run_spooled = advance run_tick [(''/c/b.jsonl'', \<lparr>fs_Inode = 7, fs_Offset = int (length cc_line)\<rparr>)]
      (run_start\<lparr>wt_wd := wt_wd run_spooled\<rparr>)"
    using calculation(3) by (simp add: advance_def Save_def Let_def ckpt_Set_def run_start_def run_spooled_def)
  ultimately show ?thesis
    using run_scan by (simp add: runOnce_def flush Let_def sendBatched_def [of 0])
qed

lemma run_ok: "tick_ok run_watcher run_tick run_start"
proof -
  have "tick_batches \<lparr>sr_Usage = [run_usage], sr_Edits = []\<rparr> = {(False, 0)}" by (auto simp: tick_batches_def)
  moreover have "valid_utf8 ''/c/b.jsonl''" "state_ok \<lparr>fs_Inode = 7, fs_Offset = int (length cc_line)\<rparr>" by code_simp+
  moreover have "snd (wt_wd (tick_flush run_watcher run_tick run_start)) = []"
    by (simp add: tick_flush_def Flush_def Let_def run_start_def)
  ultimately show ?thesis using run_good by (simp add: tick_ok_def run_scan free_names_def)
qed

lemma run_reach: "sys_reach plain_pg (reindex []) run_watcher 7 ''/c/b.jsonl'' (cc_line, run_spooled)"
proof -
  have "watches run_watcher run_tick ''/c/b.jsonl'' (sees 7 cc_line cc_line)"
    by (auto simp: watches_def run_watcher_def run_tick_def root_paths_def sees_def sample_path_def List.map_filter_def split: if_splits)
  moreover have "in_i64 (int (length cc_line))" by code_simp
  ultimately have "sys_step plain_pg (reindex []) run_watcher 7 ''/c/b.jsonl'' (cc_line, run_start) (cc_line, run_spooled)"
    by (intro sys_step.Tick [OF run_ok _ _ _ run_once]) simp_all
  moreover have "first_start run_start" by (simp add: first_start_def run_start_def)
  ultimately show ?thesis unfolding sys_reach_def by blast
qed

lemma run_net: "wa_net run_watcher = deliver plain_pg (reindex []) ''/ingest''"
  by (simp add: run_watcher_def)

lemma run_lines: "lines_upto cc_line (int (length cc_line)) = [cc_line]"
  by code_simp

lemma run_get: "ckpt_Get (wt_ckpt run_spooled) ''/c/b.jsonl'' = Some \<lparr>fs_Inode = 7, fs_Offset = int (length cc_line)\<rparr>"
  by (simp add: ckpt_Get_def run_spooled_def)

theorem nothing_lost_witness:
  "\<exists>now. \<forall>u \<in> set (sr_Usage (cc_emit run_watcher ''/c/b.jsonl'' now cc_line)). usage_kept plain_pg (wt_wd run_spooled) u"
proof -
  from nothing_lost [OF run_reach run_net run_get, THEN conjunct2]
  have "\<forall>l \<in> set [cc_line]. \<exists>now. (\<forall>u \<in> set (sr_Usage (cc_emit run_watcher ''/c/b.jsonl'' now l)).
      usage_kept plain_pg (wt_wd run_spooled) u) \<and> (\<forall>x \<in> set (sr_Edits (cc_emit run_watcher ''/c/b.jsonl'' now l)).
      edit_kept plain_pg (wt_wd run_spooled) x)" by (simp only: file_state.select_convs run_lines)
  then show ?thesis by (simp only: list.set ball_simps) blast
qed


text \<open>
  A cleanup that keeps the checkpoint drops the batch and keeps the claim that it was read: the
  records are nowhere and will not be read again.
\<close>

definition run_cleaned :: state_files where
  "run_cleaned = clean_state False \<lparr>cn_list = True, cn_remove = (\<lambda>_. True), cn_ckpt = True\<rparr>
     \<lparr>sf_buffer = Some (snd (wt_wd run_spooled)), sf_ckpt = wt_disk run_spooled\<rparr>"

lemma cleanup_alone_loses:
  "sf_buffer run_cleaned = Some [] \<and> dk_file (sf_ckpt run_cleaned) = Some (marshal_checkpoint (wt_ckpt run_spooled)) \<and>
   \<not> usage_kept plain_pg (fst (wt_wd run_spooled), []) run_usage"
proof -
  have "\<exists>y. usage_texts plain_pg (valid_usage run_usage) = Some y \<and> ur_MessageID y = ''m1''"
    unfolding run_usage_eq by (simp add: plain_pg_def usage_texts_def valid_usage_def)
  then show ?thesis
    by (auto simp: run_cleaned_def clean_state_def cleanDirContents_def clean_entry_def run_spooled_def usage_kept_def
        row_of_usage_def spool_bodies_def sample_server_def)
qed

text \<open>The server back again, with the key the watcher has.\<close>

definition run_online :: "world watcher_state" where
  "run_online = run_spooled\<lparr>wt_wd := (\<lparr>wd_server = sample_server, wd_plan = (\<lambda>_. Answered (sample_env True True))\<rparr>,
     snd (wt_wd run_spooled))\<rparr>"

lemma run_online_reach: "sys_reach plain_pg (reindex []) run_watcher 7 ''/c/b.jsonl'' (cc_line, run_online)"
proof -
  have "wt_wd run_spooled = (fst (wt_wd run_spooled), snd (wt_wd run_spooled))" by simp
  from sys_step.Outside [OF this, of plain_pg "reindex []" run_watcher 7 "''/c/b.jsonl''" cc_line "sample_env True True" "sample_get ''/healthz''"
      "\<lambda>_. Answered (sample_env True True)"]
  have "sys_step plain_pg (reindex []) run_watcher 7 ''/c/b.jsonl'' (cc_line, run_spooled) (cc_line, run_online)"
    by (simp add: serve_def sample_get_def run_online_def run_spooled_def)
  with run_reach show ?thesis unfolding sys_reach_def by (meson rtranclp.rtrancl_into_rtrancl)
qed

definition run_server :: "auth_tables \<Rightarrow> usage_tables \<Rightarrow> world" where
  "run_server A ut = \<lparr>wd_server = sample_server\<lparr>sv_Auth := A, sv_Usage := ut\<rparr>, wd_plan = (\<lambda>_. Answered (sample_env True True))\<rparr>"

lemma run_http:
  defines "r \<equiv> to_http ''/ingest'' (upload_request (wa_up run_watcher) run_body)"
  shows "body_of r = Some (usage_batch run_watcher [run_usage] 0)" "extractBearer (rq_Authorization r) = sample_raw"
    "rq_Method r = ''POST''" "rq_Path r = ''/ingest''"
proof -
  have v: "valid_request (usage_batch run_watcher [run_usage] 0) = usage_batch run_watcher [run_usage] 0"
    unfolding run_usage_eq by code_simp
  show "body_of r = Some (usage_batch run_watcher [run_usage] 0)"
    using good_marshal [OF run_good run_marshal] v by (simp add: r_def body_of_def to_http_def upload_request_def)
  have "sample_raw \<noteq> []" by (simp add: sample_raw_eq)
  then have "rq_Authorization r = ''Bearer '' @ sample_raw"
    by (simp add: r_def to_http_def upload_request_def run_watcher_def)
  moreover have "extractBearer (''Bearer '' @ sample_raw) = sample_raw" unfolding sample_raw_eq by code_simp
  ultimately show "extractBearer (rq_Authorization r) = sample_raw" by simp
qed (simp_all add: r_def to_http_def)

lemma run_post:
  assumes A: "ResolveAPIKey True 3 sample_raw A = (Inr ''ann'', A')"
    and i: "Insert plain_pg True ''box'' ''ann'' [run_usage] ut = (Inr n, ut')"
  shows "\<exists>res. post (wa_up run_watcher) (wa_net run_watcher) run_body (run_server A ut) = (Inr res, run_server A' ut')"
proof -
  let ?r = "to_http ''/ingest'' (upload_request (wa_up run_watcher) run_body)"
  let ?e = "(sample_env True True)\<lparr>en_pg := plain_pg\<rparr>" and ?st = "sample_server\<lparr>sv_Auth := A, sv_Usage := ut\<rparr>"
  have q: "usage_batch run_watcher [run_usage] 0 = \<lparr>iq_MachineID = ''box'', iq_Records = [run_usage], iq_Edits = []\<rparr>"
    by (simp add: usage_batch_def run_watcher_def slice_def window_def)
  have "store_request ?e ''ann'' (usage_batch run_watcher [run_usage] 0) (sample_server\<lparr>sv_Usage := ut, sv_Auth := A'\<rparr>) =
      (http_ok (IngestBody \<lparr>ip_Accepted = fst n, ip_Duplicates = snd n, ip_EditsAccepted = 0, ip_EditsDuplicates = 0\<rparr>),
       sample_server\<lparr>sv_Auth := A', sv_Usage := ut'\<rparr>)"
    by (cases n) (simp add: store_request_def q sample_env_def i InsertEdits_def sample_server_def)
  moreover have "handleIngest ?e ?r ?st = store_request ?e ''ann'' (usage_batch run_watcher [run_usage] 0) (?st\<lparr>sv_Auth := A'\<rparr>)"
    using run_http A by (simp add: handleIngest_def body_of_def sample_env_def sample_raw_eq)
  ultimately show ?thesis
    by (simp add: post_def run_net deliver_def run_server_def serve_def run_http(4) http_ok_def post_result_def Let_def)
qed


lemma run_takes: "takes (wa_up run_watcher) (wa_net run_watcher) {run_body} (fst (wt_wd run_online))"
proof -
  let ?res = "\<lambda>A. fst (ResolveAPIKey True 3 sample_raw A)"
  have "fst (Insert plain_pg True ''box'' ''ann'' [run_usage] ([], [])) = Inr (1, 0)"
    unfolding run_usage_eq by code_simp
  then obtain ut where ut: "Insert plain_pg True ''box'' ''ann'' [run_usage] ([], []) = (Inr (1, 0), ut)"
    by (metis prod.collapse)
  define X where "X = (\<lambda>w. \<exists>A tabs. w = run_server A tabs \<and> ?res A = Inr ''ann'' \<and> (tabs = ([], []) \<or> tabs = ut))"
  have next_step: "\<exists>res w'. post (wa_up run_watcher) (wa_net run_watcher) run_body w = (Inr res, w') \<and> X w'" if "X w" for w
  proof -
    from that obtain A tabs where w: "w = run_server A tabs" "?res A = Inr ''ann''" "tabs = ([], []) \<or> tabs = ut"
      by (auto simp: X_def)
    obtain n where n: "Insert plain_pg True ''box'' ''ann'' [run_usage] tabs = (Inr n, ut)"
      using Insert_after [OF ut w(3)] by blast
    have "ResolveAPIKey True 3 sample_raw A = (Inr ''ann'', snd (ResolveAPIKey True 3 sample_raw A))"
      using w(2) by (metis prod.collapse)
    from run_post [OF this n] w(1) obtain res where
      "post (wa_up run_watcher) (wa_net run_watcher) run_body w = (Inr res, run_server (snd (ResolveAPIKey True 3 sample_raw A)) ut)"
      by blast
    moreover have "X (run_server (snd (ResolveAPIKey True 3 sample_raw A)) ut)"
      unfolding X_def using w(2) resolve_again by metis
    ultimately show ?thesis by blast
  qed
  have "X (fst (wt_wd run_online))"
    unfolding X_def
  proof (intro exI conjI)
    show "fst (wt_wd run_online) = run_server (sv_Auth sample_server) ([], [])"
      by (simp add: run_online_def run_server_def sample_server_def)
    show "?res (sv_Auth sample_server) = Inr ''ann''"
      by (rule sample_resolves [of True True]) simp
  qed simp
  then show ?thesis
  proof (rule takes.coinduct [of X])
    fix w assume "X w"
    from next_step [OF this] show "\<exists>w''. w = w'' \<and> (\<forall>b. b \<in> {run_body} \<longrightarrow>
        (\<exists>res w'. post (wa_up run_watcher) (wa_net run_watcher) b w'' = (Inr res, w') \<and>
          (X w' \<or> takes (wa_up run_watcher) (wa_net run_watcher) {run_body} w')))"
      by (simp only: singleton_iff) metis
  qed
qed

theorem delivered_witness:
  "\<exists>st'. tick_flush run_watcher run_tick run_online = st' \<and> spool_bodies (snd (wt_wd st')) = {} \<and>
     (\<exists>now. \<forall>u \<in> set (sr_Usage (cc_emit run_watcher ''/c/b.jsonl'' now cc_line)).
        row_of_usage plain_pg (wd_server (fst (wt_wd st'))) (valid_usage u))"
proof -
  let ?st = "tick_flush run_watcher run_tick run_online"
  have get: "ckpt_Get (wt_ckpt run_online) ''/c/b.jsonl'' = Some \<lparr>fs_Inode = 7, fs_Offset = int (length cc_line)\<rparr>"
    using run_get by (simp add: run_online_def)
  have body: "spool_bodies (snd (wt_wd run_online)) = {run_body}"
  proof -
    have "path_ext ''batch-42.json'' = ''.json''" by code_simp
    then show ?thesis by (auto simp: spool_bodies_def run_online_def run_spooled_def)
  qed
  have env: "up_BufferDir (wa_up run_watcher) \<noteq> []" "fe_readdir (te_flush run_tick)"
    "\<forall>n. fe_read (te_flush run_tick) n" "\<forall>n. fe_remove (te_flush run_tick) n"
    by (simp_all add: run_watcher_def run_tick_def)
  note d = delivered [OF run_online_reach run_net get env run_takes [folded body] refl]
  from d [THEN conjunct2] have "\<forall>l \<in> set [cc_line]. \<exists>now. (\<forall>u \<in> set (sr_Usage (cc_emit run_watcher ''/c/b.jsonl'' now l)).
      row_of_usage plain_pg (wd_server (fst (wt_wd ?st))) (valid_usage u)) \<and>
      (\<forall>x \<in> set (sr_Edits (cc_emit run_watcher ''/c/b.jsonl'' now l)).
      row_of_edit plain_pg (wd_server (fst (wt_wd ?st))) (valid_edit x))"
    by (simp only: file_state.select_convs run_lines)
  then have "\<exists>now. \<forall>u \<in> set (sr_Usage (cc_emit run_watcher ''/c/b.jsonl'' now cc_line)).
      row_of_usage plain_pg (wd_server (fst (wt_wd ?st))) (valid_usage u)"
    by (simp only: list.set ball_simps) blast
  with d [THEN conjunct1] show ?thesis by blast
qed

end
