(* ===== verification/Repair.thy ===== *)
theory Repair
  imports Store TimeFormat
begin

text \<open>
  The repair of ingested codex rows from replayed records (\<open>server/store_repair.go\<close>): the
  staged records, the comparison, the checks, the update of one user's and machine's rows
  and the rebuild of the days it touches, all in one transaction.
\<close>

section \<open>The statements\<close>

record counters =
  ct_input :: int
  ct_output :: int
  ct_cc :: int
  ct_cr :: int

type_synonym stage = "(usage_key \<times> counters) list"

text \<open>Loading the stage: records without an id are skipped, the first record of an id wins.\<close>

definition stage_row :: "usage_record \<Rightarrow> usage_key \<times> counters" where
  "stage_row r = ((ur_MessageID r, ur_RequestID r),
     \<lparr>ct_input = ur_InputTokens r, ct_output = ur_OutputTokens r, ct_cc = ur_CacheCreationTokens r,
      ct_cr = ur_CacheReadTokens r\<rparr>)"

definition stageCodexRepair :: "pg \<Rightarrow> usage_record list \<Rightarrow> stage option" where
  "stageCodexRepair p recs =
     map_option (\<lambda>rs. fst (insert_new [] (map stage_row (filter (\<lambda>r. ur_MessageID r \<noteq> []) rs))))
       (map_opt (usage_texts p) recs)"

definition row_counters :: "usage_row \<Rightarrow> counters" where
  "row_counters r = \<lparr>ct_input = ud_input r, ct_output = ud_output r, ct_cc = ud_cc r, ct_cr = ud_cr r\<rparr>"

definition set_counters :: "usage_row \<Rightarrow> counters \<Rightarrow> usage_row" where
  "set_counters r c = r\<lparr>ud_input := ct_input c, ud_output := ct_output c, ud_cc := ct_cc c, ud_cr := ct_cr c\<rparr>"

definition in_scope :: "string \<Rightarrow> string \<Rightarrow> usage_row \<Rightarrow> bool" where
  "in_scope userID machineID r \<longleftrightarrow> ud_tool r = ''codex'' \<and> ud_user_id r = userID \<and> ud_machine_id r = machineID"

definition scoped :: "string \<Rightarrow> string \<Rightarrow> (usage_key \<times> usage_row) list \<Rightarrow> (usage_key \<times> usage_row) list" where
  "scoped userID machineID = filter (\<lambda>(k, r). in_scope userID machineID r)"

text \<open>The common table expressions \<open>matched\<close> and \<open>changed\<close>: rows with their staged counters.\<close>

definition matched :: "stage \<Rightarrow> (usage_key \<times> usage_row) list \<Rightarrow> (usage_row \<times> counters) list" where
  "matched stg rows = List.map_filter (\<lambda>(k, r). map_option (Pair r) (map_of stg k)) rows"

definition changed :: "stage \<Rightarrow> (usage_key \<times> usage_row) list \<Rightarrow> (usage_row \<times> counters) list" where
  "changed stg rows = filter (\<lambda>(r, c). row_counters r \<noteq> c) (matched stg rows)"

record CodexRepairStats =
  rp_Parsed :: int
  rp_DatabaseRows :: int
  rp_Matched :: int
  rp_Changed :: int
  rp_MissingSource :: int
  rp_MissingDB :: int
  rp_OldInput :: int
  rp_NewInput :: int
  rp_OldOutput :: int
  rp_NewOutput :: int
  rp_CacheRead :: int
  rp_From :: "gotime option"
  rp_To :: "gotime option"
  rp_Applied :: bool

definition zero_stats :: CodexRepairStats where
  "zero_stats = \<lparr>rp_Parsed = 0, rp_DatabaseRows = 0, rp_Matched = 0, rp_Changed = 0, rp_MissingSource = 0,
     rp_MissingDB = 0, rp_OldInput = 0, rp_NewInput = 0, rp_OldOutput = 0, rp_NewOutput = 0, rp_CacheRead = 0,
     rp_From = None, rp_To = None, rp_Applied = False\<rparr>"

definition min_opt :: "int list \<Rightarrow> int option" where
  "min_opt xs = (case xs of [] \<Rightarrow> None | y # ys \<Rightarrow> Some (foldl min y ys))"

definition max_opt :: "int list \<Rightarrow> int option" where
  "max_opt xs = (case xs of [] \<Rightarrow> None | y # ys \<Rightarrow> Some (foldl max y ys))"

definition queryCodexRepairStats ::
    "string \<Rightarrow> string \<Rightarrow> stage \<Rightarrow> (usage_key \<times> usage_row) list \<Rightarrow> CodexRepairStats option" where
  "queryCodexRepairStats userID machineID stg detail =
     (let sc = scoped userID machineID detail;
          ma = matched stg sc;
          ch = changed stg sc;
          s = \<lparr>rp_Parsed = int (length stg), rp_DatabaseRows = int (length sc), rp_Matched = int (length ma),
               rp_Changed = int (length ch),
               rp_MissingSource = int (length (filter (\<lambda>(k, r). map_of stg k = None) sc)),
               rp_MissingDB = int (length (filter (\<lambda>(k, c). map_of sc k = None) stg)),
               rp_OldInput = (\<Sum>(r, c)\<leftarrow>ma. ud_input r), rp_NewInput = (\<Sum>(r, c)\<leftarrow>ma. ct_input c),
               rp_OldOutput = (\<Sum>(r, c)\<leftarrow>ma. ud_output r), rp_NewOutput = (\<Sum>(r, c)\<leftarrow>ma. ct_output c),
               rp_CacheRead = (\<Sum>(r, c)\<leftarrow>ma. ct_cr c),
               rp_From = min_opt (map (\<lambda>(r, c). ud_ts r) ch), rp_To = max_opt (map (\<lambda>(r, c). ud_ts r) ch),
               rp_Applied = False\<rparr>
      in if list_all in_i64 [rp_OldInput s, rp_NewInput s, rp_OldOutput s, rp_NewOutput s, rp_CacheRead s]
         then Some s else None)"

datatype repair_error =
  IDsRequired | MarshalError | RepairDb db_error | SourceIncomplete | NoTimestampRange

definition validateCodexRepair :: "CodexRepairStats \<Rightarrow> repair_error option" where
  "validateCodexRepair s =
     (if 0 < rp_MissingSource s then Some SourceIncomplete
      else if 0 < rp_Changed s \<and> (rp_From s = None \<or> rp_To s = None) then Some NoTimestampRange
      else None)"

definition update_codex :: "string \<Rightarrow> string \<Rightarrow> stage \<Rightarrow> usage_key \<times> usage_row \<Rightarrow> usage_key \<times> usage_row" where
  "update_codex userID machineID stg = (\<lambda>(k, r).
     (k, case map_of stg k of
           None \<Rightarrow> r
         | Some c \<Rightarrow> if in_scope userID machineID r then set_counters r c else r))"

definition applyCodexRepair ::
    "string \<Rightarrow> string \<Rightarrow> stage \<Rightarrow> gotime \<Rightarrow> gotime \<Rightarrow> usage_tables \<Rightarrow> usage_tables option" where
  "applyCodexRepair userID machineID stg fro til = (\<lambda>(detail, daily).
     map_option snd (rebuildDailyTx fro til (map (update_codex userID machineID stg) detail, daily)))"

text \<open>
  \<open>RepairCodexUsage\<close>. The database may fail before the statistics are read (\<open>up_read\<close>) or
  while the repair is applied and committed (\<open>up_apply\<close>); either way nothing is kept.
\<close>

definition RepairCodexUsage ::
    "pg \<Rightarrow> bool \<Rightarrow> bool \<Rightarrow> string \<Rightarrow> string \<Rightarrow> usage_record list \<Rightarrow> bool \<Rightarrow> usage_tables \<Rightarrow>
     (CodexRepairStats \<times> repair_error option) \<times> usage_tables" where
  "RepairCodexUsage p up_read up_apply userID machineID recs apply tabs =
     (if userID = [] \<or> machineID = [] then ((zero_stats, Some IDsRequired), tabs)
      else if \<not> list_all (\<lambda>r. year_ok (ur_Timestamp r)) recs then ((zero_stats, Some MarshalError), tabs)
      else if \<not> up_read then ((zero_stats, Some (RepairDb DbDown)), tabs)
      else (case (stageCodexRepair p recs, pg_arg p userID, pg_arg p machineID) of
         (Some stg, Some u, Some m) \<Rightarrow>
           (case queryCodexRepairStats u m stg (fst tabs) of
              None \<Rightarrow> ((zero_stats, Some (RepairDb DbOverflow)), tabs)
            | Some stats \<Rightarrow>
                if \<not> apply then ((stats, None), tabs)
                else (case validateCodexRepair stats of
                   Some err \<Rightarrow> ((stats, Some err), tabs)
                 | None \<Rightarrow>
                     if rp_Changed stats = 0 then ((stats, None), tabs)
                     else if \<not> up_apply then ((stats, Some (RepairDb DbDown)), tabs)
                     else (case (rp_From stats, rp_To stats) of
                        (Some f, Some t) \<Rightarrow>
                          (case applyCodexRepair u m stg f t tabs of
                             None \<Rightarrow> ((stats, Some (RepairDb DbOverflow)), tabs)
                           | Some tabs' \<Rightarrow> ((stats\<lparr>rp_Applied := True\<rparr>, None), tabs'))
                      | _ \<Rightarrow> ((stats, Some NoTimestampRange), tabs))))
       | _ \<Rightarrow> ((zero_stats, Some (RepairDb DbReject)), tabs)))"

section \<open>Facts\<close>

lemma min_opt_le: "min_opt xs = Some f \<Longrightarrow> x \<in> set xs \<Longrightarrow> f \<le> x"
proof -
  have "foldl min y ys \<le> y \<and> (\<forall>x \<in> set ys. foldl min y ys \<le> x)" for y :: int and ys
  proof (induction ys arbitrary: y)
    case (Cons a ys)
    from Cons [of "min y a"] show ?case by simp
  qed simp
  then show "min_opt xs = Some f \<Longrightarrow> x \<in> set xs \<Longrightarrow> f \<le> x"
    by (auto simp: min_opt_def split: list.splits)
qed

lemma max_opt_ge: "max_opt xs = Some t \<Longrightarrow> x \<in> set xs \<Longrightarrow> x \<le> t"
proof -
  have "y \<le> foldl max y ys \<and> (\<forall>x \<in> set ys. x \<le> foldl max y ys)" for y :: int and ys
  proof (induction ys arbitrary: y)
    case (Cons a ys)
    from Cons [of "max y a"] show ?case by simp
  qed simp
  then show "max_opt xs = Some t \<Longrightarrow> x \<in> set xs \<Longrightarrow> x \<le> t"
    by (auto simp: max_opt_def split: list.splits)
qed

lemma update_codex_fst [simp]: "fst (update_codex u m stg x) = fst x"
  by (simp add: update_codex_def split: prod.split)

lemma update_codex_scope:
  "ud_ts (snd (update_codex u m stg x)) = ud_ts (snd x) \<and>
   in_scope u m (snd (update_codex u m stg x)) = in_scope u m (snd x)"
  by (auto simp: update_codex_def in_scope_def set_counters_def split: prod.split option.split)

text \<open>Only rows the statistics count as changed are changed, and their days lie in the range.\<close>

lemma update_unchanged:
  assumes "(k, r) \<in> set detail" "\<And>c. (r, c) \<notin> set (changed stg (scoped u m detail))"
  shows "update_codex u m stg (k, r) = (k, r)"
proof (cases "map_of stg k")
  case (Some c)
  show ?thesis
  proof (cases "in_scope u m r")
    case True
    have "(k, r) \<in> set (scoped u m detail)" using assms(1) True by (simp add: scoped_def)
    then have "(r, c) \<in> set (matched stg (scoped u m detail))"
      using Some by (force simp: matched_def map_filter_def)
    with assms(2) have "row_counters r = c" by (auto simp: changed_def)
    with Some True show ?thesis by (auto simp: update_codex_def set_counters_def row_counters_def)
  qed (simp add: update_codex_def Some)
qed (simp add: update_codex_def)

lemma changed_range:
  assumes "queryCodexRepairStats u m stg detail = Some s" "rp_From s = Some f" "rp_To s = Some t"
    and "(r, c) \<in> set (changed stg (scoped u m detail))"
  shows "f \<le> ud_ts r" "ud_ts r \<le> t"
proof -
  have q: "min_opt (map (\<lambda>(r, c). ud_ts r) (changed stg (scoped u m detail))) = Some f"
    "max_opt (map (\<lambda>(r, c). ud_ts r) (changed stg (scoped u m detail))) = Some t"
    using assms(1-3) by (auto simp: queryCodexRepairStats_def Let_def split: if_splits)
  have "ud_ts r \<in> set (map (\<lambda>(r, c). ud_ts r) (changed stg (scoped u m detail)))"
    using assms(4) by force
  with min_opt_le [OF q(1)] max_opt_ge [OF q(2)] show "f \<le> ud_ts r" "ud_ts r \<le> t" by blast+
qed

text \<open>Outside the range every group is the sum of the rows it was.\<close>

lemma group_unchanged:
  assumes "\<And>x. x \<in> set detail \<Longrightarrow> utc_day_no (ud_ts (snd x)) = fst g \<Longrightarrow> h x = x"
    and "\<And>x. ud_ts (snd (h x)) = ud_ts (snd x)"
  shows "map_of (group_rows usage_plus usage_proj (map h detail)) g = map_of (group_rows usage_plus usage_proj detail) g"
proof -
  have "values_at g (map usage_proj (map h xs)) = values_at g (map usage_proj xs)"
    if "\<And>x. x \<in> set xs \<Longrightarrow> utc_day_no (ud_ts (snd x)) = fst g \<Longrightarrow> h x = x" for xs
    using that
  proof (induction xs)
    case (Cons x xs)
    have IH: "values_at g (map usage_proj (map h xs)) = values_at g (map usage_proj xs)"
      using Cons by simp
    show ?case
    proof (cases "utc_day_no (ud_ts (snd x)) = fst g")
      case True
      with Cons.prems have "h x = x" by simp
      with IH show ?thesis by (simp add: values_at_def)
    next
      case False
      have "fst (usage_proj x) \<noteq> g" "fst (usage_proj (h x)) \<noteq> g"
        using False usage_proj_day [of x] usage_proj_day [of "h x"] assms(2) [of x] by auto
      with IH show ?thesis by (simp add: values_at_def)
    qed
  qed simp
  then show ?thesis using assms(1) by (simp add: map_of_group_rows)
qed

lemma utc_day_mono: "s \<le> t \<Longrightarrow> utc_day_no s \<le> utc_day_no t"
  by (simp add: utc_day_no_def day_ns_def zdiv_mono1)

lemma apply_repair:
  assumes "usage_consistent (detail, daily)" "queryCodexRepairStats u m stg detail = Some s"
    "rp_From s = Some f" "rp_To s = Some t" "applyCodexRepair u m stg f t (detail, daily) = Some (detail', daily')"
  shows "detail' = map (update_codex u m stg) detail" "usage_consistent (detail', daily')"
proof -
  let ?d = "map (update_codex u m stg) detail"
  obtain n where r: "rebuildDailyTx f t (?d, daily) = Some (n, detail', daily')"
    using assms(5) by (auto simp: applyCodexRepair_def)
  note l = rebuild_lookup [OF r]
  show d: "detail' = ?d" by (rule l(1))
  have keys: "map (fst \<circ> update_codex u m stg) detail = map fst detail" by (simp add: comp_def)
  have "map_of daily' g = map_of (group_rows usage_plus usage_proj ?d) g" for g
  proof (cases "in_days f t (fst g)")
    case True
    then show ?thesis by (simp add: l(2))
  next
    case False
    have "update_codex u m stg x = x" if x: "x \<in> set detail" "utc_day_no (ud_ts (snd x)) = fst g" for x
    proof -
      obtain k r where kr: "x = (k, r)" by (meson surj_pair)
      have "(r, c) \<notin> set (changed stg (scoped u m detail))" for c
      proof
        assume c: "(r, c) \<in> set (changed stg (scoped u m detail))"
        with changed_range [OF assms(2-4) c] have "in_days f t (utc_day_no (ud_ts r))"
          by (simp add: in_days_def utc_day_mono)
        with False x(2) kr show False by simp
      qed
      with update_unchanged x(1) kr show ?thesis by blast
    qed
    with group_unchanged [of detail g "update_codex u m stg"] update_codex_scope
    have "map_of (group_rows usage_plus usage_proj ?d) g = map_of (group_rows usage_plus usage_proj detail) g" by simp
    with False assms(1) show ?thesis by (simp add: l(2) rolled_up_def)
  qed
  with assms(1) l(3) keys show "usage_consistent (detail', daily')"
    by (auto simp: rolled_up_def d keys)
qed

text \<open>What one call did.\<close>

lemma RepairCodexUsage_cases:
  assumes "RepairCodexUsage p up_read up_apply userID machineID recs apply tabs = ((stats, err), tabs')"
  obtains (kept) "tabs' = tabs" "\<not> rp_Applied stats"
  | (applied) u m stg s f t where "apply" "err = None" "stats = s\<lparr>rp_Applied := True\<rparr>"
      "stageCodexRepair p recs = Some stg" "pg_arg p userID = Some u" "pg_arg p machineID = Some m"
      "queryCodexRepairStats u m stg (fst tabs) = Some s" "validateCodexRepair s = None"
      "rp_From s = Some f" "rp_To s = Some t" "applyCodexRepair u m stg f t tabs = Some tabs'"
proof -
  have napp: "\<not> rp_Applied s" if "queryCodexRepairStats u m stg d = Some s" for u m stg d s
    using that by (auto simp: queryCodexRepairStats_def Let_def split: if_splits)
  show ?thesis
  proof (cases "\<exists>u m stg s f t. apply \<and> stageCodexRepair p recs = Some stg \<and> pg_arg p userID = Some u \<and>
      pg_arg p machineID = Some m \<and> queryCodexRepairStats u m stg (fst tabs) = Some s \<and>
      validateCodexRepair s = None \<and> rp_From s = Some f \<and> rp_To s = Some t \<and>
      applyCodexRepair u m stg f t tabs = Some tabs' \<and> stats = s\<lparr>rp_Applied := True\<rparr> \<and> err = None")
    case True
    with applied show ?thesis by blast
  next
    case False
    with assms napp have "tabs' = tabs \<and> \<not> rp_Applied stats"
      unfolding RepairCodexUsage_def
      by (simp add: zero_stats_def split: if_splits option.splits) auto
    with kept show ?thesis by blast
  qed
qed

lemma stats_no_missing:
  assumes "queryCodexRepairStats u m stg detail = Some s" "validateCodexRepair s = None"
    and "(k, r) \<in> set detail" "in_scope u m r"
  shows "map_of stg k \<noteq> None"
proof
  assume none: "map_of stg k = None"
  have "rp_MissingSource s = int (length (filter (\<lambda>(k, r). map_of stg k = None) (scoped u m detail)))"
    using assms(1) by (auto simp: queryCodexRepairStats_def Let_def split: if_splits)
  moreover have "(k, r) \<in> set (filter (\<lambda>(k, r). map_of stg k = None) (scoped u m detail))"
    using none assms(3,4) by (simp add: scoped_def)
  ultimately have "0 < rp_MissingSource s" by (simp only: of_nat_0_less_iff) (rule length_pos_if_in_set)
  with assms(2) show False by (simp add: validateCodexRepair_def)
qed

section \<open>Properties\<close>

text \<open>
  C37. A repair is exact and scoped: one that reports itself applied gives every codex row of that
  user and machine the counters of its replayed record, leaves every other row and every key as
  it was, and keeps the daily table the grouping of the detail table; one that does not (a dry
  run, an incomplete source, a failure anywhere) changes nothing.
\<close>

theorem repair_exact:
  assumes "usage_consistent (detail, daily)"
    and "RepairCodexUsage p up_read up_apply userID machineID recs apply (detail, daily) = ((stats, err), (detail', daily'))"
  shows "(\<not> rp_Applied stats \<longrightarrow> detail' = detail \<and> daily' = daily) \<and>
    (rp_Applied stats \<longrightarrow> usage_consistent (detail', daily') \<and> map fst detail' = map fst detail \<and>
       (\<exists>u m stg. stageCodexRepair p recs = Some stg \<and> pg_arg p userID = Some u \<and> pg_arg p machineID = Some m \<and>
          (\<forall>(k, r) \<in> set detail.
             if in_scope u m r then \<exists>c. map_of stg k = Some c \<and> map_of detail' k = Some (set_counters r c)
             else map_of detail' k = Some r)))"
  using assms(2)
proof (cases rule: RepairCodexUsage_cases)
  case (applied u m stg s f t)
  note q = applied(7) [simplified]
  note a = apply_repair [OF assms(1) q applied(9,10,11)]
  have dist: "distinct (map fst detail')" using a(2) by (simp add: rolled_up_def)
  have "if in_scope u m r then \<exists>c. map_of stg k = Some c \<and> map_of detail' k = Some (set_counters r c)
      else map_of detail' k = Some r" if kr: "(k, r) \<in> set detail" for k r
  proof -
    have "update_codex u m stg (k, r) \<in> set detail'" using kr by (simp add: a(1))
    then have "map_of detail' k = Some (snd (update_codex u m stg (k, r)))"
      using map_of_is_SomeI [OF dist] by (metis prod.collapse update_codex_fst fst_conv)
    with stats_no_missing [OF q applied(8) kr] show ?thesis
      by (auto simp: update_codex_def split: option.splits)
  qed
  moreover have "map fst detail' = map fst detail" by (simp add: a(1))
  ultimately show ?thesis using applied a(2) by auto
qed auto

lemma repair_settled:
  assumes "queryCodexRepairStats u m stg detail = Some s"
  shows "changed stg (scoped u m (map (update_codex u m stg) detail)) = []"
proof -
  have "c' = row_counters r'" if "(r', c') \<in> set (matched stg (scoped u m (map (update_codex u m stg) detail)))" for r' c'
  proof -
    from that obtain k where k: "(k, r') \<in> set (scoped u m (map (update_codex u m stg) detail))" "map_of stg k = Some c'"
      by (auto simp: matched_def map_filter_def)
    then obtain r where r: "(k, r') = update_codex u m stg (k, r)" "in_scope u m r'"
      by (auto simp: scoped_def update_codex_def split: prod.splits)
    from r(2) update_codex_scope [of u m stg "(k, r)"] r(1) have "in_scope u m r" by (metis snd_conv)
    with r(1) k(2) show ?thesis by (auto simp: update_codex_def set_counters_def row_counters_def)
  qed
  then show ?thesis by (auto simp: changed_def filter_empty_conv)
qed

text \<open>
  A repair settles: on the tables an applied repair leaves, the same records find nothing
  changed, so repeating it changes nothing.
\<close>

theorem repair_idempotent:
  assumes "usage_consistent tabs"
    and "RepairCodexUsage p up_read up_apply userID machineID recs apply tabs = ((stats, err), tabs')"
    and "rp_Applied stats"
    and "RepairCodexUsage p up_read' up_apply' userID machineID recs apply' tabs' = ((stats', err'), tabs'')"
  shows "rp_Changed stats' = 0 \<and> tabs'' = tabs'"
proof -
  obtain detail daily where t: "tabs = (detail, daily)" by force
  from assms(2) obtain u m stg s f tt where a: "stageCodexRepair p recs = Some stg" "pg_arg p userID = Some u"
    "pg_arg p machineID = Some m" "queryCodexRepairStats u m stg detail = Some s" "rp_From s = Some f" "rp_To s = Some tt"
    "applyCodexRepair u m stg f tt (detail, daily) = Some tabs'"
    by (cases rule: RepairCodexUsage_cases) (use assms(3) t in auto)
  obtain detail' daily' where t': "tabs' = (detail', daily')" by force
  have d: "detail' = map (update_codex u m stg) detail"
    using apply_repair(1) [OF assms(1) [unfolded t] a(4-6) a(7) [unfolded t']] .
  have none: "changed stg (scoped u m detail') = []" unfolding d by (rule repair_settled [OF a(4)])
  have "rp_Changed s' = 0" if "queryCodexRepairStats u m stg detail' = Some s'" for s'
    using that none by (auto simp: queryCodexRepairStats_def Let_def split: if_splits)
  then show ?thesis
    using assms(4) a(1-3) unfolding t'
    by (auto simp: RepairCodexUsage_def zero_stats_def split: if_splits option.splits)
qed

section \<open>Samples\<close>

definition codex_usage :: "string \<Rightarrow> int \<Rightarrow> usage_record" where
  "codex_usage i n = (sample_usage i n)\<lparr>ur_Tool := ''codex'', ur_CacheCreation1hTokens := 0\<rparr>"

definition sample_codex :: usage_tables where
  "sample_codex = snd (Insert plain_pg True ''m'' ''u'' [codex_usage ''a'' 1, codex_usage ''b'' 2, sample_usage ''c'' 3] ([], []))"

definition sample_repair :: "(CodexRepairStats \<times> repair_error option) \<times> usage_tables" where
  "sample_repair = RepairCodexUsage plain_pg True True ''u'' ''m'' [codex_usage ''a'' 7, codex_usage ''b'' 2] True sample_codex"

lemma sample_codex_consistent: "usage_consistent sample_codex"
proof -
  have "usage_consistent ([], [])" by (simp add: rolled_up_def group_rows_def)
  then show ?thesis
    using Insert_consistent [of plain_pg True "''m''" "''u''" _ "([], [])" _ sample_codex]
    by (simp add: sample_codex_def) (metis surjective_pairing)
qed

lemma sample_repair_applied: "rp_Applied (fst (fst sample_repair))"
  by code_simp

theorem repair_exact_witness:
  "usage_consistent (snd sample_repair) \<and> rp_Changed (fst (fst sample_repair)) = 1"
proof -
  have c: "usage_consistent (fst sample_codex, snd sample_codex)" using sample_codex_consistent by simp
  have r: "RepairCodexUsage plain_pg True True ''u'' ''m'' [codex_usage ''a'' 7, codex_usage ''b'' 2] True
      (fst sample_codex, snd sample_codex) =
      ((fst (fst sample_repair), snd (fst sample_repair)), (fst (snd sample_repair), snd (snd sample_repair)))"
    by (simp add: sample_repair_def)
  have "rp_Changed (fst (fst sample_repair)) = 1" by code_simp
  with repair_exact [OF c r] sample_repair_applied show ?thesis by simp
qed

theorem repair_idempotent_witness:
  "rp_Changed (fst (fst (RepairCodexUsage plain_pg True True ''u'' ''m'' [codex_usage ''a'' 7, codex_usage ''b'' 2] True
     (snd sample_repair)))) = 0"
proof -
  let ?again = "RepairCodexUsage plain_pg True True ''u'' ''m'' [codex_usage ''a'' 7, codex_usage ''b'' 2] True (snd sample_repair)"
  have r: "RepairCodexUsage plain_pg True True ''u'' ''m'' [codex_usage ''a'' 7, codex_usage ''b'' 2] True sample_codex =
      ((fst (fst sample_repair), snd (fst sample_repair)), snd sample_repair)"
    by (simp add: sample_repair_def)
  have "?again = ((fst (fst ?again), snd (fst ?again)), snd ?again)" by simp
  from repair_idempotent [OF sample_codex_consistent r sample_repair_applied this] show ?thesis by simp
qed

end
