(* ===== verification/PriceSync.thy ===== *)
theory PriceSync
  imports Prices Wire
begin

text \<open>
  The price synchronisation (\<open>server/pricesync.go\<close>): the LiteLLM table is fetched with retries,
  one row per model is chosen from it, and the rows are upserted one by one. Floating-point
  numbers are rationals, as in the price table.
\<close>

section \<open>One entry\<close>

record liteLLMEntry =
  le_InputCostPerToken :: "rat option"
  le_OutputCostPerToken :: "rat option"
  le_CacheCreationCostPerToken :: "rat option"
  le_CacheCreation1hCostPerToken :: "rat option"
  le_CacheReadCostPerToken :: "rat option"
  le_LiteLLMProvider :: string
  le_Mode :: string

definition zero_entry :: liteLLMEntry where
  "zero_entry = \<lparr>le_InputCostPerToken = None, le_OutputCostPerToken = None, le_CacheCreationCostPerToken = None,
     le_CacheCreation1hCostPerToken = None, le_CacheReadCostPerToken = None, le_LiteLLMProvider = [], le_Mode = []\<rparr>"

text \<open>
  \<open>strconv.ParseFloat\<close> on a JSON number, without its rounding: out of range is an error. The
  limit, from which on a number would round to infinity, is \<open>2 ^ 1024 - 2 ^ 970\<close>.
\<close>

definition pow10 :: "int \<Rightarrow> rat \<Rightarrow> rat" where
  "pow10 k v = (if 0 \<le> k then v * 10 ^ nat k else v / 10 ^ nat (- k))"

definition signed_val :: "string \<Rightarrow> int" where
  "signed_val s =
     (case s of
        c # r \<Rightarrow> if c = CHR ''-'' then - dec_val r else if c = CHR ''+'' then dec_val r else dec_val s
      | [] \<Rightarrow> 0)"

definition float_limit :: int where
  "float_limit = 179769313486231580793728971405303415079934132710037826936173778980444968292764750946649017977587207096330286416692887910946555547851940402630657488671505820681908902000708383676273854845817711531764475730270069855571366959622842914819860834936475292719074168444365510704342711559699508093042880177904174497792"

definition parse_float :: "string \<Rightarrow> rat option" where
  "parse_float s =
     (let isE = (\<lambda>c. c = CHR ''e'' \<or> c = CHR ''E'');
          (neg, m) = (case takeWhile (\<lambda>c. \<not> isE c) s of
             c # r \<Rightarrow> if c = CHR ''-'' then (True, r) else (False, c # r)
           | [] \<Rightarrow> (False, []));
          whole = takeWhile (\<lambda>c. c \<noteq> CHR ''.'') m;
          frac = tl (dropWhile (\<lambda>c. c \<noteq> CHR ''.'') m);
          v = pow10 (signed_val (tl (dropWhile (\<lambda>c. \<not> isE c) s)) - int (length frac)) (of_int (dec_val (whole @ frac)))
      in if v < of_int float_limit then Some (if neg then - v else v) else None)"

lemma float_limit_eq: "float_limit = 2 ^ 1024 - 2 ^ 970"
  by (simp add: float_limit_def)

fun dec_float64 :: "rat decoder" where
  "dec_float64 (_, JNum n) old = (case parse_float n of Some v \<Rightarrow> (v, True) | None \<Rightarrow> (old, False))"
| "dec_float64 (_, JNull) old = (old, True)"
| "dec_float64 _ old = (old, False)"

definition dec_liteLLMEntry :: "liteLLMEntry decoder" where
  "dec_liteLLMEntry = dec_struct
     [fld ''input_cost_per_token'' (dec_ptr 0 dec_float64) le_InputCostPerToken le_InputCostPerToken_update,
      fld ''output_cost_per_token'' (dec_ptr 0 dec_float64) le_OutputCostPerToken le_OutputCostPerToken_update,
      fld ''cache_creation_input_token_cost'' (dec_ptr 0 dec_float64)
        le_CacheCreationCostPerToken le_CacheCreationCostPerToken_update,
      fld ''cache_creation_input_token_cost_above_1hr'' (dec_ptr 0 dec_float64)
        le_CacheCreation1hCostPerToken le_CacheCreation1hCostPerToken_update,
      fld ''cache_read_input_token_cost'' (dec_ptr 0 dec_float64) le_CacheReadCostPerToken le_CacheReadCostPerToken_update,
      fld ''litellm_provider'' dec_string le_LiteLLMProvider le_LiteLLMProvider_update,
      fld ''mode'' dec_string le_Mode le_Mode_update]"

type_synonym price_table = "(string \<times> liteLLMEntry) list"

section \<open>Choosing the rows\<close>

text \<open>\<open>dateSuffixRe\<close>: a dash and a date at the very end, in either of two forms.\<close>

definition date_suffix :: "string \<Rightarrow> bool" where
  "date_suffix s \<longleftrightarrow>
     (length s = 9 \<and> hd s = CHR ''-'' \<and> list_all is_digit (tl s)) \<or>
     (length s = 11 \<and> s ! 0 = CHR ''-'' \<and> list_all is_digit (take 4 (drop 1 s)) \<and> s ! 5 = CHR ''-'' \<and>
        list_all is_digit (take 2 (drop 6 s)) \<and> s ! 8 = CHR ''-'' \<and> list_all is_digit (drop 9 s))"

definition strip_date :: "string \<Rightarrow> string" where
  "strip_date s =
     (if 11 \<le> length s \<and> date_suffix (drop (length s - 11) s) then take (length s - 11) s
      else if 9 \<le> length s \<and> date_suffix (drop (length s - 9) s) then take (length s - 9) s
      else s)"

definition normalizeModel :: "string \<Rightarrow> string" where
  "normalizeModel s = strip_date (if slash \<in> set s then after_last slash s else s)"

definition derefFloat :: "rat option \<Rightarrow> rat" where
  "derefFloat p = (case p of None \<Rightarrow> 0 | Some v \<Rightarrow> v)"

definition priceCandidateRank :: "string \<Rightarrow> liteLLMEntry \<Rightarrow> int" where
  "priceCandidateRank key e =
     (if le_CacheCreationCostPerToken e \<noteq> None then 8 else 0) +
     (if le_CacheCreation1hCostPerToken e \<noteq> None then 4 else 0) +
     (if le_CacheReadCostPerToken e \<noteq> None then 2 else 0) +
     (if \<not> contains key [slash] then 1 else 0)"

record candidate =
  cd_entry :: liteLLMEntry
  cd_source :: string
  cd_rank :: int

text \<open>The entries that are priced: those of chat models with both base rates and a name.\<close>

definition eligible :: "string \<Rightarrow> liteLLMEntry \<Rightarrow> bool" where
  "eligible name e \<longleftrightarrow>
     le_Mode e \<in> {[], ''chat'', ''completion''} \<and>
     le_InputCostPerToken e \<noteq> None \<and> le_OutputCostPerToken e \<noteq> None \<and> normalizeModel name \<noteq> []"

definition choose_candidate :: "(string \<times> candidate) list \<Rightarrow> string \<times> liteLLMEntry \<Rightarrow> (string \<times> candidate) list" where
  "choose_candidate chosen = (\<lambda>(name, e).
     (if \<not> eligible name e then chosen
      else (let pre = normalizeModel name;
                c = \<lparr>cd_entry = e, cd_source = name, cd_rank = priceCandidateRank name e\<rparr>
            in case map_of chosen pre of
                 Some ex \<Rightarrow> if cd_rank c \<le> cd_rank ex then chosen else put pre c chosen
               | None \<Rightarrow> put pre c chosen)))"

definition price_of :: "string \<times> candidate \<Rightarrow> price_row" where
  "price_of = (\<lambda>(pre, c).
     (let e = cd_entry c in
      \<lparr>pr_ModelPrefix = pre, pr_ValidFrom = zero_time, pr_ValidTo = None,
       pr_Rate = mk_rate (derefFloat (le_InputCostPerToken e) * 1000000) (derefFloat (le_OutputCostPerToken e) * 1000000)
         (derefFloat (le_CacheCreationCostPerToken e) * 1000000) (derefFloat (le_CacheCreation1hCostPerToken e) * 1000000)
         (derefFloat (le_CacheReadCostPerToken e) * 1000000),
       pr_Source = ''litellm:'' @ cd_source c\<rparr>))"

definition selectPriceRows :: "price_table \<Rightarrow> price_row list" where
  "selectPriceRows raw = map price_of (sort_key fst (foldl choose_candidate [] (sort_key fst raw)))"

section \<open>Fetching\<close>

text \<open>One request: none can be made of the URL, the client fails, or a response comes.\<close>

datatype fetch_obs = NoRequest string | NoResponse string | HttpReply int string bool

text \<open>The result, and whether a failure is worth a retry.\<close>

definition fetchPriceJSONOnce :: "string \<Rightarrow> fetch_obs \<Rightarrow> (string + price_table) \<times> bool" where
  "fetchPriceJSONOnce url ob =
     (case ob of
        NoRequest e \<Rightarrow> (Inl e, False)
      | NoResponse e \<Rightarrow> (Inl (''fetch '' @ url @ '': '' @ e), True)
      | HttpReply status body clean \<Rightarrow>
          if status \<noteq> 200 then
            (Inl (''fetch '' @ url @ '': HTTP '' @ itoa status @ '': '' @ take 512 body),
             500 \<le> status \<or> status = 408 \<or> status = 429)
          else (case json_first body clean of
             None \<Rightarrow> (Inl ''decode JSON'', False)
           | Some v \<Rightarrow>
               (case dec_map zero_entry dec_liteLLMEntry v [] of
                  (raw, ok) \<Rightarrow> if ok then (Inr raw, False) else (Inl ''decode JSON'', False))))"

definition PriceSyncMaxAttempts :: nat where "PriceSyncMaxAttempts = 10"
definition PriceSyncInitialBackoff :: duration where "PriceSyncInitialBackoff = ns_per_sec"
definition PriceSyncMaxBackoff :: duration where "PriceSyncMaxBackoff = 30 * ns_per_sec"

text \<open>Per attempt: whether the context has ended before it, what the request meets, whether it ends in the wait.\<close>

record attempt_env =
  ay_cancelled :: bool
  ay_fetch :: fetch_obs
  ay_wait_cancelled :: bool

datatype fetch_end = Fetched price_table | Cancelled | GaveUp string

text \<open>How the loop ends, the requests it made and the waits it began.\<close>

function fetch_loop :: "string \<Rightarrow> (nat \<Rightarrow> attempt_env) \<Rightarrow> nat \<Rightarrow> duration \<Rightarrow> string \<Rightarrow> fetch_end \<times> nat \<times> duration list" where
  "fetch_loop url env attempt backoff lastErr =
     (if PriceSyncMaxAttempts < attempt then (GaveUp lastErr, 0, [])
      else if ay_cancelled (env attempt) then (Cancelled, 0, [])
      else (case fetchPriceJSONOnce url (ay_fetch (env attempt)) of
         (Inr raw, _) \<Rightarrow> (Fetched raw, 1, [])
       | (Inl err, retry) \<Rightarrow>
           if \<not> retry \<or> attempt = PriceSyncMaxAttempts then (GaveUp err, 1, [])
           else if ay_wait_cancelled (env attempt) then (Cancelled, 1, [backoff])
           else (case fetch_loop url env (attempt + 1) (min (backoff * 2) PriceSyncMaxBackoff) err of
              (r, n, ws) \<Rightarrow> (r, n + 1, backoff # ws))))"
  by pat_completeness auto
termination by (relation "measure (\<lambda>(url, env, attempt, backoff, lastErr). PriceSyncMaxAttempts + 1 - attempt)") auto

declare fetch_loop.simps [simp del]

definition fetchPriceJSONWithRetry :: "string \<Rightarrow> (nat \<Rightarrow> attempt_env) \<Rightarrow> fetch_end \<times> nat \<times> duration list" where
  "fetchPriceJSONWithRetry url env =
     (case fetch_loop url env 1 PriceSyncInitialBackoff [] of
        (GaveUp e, n, ws) \<Rightarrow> (GaveUp (''after '' @ itoa (int PriceSyncMaxAttempts) @ '' attempts: '' @ e), n, ws)
      | r \<Rightarrow> r)"

section \<open>The synchronisation\<close>

text \<open>What one upsert meets: the database, its clock, and the clock readings of the process.\<close>

record upsert_env =
  ux_up :: bool
  ux_dbnow :: gotime
  ux_now :: gotime
  ux_gonow :: gotime

fun sync_loop :: "pg \<Rightarrow> (nat \<Rightarrow> upsert_env) \<Rightarrow> nat \<Rightarrow> price_row list \<Rightarrow> int \<Rightarrow> price_row list \<Rightarrow> int \<times> price_row list" where
  "sync_loop p env i [] changed tab = (changed, tab)"
| "sync_loop p env i (row # rows) changed tab =
     (case UpsertPrice p (ux_up (env i)) (ux_dbnow (env i)) (ux_gonow (env i))
             (row\<lparr>pr_ValidFrom := ux_now (env i)\<rparr>) tab of
        (Inl _, tab') \<Rightarrow> sync_loop p env (Suc i) rows changed tab'
      | (Inr didChange, tab') \<Rightarrow> sync_loop p env (Suc i) rows (if didChange then changed + 1 else changed) tab')"

definition DefaultPriceSourceURL :: string where
  "DefaultPriceSourceURL = ''https://raw.githubusercontent.com/BerriAI/litellm/main/model_prices_and_context_window.json''"

definition SyncPrices ::
    "pg \<Rightarrow> (nat \<Rightarrow> attempt_env) \<Rightarrow> (nat \<Rightarrow> upsert_env) \<Rightarrow> string \<Rightarrow> price_row list \<Rightarrow>
     (string + int \<times> int) \<times> price_row list" where
  "SyncPrices p fenv uenv sourceURL tab =
     (case fetchPriceJSONWithRetry (or_default sourceURL DefaultPriceSourceURL) fenv of
        (GaveUp e, _) \<Rightarrow> (Inl e, tab)
      | (Cancelled, _) \<Rightarrow> (Inl ''context canceled'', tab)
      | (Fetched raw, _) \<Rightarrow>
          (let rows = selectPriceRows raw in
           case sync_loop p uenv 0 rows 0 tab of
             (changed, tab') \<Rightarrow> (Inr (int (length rows), changed), tab')))"


section \<open>The choice\<close>

definition beats :: "string \<times> liteLLMEntry \<Rightarrow> string \<times> liteLLMEntry \<Rightarrow> bool" where
  "beats = (\<lambda>(n, e) (n', e').
     priceCandidateRank n' e' < priceCandidateRank n e \<or> (priceCandidateRank n' e' = priceCandidateRank n e \<and> n \<le> n'))"

definition cand :: "string \<times> liteLLMEntry \<Rightarrow> candidate" where
  "cand = (\<lambda>(n, e). \<lparr>cd_entry = e, cd_source = n, cd_rank = priceCandidateRank n e\<rparr>)"

definition rival :: "string \<Rightarrow> string \<times> liteLLMEntry \<Rightarrow> bool" where
  "rival pre = (\<lambda>(n, e). eligible n e \<and> normalizeModel n = pre)"

definition best_of :: "(string \<times> liteLLMEntry) set \<Rightarrow> string \<Rightarrow> string \<times> liteLLMEntry \<Rightarrow> bool" where
  "best_of S pre x \<longleftrightarrow> x \<in> S \<and> rival pre x \<and> (\<forall>y \<in> S. rival pre y \<longrightarrow> beats x y)"

lemma best_of_insert: "best_of S pre y \<Longrightarrow> (rival pre x \<longrightarrow> beats y x) \<Longrightarrow> best_of (insert x S) pre y"
  by (auto simp: best_of_def)

definition chosen_from :: "(string \<times> liteLLMEntry) set \<Rightarrow> (string \<times> candidate) list \<Rightarrow> string \<Rightarrow> bool" where
  "chosen_from S m pre \<longleftrightarrow>
     (case map_of m pre of
        None \<Rightarrow> (\<forall>y \<in> S. \<not> rival pre y)
      | Some c \<Rightarrow> \<exists>x. c = cand x \<and> best_of S pre x)"

lemma chosen_from_Some: "map_of m pre = Some (cand x) \<Longrightarrow> best_of S pre x \<Longrightarrow> chosen_from S m pre"
  unfolding chosen_from_def by (simp only: option.case) blast

lemma chosen_from_same:
  assumes "chosen_from S m pre" "map_of m' pre = map_of m pre" "\<not> rival pre x"
  shows "chosen_from (insert x S) m' pre"
proof (cases "map_of m pre")
  case None
  with assms show ?thesis by (auto simp: chosen_from_def)
next
  case (Some c)
  then obtain y where "c = cand y" "best_of S pre y" using assms(1) by (auto simp: chosen_from_def)
  with Some assms(2,3) best_of_insert [of S pre y x] show ?thesis by (intro chosen_from_Some) simp_all
qed

lemma choose_candidate_inv:
  assumes "sorted (map fst xs)"
  shows "distinct (map fst (foldl choose_candidate [] xs)) \<and> (\<forall>pre. chosen_from (set xs) (foldl choose_candidate [] xs) pre)"
  using assms
proof (induction xs rule: rev_induct)
  case Nil
  have "chosen_from (set []) [] pre" for pre by (simp add: chosen_from_def)
  then show ?case by simp
next
  case (snoc x xs)
  obtain n e where x: "x = (n, e)" by (cases x)
  let ?m = "foldl choose_candidate [] xs" and ?p = "normalizeModel n"
  have later: "fst y \<le> n" if "y \<in> set xs" for y
    using snoc.prems that x by (auto simp: sorted_append)
  have IH: "distinct (map fst ?m)" "chosen_from (set xs) ?m pre" for pre
    using snoc by (auto simp: sorted_append)
  have "distinct (map fst (choose_candidate ?m x)) \<and> (\<forall>pre. chosen_from (insert x (set xs)) (choose_candidate ?m x) pre)"
  proof (cases "eligible n e")
    case False
    then have "choose_candidate ?m x = ?m" "\<not> rival pre x" for pre by (auto simp: choose_candidate_def rival_def x)
    with IH chosen_from_same show ?thesis by metis
  next
    case True
    have r: "rival pre x \<longleftrightarrow> pre = ?p" for pre using True x by (auto simp: rival_def)
    have "chosen_from (insert x (set xs)) (choose_candidate ?m x) ?p \<and> distinct (map fst (choose_candidate ?m x)) \<and>
      (\<forall>pre. pre \<noteq> ?p \<longrightarrow> map_of (choose_candidate ?m x) pre = map_of ?m pre)"
    proof (cases "\<exists>ex. map_of ?m ?p = Some ex \<and> priceCandidateRank n e \<le> cd_rank ex")
      case kept: True
      then obtain ex where ex: "map_of ?m ?p = Some ex" "priceCandidateRank n e \<le> cd_rank ex" by blast
      then obtain y where y: "ex = cand y" "best_of (set xs) ?p y" using IH(2) [of ?p] by (auto simp: chosen_from_def)
      have same: "choose_candidate ?m x = ?m" using True ex by (simp add: choose_candidate_def x)
      have "beats y x"
        using ex(2) y later [of y] x by (cases y) (auto simp: beats_def cand_def best_of_def)
      then have "best_of (insert x (set xs)) ?p y" by (intro best_of_insert [OF y(2)]) simp
      then have "chosen_from (insert x (set xs)) ?m ?p"
        using chosen_from_Some ex(1) y(1) by blast
      then show ?thesis using IH(1) same by simp
    next
      case False
      then have ch: "choose_candidate ?m x = put ?p (cand x) ?m"
        using True by (auto simp: choose_candidate_def x cand_def Let_def split: option.split)
      have "beats x y" if "y \<in> set xs" "rival ?p y" for y
      proof (cases "map_of ?m ?p")
        case None
        with IH(2) [of ?p] that show ?thesis by (auto simp: chosen_from_def)
      next
        case (Some ex)
        then obtain z where z: "ex = cand z" "best_of (set xs) ?p z" using IH(2) [of ?p] by (auto simp: chosen_from_def)
        with that have "beats z y" by (simp add: best_of_def)
        moreover have "cd_rank ex < priceCandidateRank n e" using False Some by force
        ultimately show ?thesis using z(1) x by (cases y; cases z) (auto simp: beats_def cand_def)
      qed
      moreover have "beats x x" by (simp add: beats_def x)
      ultimately have "best_of (insert x (set xs)) ?p x" using r by (auto simp: best_of_def)
      then have "chosen_from (insert x (set xs)) (put ?p (cand x) ?m) ?p" by (intro chosen_from_Some) (simp_all add: map_of_put)
      then show ?thesis using IH(1) ch by (simp add: map_of_put)
    qed
    then show ?thesis using chosen_from_same [OF IH(2)] r by metis
  qed
  then show ?case by simp
qed


lemma price_of_prefix [simp]: "pr_ModelPrefix (price_of (pre, c)) = pre"
  by (simp add: price_of_def Let_def)

lemma rows_prefixes: "map pr_ModelPrefix (map price_of m) = map fst m"
  by (induction m) auto

text \<open>
  C29. The choice of prices is the best one for each model, and no accident of map order: the rows come
  sorted, one for each model that some eligible entry of the table normalizes to, and each is
  made of the entry of the highest rank among those, the first by name among equals; the same
  table in another order gives the same rows.
\<close>

theorem price_rows_best:
  fixes raw
  defines "rows \<equiv> selectPriceRows raw"
  shows "sorted (map pr_ModelPrefix rows) \<and> distinct (map pr_ModelPrefix rows) \<and>
    pr_ModelPrefix ` set rows = {normalizeModel n | n e. (n, e) \<in> set raw \<and> eligible n e} \<and>
    (\<forall>row \<in> set rows. \<exists>x. best_of (set raw) (pr_ModelPrefix row) x \<and> row = price_of (pr_ModelPrefix row, cand x)) \<and>
    (\<forall>raw'. distinct (map fst raw) \<longrightarrow> mset raw' = mset raw \<longrightarrow> selectPriceRows raw' = rows)"
proof (intro conjI)
  let ?m = "foldl choose_candidate [] (sort_key fst raw)"
  have inv: "distinct (map fst ?m)" "\<And>pre. chosen_from (set raw) ?m pre"
    using choose_candidate_inv [of "sort_key fst raw"] by simp_all
  have rows: "rows = map price_of (sort_key fst ?m)" by (simp add: rows_def selectPriceRows_def)
  show "sorted (map pr_ModelPrefix rows)" unfolding rows rows_prefixes by simp
  show "distinct (map pr_ModelPrefix rows)"
    unfolding rows rows_prefixes using inv(1) by (simp add: distinct_map)
  have dom: "pr_ModelPrefix ` set rows = {pre. map_of ?m pre \<noteq> None}"
    by (simp add: rows image_image case_prod_unfold flip: dom_def) (simp add: dom_map_of_conv_image_fst [symmetric] dom_def price_of_def Let_def image_iff case_prod_unfold)
  have "map_of ?m pre \<noteq> None \<longleftrightarrow> (\<exists>y \<in> set raw. rival pre y)" for pre
    using inv(2) [of pre] by (auto simp: chosen_from_def best_of_def split: option.splits)
  then show "pr_ModelPrefix ` set rows = {normalizeModel n | n e. (n, e) \<in> set raw \<and> eligible n e}"
    unfolding dom by (auto simp: rival_def)
  show "\<forall>row \<in> set rows. \<exists>x. best_of (set raw) (pr_ModelPrefix row) x \<and> row = price_of (pr_ModelPrefix row, cand x)"
  proof
    fix row assume "row \<in> set rows"
    then obtain pre c where pc: "row = price_of (pre, c)" "(pre, c) \<in> set ?m" by (auto simp: rows)
    then have "map_of ?m pre = Some c" using inv(1) by simp
    with inv(2) [of pre] obtain x where "c = cand x" "best_of (set raw) pre x" by (auto simp: chosen_from_def)
    with pc(1) show "\<exists>x. best_of (set raw) (pr_ModelPrefix row) x \<and> row = price_of (pr_ModelPrefix row, cand x)"
      by (intro exI [of _ x]) simp
  qed
  show "\<forall>raw'. distinct (map fst raw) \<longrightarrow> mset raw' = mset raw \<longrightarrow> selectPriceRows raw' = rows"
  proof (intro allI impI)
    fix raw' assume d: "distinct (map fst raw)" and m: "mset raw' = mset raw"
    have set: "set raw' = set raw" using m by (metis set_mset_mset)
    moreover have "distinct (map fst raw')" using d m by (metis mset_eq_imp_distinct_iff mset_map)
    moreover have "inj_on fst (set raw)" using d by (simp add: distinct_map)
    ultimately have "sort_key fst raw' = sort_key fst raw"
      using d by (intro map_sorted_distinct_set_unique [of fst]) (simp_all add: distinct_map)
    then show "selectPriceRows raw' = rows" by (simp add: rows_def selectPriceRows_def)
  qed
qed


text \<open>Two entries for one model and one for another: the vendor's key wins although the reseller's sorts first.\<close>

definition sample_entry :: "rat \<Rightarrow> rat option \<Rightarrow> liteLLMEntry" where
  "sample_entry x cr = zero_entry\<lparr>le_InputCostPerToken := Some x, le_OutputCostPerToken := Some (2 * x),
     le_CacheReadCostPerToken := cr, le_Mode := ''chat''\<rparr>"

definition sample_raw_table :: price_table where
  "sample_raw_table =
     [(''azure/gpt-4o-2024-08-06'', sample_entry 5 (Some 1)), (''gpt-4o'', sample_entry 4 (Some 1)),
      (''embed'', zero_entry\<lparr>le_Mode := ''embedding''\<rparr>), (''claude-opus-4-1-20250805'', sample_entry 15 None)]"

theorem price_rows_best_witness:
  "map (\<lambda>r. (pr_ModelPrefix r, pr_Source r, rt_Input (pr_Rate r))) (selectPriceRows (rev sample_raw_table)) =
     [(''claude-opus-4-1'', ''litellm:claude-opus-4-1-20250805'', 15000000), (''gpt-4o'', ''litellm:gpt-4o'', 4000000)]"
proof -
  have "distinct (map fst sample_raw_table)" by code_simp
  moreover have "mset (rev sample_raw_table) = mset sample_raw_table" by simp
  ultimately have "selectPriceRows (rev sample_raw_table) = selectPriceRows sample_raw_table"
    using price_rows_best [of sample_raw_table] by blast
  moreover have "map (\<lambda>r. (pr_ModelPrefix r, pr_Source r, rt_Input (pr_Rate r))) (selectPriceRows sample_raw_table) =
     [(''claude-opus-4-1'', ''litellm:claude-opus-4-1-20250805'', 15000000), (''gpt-4o'', ''litellm:gpt-4o'', 4000000)]"
    by code_simp
  ultimately show ?thesis by simp
qed

section \<open>The retries\<close>

text \<open>An attempt that fails, is worth a retry, and is waited out.\<close>

definition retried :: "string \<Rightarrow> attempt_env \<Rightarrow> bool" where
  "retried url a \<longleftrightarrow> \<not> ay_cancelled a \<and> (\<exists>e. fetchPriceJSONOnce url (ay_fetch a) = (Inl e, True)) \<and> \<not> ay_wait_cancelled a"

definition backoffs :: "duration list" where
  "backoffs = map (\<lambda>s. s * ns_per_sec) [1, 2, 4, 8, 16, 30, 30, 30, 30]"

definition backoff_at :: "nat \<Rightarrow> duration" where
  "backoff_at i = min (2 ^ i) 30 * ns_per_sec"

lemma backoff_next: "min (backoff_at i * 2) PriceSyncMaxBackoff = backoff_at (Suc i)"
  by (auto simp: backoff_at_def PriceSyncMaxBackoff_def min_def)

text \<open>What attempt \<open>k + 1\<close> makes of the loop that began with attempt \<open>i + 1\<close>, once it is reached.\<close>

definition decided :: "string \<Rightarrow> (nat \<Rightarrow> attempt_env) \<Rightarrow> nat \<Rightarrow> fetch_end \<Rightarrow> nat \<Rightarrow> nat \<Rightarrow> bool" where
  "decided url env i r n k \<longleftrightarrow>
     (case fetchPriceJSONOnce url (ay_fetch (env (Suc k))) of
        (Inr raw, _) \<Rightarrow> r = Fetched raw \<and> n = Suc k - i
      | (Inl e, b) \<Rightarrow> \<not> b \<or> k = 9 \<longrightarrow> r = GaveUp e \<and> n = Suc k - i)"

lemma fetch_loop_general:
  assumes "fetch_loop url env (Suc i) (backoff_at i) e0 = (r, n, ws)" "i < 10"
  shows "n \<le> 10 - i \<and> ws = map backoff_at [i..<i + length ws] \<and> length ws \<le> n \<and> i + length ws \<le> 9 \<and>
    (\<forall>k. i \<le> k \<and> k < 10 \<and> (\<forall>j. i \<le> j \<and> j < k \<longrightarrow> retried url (env (Suc j))) \<and> \<not> ay_cancelled (env (Suc k)) \<longrightarrow>
       decided url env i r n k)"
  using assms
proof (induction "10 - i" arbitrary: i e0 r n ws)
  case (Suc d)
  let ?a = "env (Suc i)"
  obtain res retry where once: "fetchPriceJSONOnce url (ay_fetch ?a) = (res, retry)" by (meson surj_pair)
  show ?case
  proof (cases "retried url ?a \<and> i < 9")
    case False
    have here: "k = i" if "i \<le> k" "k < 10" "\<forall>j. i \<le> j \<and> j < k \<longrightarrow> retried url (env (Suc j))" for k
      using that False by (cases "k = i") auto
    have "n \<le> 1 \<and> (ws = [] \<or> (ws = [backoff_at i] \<and> n = 1 \<and> i < 9)) \<and>
      (\<not> ay_cancelled ?a \<longrightarrow> (\<forall>raw. res = Inr raw \<longrightarrow> r = Fetched raw \<and> n = 1) \<and>
        (\<forall>e. res = Inl e \<longrightarrow> \<not> retry \<or> i = 9 \<longrightarrow> r = GaveUp e \<and> n = 1))"
      using Suc.prems False once fetch_loop.simps [of url env "Suc i" "backoff_at i" e0]
      by (auto simp: PriceSyncMaxAttempts_def retried_def split: sum.splits if_splits bool.splits)
    then have n: "n \<le> 1" "ws = [] \<or> (ws = [backoff_at i] \<and> n = 1 \<and> i < 9)"
      and at_i: "\<not> ay_cancelled ?a \<longrightarrow> (\<forall>raw b. (res, retry) = (Inr raw, b) \<longrightarrow> r = Fetched raw \<and> n = 1) \<and>
        (\<forall>e b. (res, retry) = (Inl e, b) \<longrightarrow> \<not> b \<or> i = 9 \<longrightarrow> r = GaveUp e \<and> n = 1)" by auto
    have "ws = map backoff_at [i..<i + length ws]" "length ws \<le> n" "i + length ws \<le> 9" "n \<le> 10 - i"
      using n Suc.prems(2) by auto
    moreover have "decided url env i r n k"
      if "i \<le> k" "k < 10" "\<forall>j. i \<le> j \<and> j < k \<longrightarrow> retried url (env (Suc j))" "\<not> ay_cancelled (env (Suc k))" for k
      using at_i once that(4) here [OF that(1-3)] by (auto simp: decided_def split: sum.split)
    ultimately show ?thesis by blast
  next
    case True
    then obtain e where e: "res = Inl e" "retry" "\<not> ay_cancelled ?a" "\<not> ay_wait_cancelled ?a" using once by (auto simp: retried_def)
    obtain r' n' ws' where rec: "fetch_loop url env (Suc (Suc i)) (backoff_at (Suc i)) e = (r', n', ws')" by (rule prod_cases3)
    have out: "r = r'" "n = Suc n'" "ws = backoff_at i # ws'"
      using Suc.prems True once e rec fetch_loop.simps [of url env "Suc i" "backoff_at i" e0]
      by (auto simp: PriceSyncMaxAttempts_def backoff_next)
    have IH: "n' \<le> 10 - Suc i \<and> ws' = map backoff_at [Suc i..<Suc i + length ws'] \<and> length ws' \<le> n' \<and> Suc i + length ws' \<le> 9 \<and>
      (\<forall>k. Suc i \<le> k \<and> k < 10 \<and> (\<forall>j. Suc i \<le> j \<and> j < k \<longrightarrow> retried url (env (Suc j))) \<and> \<not> ay_cancelled (env (Suc k)) \<longrightarrow>
         decided url env (Suc i) r' n' k)"
      by (rule Suc.hyps(1) [OF _ rec]) (use Suc.hyps(2) True in auto)
    have "[i..<i + length ws] = i # [Suc i..<Suc i + length ws']"
      by (simp add: out(3) upt_conv_Cons del: upt_Suc)
    then have "ws = map backoff_at [i..<i + length ws]" using IH out(3) by (metis list.simps(9))
    moreover have "decided url env i r n k"
      if "i \<le> k" "k < 10" "\<forall>j. i \<le> j \<and> j < k \<longrightarrow> retried url (env (Suc j))" "\<not> ay_cancelled (env (Suc k))" for k
    proof (cases "k = i")
      case False
      then have "Suc i \<le> k" using that(1) by simp
      with IH that have "decided url env (Suc i) r' n' k" by simp
      with out(1,2) \<open>Suc i \<le> k\<close> show ?thesis by (auto simp: decided_def Suc_diff_le split: sum.splits)
    qed (use once e True in \<open>auto simp: decided_def\<close>)
    ultimately show ?thesis using IH out by auto
  qed
qed simp


lemma backoffs_eq: "map backoff_at [0..<m] = take m backoffs" if "m \<le> 9"
proof -
  have "backoffs = map backoff_at [0..<9]" by (simp add: backoffs_def backoff_at_def upt_rec)
  with that show ?thesis by (metis add_0 take_map take_upt)
qed

lemma sum_take_le: "\<forall>x \<in> set xs. 0 \<le> (x :: int) \<Longrightarrow> sum_list (take m xs) \<le> sum_list xs"
  by (metis append_take_drop_id in_set_dropD le_add_same_cancel1 sum_list_append sum_list_nonneg)

text \<open>
  C30. A synchronisation's fetch ends after at most ten requests and 151 seconds of waiting, its waits
  doubling from one second up to thirty; the first attempt that is reached without a cancellation and
  succeeds gives the table, and the first whose failure is not worth a retry, or the tenth,
  ends it at once, with the same message whichever it was.
\<close>

theorem price_fetch_bounded:
  assumes "fetchPriceJSONWithRetry url env = (r, n, ws)"
  shows "n \<le> 10 \<and> ws = take (length ws) backoffs \<and> sum_list ws \<le> 151 * ns_per_sec \<and>
    (\<forall>k < 10. (\<forall>j < k. retried url (env (Suc j))) \<longrightarrow> \<not> ay_cancelled (env (Suc k)) \<longrightarrow>
       (case fetchPriceJSONOnce url (ay_fetch (env (Suc k))) of
          (Inr raw, _) \<Rightarrow> r = Fetched raw \<and> n = Suc k
        | (Inl e, again) \<Rightarrow> \<not> again \<or> k = 9 \<longrightarrow> r = GaveUp (''after 10 attempts: '' @ e) \<and> n = Suc k))"
proof -
  obtain r' where run: "fetch_loop url env 1 PriceSyncInitialBackoff [] = (r', n, ws)"
    and r: "r = (case r' of GaveUp e \<Rightarrow> GaveUp (''after 10 attempts: '' @ e) | _ \<Rightarrow> r')"
  proof -
    have "itoa (int PriceSyncMaxAttempts) = ''10''" unfolding PriceSyncMaxAttempts_def by code_simp
    then show thesis using assms that
      by (auto simp: fetchPriceJSONWithRetry_def split: prod.splits fetch_end.splits)
  qed
  have "fetch_loop url env (Suc 0) (backoff_at 0) [] = (r', n, ws)"
    using run by (simp add: PriceSyncInitialBackoff_def backoff_at_def)
  from fetch_loop_general [OF this]
  have g: "n \<le> 10" "ws = map backoff_at [0..<length ws]" "length ws \<le> 9"
    "\<And>k. k < 10 \<Longrightarrow> \<forall>j < k. retried url (env (Suc j)) \<Longrightarrow> \<not> ay_cancelled (env (Suc k)) \<Longrightarrow> decided url env 0 r' n k"
    by auto
  have ws: "ws = take (length ws) backoffs" using backoffs_eq [OF g(3)] g(2) by simp
  have "sum_list (take (length ws) backoffs) \<le> sum_list backoffs" by (rule sum_take_le) (simp add: backoffs_def)
  then have "sum_list ws \<le> 151 * ns_per_sec" using ws by (simp add: backoffs_def)
  moreover have "case fetchPriceJSONOnce url (ay_fetch (env (Suc k))) of
        (Inr raw, _) \<Rightarrow> r = Fetched raw \<and> n = Suc k
      | (Inl e, again) \<Rightarrow> \<not> again \<or> k = 9 \<longrightarrow> r = GaveUp (''after 10 attempts: '' @ e) \<and> n = Suc k"
    if "k < 10" "\<forall>j < k. retried url (env (Suc j))" "\<not> ay_cancelled (env (Suc k))" for k
    using g(4) [OF that] by (auto simp: decided_def r split: sum.splits)
  ultimately show ?thesis using g(1) ws by blast
qed

text \<open>Two answers 503, then 404.\<close>

definition sample_fetches :: "nat \<Rightarrow> attempt_env" where
  "sample_fetches k = \<lparr>ay_cancelled = False,
     ay_fetch = (if k < 3 then HttpReply 503 [] True else HttpReply 404 ''no'' True), ay_wait_cancelled = False\<rparr>"

theorem price_fetch_bounded_witness:
  "fetchPriceJSONWithRetry ''u'' sample_fetches =
   (GaveUp ''after 10 attempts: fetch u: HTTP 404: no'', 3, [ns_per_sec, 2 * ns_per_sec])"
proof -
  let ?env = sample_fetches
  obtain r n ws where run: "fetchPriceJSONWithRetry ''u'' ?env = (r, n, ws)" by (rule prod_cases3)
  have it: "itoa 404 = ''404''" by code_simp
  have once: "fetchPriceJSONOnce ''u'' (ay_fetch (?env (Suc 2))) = (Inl ''fetch u: HTTP 404: no'', False)" "\<not> ay_cancelled (?env (Suc 2))"
    by (simp_all add: fetchPriceJSONOnce_def it sample_fetches_def)
  have "retried ''u'' (?env (Suc j))" if "j < 2" for j
    using that by (simp add: retried_def fetchPriceJSONOnce_def sample_fetches_def)
  with price_fetch_bounded [OF run] once have "r = GaveUp ''after 10 attempts: fetch u: HTTP 404: no''" "n = 3"
    by (auto dest!: spec [of _ 2])
  moreover have "snd (snd (fetchPriceJSONWithRetry ''u'' ?env)) = [ns_per_sec, 2 * ns_per_sec]"
    by (simp add: fetchPriceJSONWithRetry_def fetch_loop.simps PriceSyncMaxAttempts_def PriceSyncInitialBackoff_def
        PriceSyncMaxBackoff_def fetchPriceJSONOnce_def sample_fetches_def)
  ultimately show ?thesis using run by simp
qed


section \<open>What a synchronisation leaves\<close>

definition priced :: "price_row list \<Rightarrow> price_row \<Rightarrow> bool" where
  "priced tab row \<longleftrightarrow> (\<exists>a \<in> set tab. active_for (pr_ModelPrefix row) a \<and> pr_Rate a = pr_Rate row)"

text \<open>At each row's turn its start, where it has one of its own, is that of no row in the table.\<close>

fun sync_fresh :: "pg \<Rightarrow> (nat \<Rightarrow> upsert_env) \<Rightarrow> nat \<Rightarrow> price_row list \<Rightarrow> price_row list \<Rightarrow> bool" where
  "sync_fresh p env i [] tab = True"
| "sync_fresh p env i (row # rows) tab \<longleftrightarrow>
     fresh_start p (ux_gonow (env i)) (row\<lparr>pr_ValidFrom := ux_now (env i)\<rparr>) tab \<and>
     sync_fresh p env (Suc i) rows (snd (UpsertPrice p (ux_up (env i)) (ux_dbnow (env i)) (ux_gonow (env i))
       (row\<lparr>pr_ValidFrom := ux_now (env i)\<rparr>) tab))"

lemma UpsertPrice_others:
  assumes "prices_inv tab" "fresh_start p gonow row tab" "UpsertPrice p up dbnow gonow row tab = (res, tab')"
    and "pg_arg p (pr_ModelPrefix row) = Some pre" "pre \<noteq> pre'" "a \<in> set tab" "active_for pre' a"
  shows "a \<in> set tab'"
  using assms(3,1,2)
proof (cases rule: UpsertPrice_cases)
  case (seed pre2 src c)
  with assms(4-7) have "\<not> active_for pre2 a" by (auto simp: active_for_def)
  with seed assms(6) show ?thesis by (force simp: image_iff)
next
  case (change pre2 src c f n)
  with assms(4-7) have "\<not> active_for pre2 a" by (auto simp: active_for_def)
  with change assms(6) show ?thesis by (force simp: image_iff)
qed (use assms(6) in auto)


text \<open>A row priced at its rates is found so, and upserting it again changes nothing.\<close>

lemma priced_again:
  assumes "prices_inv tab" "priced tab row" "pg_arg p (pr_ModelPrefix row) = Some (pr_ModelPrefix row)"
  shows "UpsertPrice p True dbnow gonow (row\<lparr>pr_ValidFrom := f\<rparr>) tab = (Inr False, tab)"
proof -
  obtain a where a: "a \<in> set tab" "active_for (pr_ModelPrefix row) a" "pr_Rate a = pr_Rate row"
    using assms(2) by (auto simp: priced_def)
  then obtain b where b: "find (active_for (pr_ModelPrefix row)) tab = Some b"
    by (metis find_None_iff option.exhaust)
  with a find_active [OF b] assms(1) have "b = a" by (simp add: prices_inv_def active_for_def)
  with a b assms(3) show ?thesis by (simp add: UpsertPrice_def)
qed

lemma sync_again:
  assumes "prices_inv tab" "\<forall>row \<in> set rows. priced tab row \<and> pg_arg p (pr_ModelPrefix row) = Some (pr_ModelPrefix row)"
    and "\<forall>j. ux_up (env j)"
  shows "sync_loop p env i rows changed tab = (changed, tab)"
  using assms(2)
proof (induction rows arbitrary: i)
  case (Cons row rows)
  then show ?case using priced_again [OF assms(1), of row p] assms(3) by simp
qed simp

lemma sync_loop_keeps:
  assumes "prices_inv tab" "sync_fresh p env i rows tab" "distinct (map pr_ModelPrefix rows)"
    and texts: "\<forall>row \<in> set rows. pg_arg p (pr_ModelPrefix row) = Some (pr_ModelPrefix row)"
    and ok: "\<forall>j. \<forall>row \<in> set rows. \<forall>tab. \<exists>ch tab'. UpsertPrice p (ux_up (env j)) (ux_dbnow (env j)) (ux_gonow (env j))
      (row\<lparr>pr_ValidFrom := ux_now (env j)\<rparr>) tab = (Inr ch, tab')"
    and run: "sync_loop p env i rows changed tab = (changed', tab')"
  shows "prices_inv tab' \<and> (\<forall>row \<in> set rows. priced tab' row) \<and>
    (\<forall>pre a. pre \<notin> pr_ModelPrefix ` set rows \<longrightarrow> active_for pre a \<longrightarrow> a \<in> set tab \<longrightarrow> a \<in> set tab')"
  using assms
proof (induction rows arbitrary: i changed tab)
  case (Cons row rows)
  let ?row = "row\<lparr>pr_ValidFrom := ux_now (env i)\<rparr>"
  let ?u = "UpsertPrice p (ux_up (env i)) (ux_dbnow (env i)) (ux_gonow (env i)) ?row tab"
  obtain ch tab1 where u: "?u = (Inr ch, tab1)" using Cons.prems(5) by (meson list.set_intros(1))
  have fresh: "fresh_start p (ux_gonow (env i)) ?row tab" "sync_fresh p env (Suc i) rows tab1"
    using Cons.prems(2) u by simp_all
  have arg: "pg_arg p (pr_ModelPrefix ?row) = Some (pr_ModelPrefix row)" using Cons.prems(4) by simp
  have inv: "prices_inv tab1" using UpsertPrice_inv [OF Cons.prems(1) fresh(1), of "ux_up (env i)" "ux_dbnow (env i)"] u by simp
  have priced1: "\<exists>a \<in> set tab1. active_for (pr_ModelPrefix row) a \<and> pr_Rate a = pr_Rate row"
    using UpsertPrice_active [OF Cons.prems(1) fresh(1) u arg] by simp
  have IH: "prices_inv tab' \<and> (\<forall>row \<in> set rows. priced tab' row) \<and>
      (\<forall>pre a. pre \<notin> pr_ModelPrefix ` set rows \<longrightarrow> active_for pre a \<longrightarrow> a \<in> set tab1 \<longrightarrow> a \<in> set tab')"
    by (rule Cons.IH [OF inv fresh(2)]) (use Cons.prems(3-6) u in auto)
  have "pr_ModelPrefix row \<notin> pr_ModelPrefix ` set rows" using Cons.prems(3) by simp
  with IH priced1 have "priced tab' row" unfolding priced_def by meson
  moreover have "a \<in> set tab1" if "pre \<noteq> pr_ModelPrefix row" "active_for pre a" "a \<in> set tab" for pre a
    using UpsertPrice_others [OF Cons.prems(1) fresh(1) u arg] that by metis
  ultimately show ?case using IH by auto
qed auto


text \<open>The database takes what the rows hold, at the readings of the clocks.\<close>

definition takes_rows :: "pg \<Rightarrow> (nat \<Rightarrow> upsert_env) \<Rightarrow> price_row list \<Rightarrow> bool" where
  "takes_rows p env rows \<longleftrightarrow>
     (\<forall>j. ux_up (env j) \<and> pg_ts p (if is_zero (ux_now (env j)) then ux_gonow (env j) else ux_now (env j)) \<noteq> None) \<and>
     pg_ts p epoch \<noteq> None \<and>
     (\<forall>row \<in> set rows. pg_arg p (pr_ModelPrefix row) = Some (pr_ModelPrefix row) \<and> pg_arg p (pr_Source row) \<noteq> None) \<and>
     pg_arg p ''manual'' \<noteq> None"

lemma upsert_succeeds:
  assumes "takes_rows p env rows" "row \<in> set rows"
  shows "\<exists>ch tab'. UpsertPrice p (ux_up (env j)) (ux_dbnow (env j)) (ux_gonow (env j)) (row\<lparr>pr_ValidFrom := ux_now (env j)\<rparr>) tab = (Inr ch, tab')"
proof -
  have "ux_up (env j)" "pg_ts p (if is_zero (ux_now (env j)) then ux_gonow (env j) else ux_now (env j)) \<noteq> None"
    "pg_ts p epoch \<noteq> None" "pg_arg p (pr_ModelPrefix row) = Some (pr_ModelPrefix row)"
    "pg_arg p (or_default (pr_Source row) ''manual'') \<noteq> None"
    using assms by (auto simp: takes_rows_def or_default_def)
  then show ?thesis by (cases "is_zero (ux_now (env j))") (auto simp: UpsertPrice_def Let_def split: option.split)
qed

text \<open>
  C28. A synchronisation settles the prices: when its fetch gets a table and the database takes its rows,
  every chosen row's rates are those in effect for its model, the price history keeps its
  invariant, and another synchronisation that gets the same table reports no change and makes
  none.
\<close>

theorem sync_converges:
  assumes "prices_inv tab" and "fst (fetchPriceJSONWithRetry (or_default url DefaultPriceSourceURL) fenv) = Fetched raw"
    and "takes_rows p env (selectPriceRows raw)" "sync_fresh p env 0 (selectPriceRows raw) tab"
    and "SyncPrices p fenv env url tab = (res, tab')"
    and "fst (fetchPriceJSONWithRetry (or_default url DefaultPriceSourceURL) fenv') = Fetched raw" "\<forall>j. ux_up (env' j)"
  shows "prices_inv tab' \<and> (\<exists>changed. res = Inr (int (length (selectPriceRows raw)), changed)) \<and>
    (\<forall>row \<in> set (selectPriceRows raw). \<exists>a. find (active_for (pr_ModelPrefix row)) tab' = Some a \<and> pr_Rate a = pr_Rate row) \<and>
    SyncPrices p fenv' env' url tab' = (Inr (int (length (selectPriceRows raw)), 0), tab')"
proof -
  let ?rows = "selectPriceRows raw"
  have sync: "SyncPrices p fe ue url t = (case sync_loop p ue 0 ?rows 0 t of (ch, t') \<Rightarrow> (Inr (int (length ?rows), ch), t'))"
    if "fst (fetchPriceJSONWithRetry (or_default url DefaultPriceSourceURL) fe) = Fetched raw" for fe ue t
    using that by (auto simp: SyncPrices_def split: prod.splits)
  obtain ch where run: "sync_loop p env 0 ?rows 0 tab = (ch, tab')" and res: "res = Inr (int (length ?rows), ch)"
    using assms(5) sync [OF assms(2)] by (auto split: prod.splits)
  have texts: "\<forall>row \<in> set ?rows. pg_arg p (pr_ModelPrefix row) = Some (pr_ModelPrefix row)"
    using assms(3) by (simp add: takes_rows_def)
  have "distinct (map pr_ModelPrefix ?rows)"
    using choose_candidate_inv [of "sort_key fst raw"] unfolding selectPriceRows_def rows_prefixes by (simp add: distinct_map)
  from sync_loop_keeps [OF assms(1,4) this texts _ run] upsert_succeeds [OF assms(3)]
  have after: "prices_inv tab'" "\<forall>row \<in> set ?rows. priced tab' row" by blast+
  have "\<exists>a. find (active_for (pr_ModelPrefix row)) tab' = Some a \<and> pr_Rate a = pr_Rate row" if row: "row \<in> set ?rows" for row
  proof -
    obtain a where a: "a \<in> set tab'" "active_for (pr_ModelPrefix row) a" "pr_Rate a = pr_Rate row"
      using after(2) row by (auto simp: priced_def)
    then obtain b where b: "find (active_for (pr_ModelPrefix row)) tab' = Some b"
      by (metis find_None_iff option.exhaust)
    with a find_active [OF b] after(1) have "b = a" by (simp add: prices_inv_def active_for_def)
    with a b show ?thesis by simp
  qed
  moreover have "sync_loop p env' 0 ?rows 0 tab' = (0, tab')"
    by (rule sync_again [OF after(1) _ assms(7)]) (use after(2) texts in blast)
  ultimately show ?thesis using after(1) res sync [OF assms(6)] by auto
qed


definition sample_prices_json :: string where
  "sample_prices_json = jq (''{~gpt-4o~:{~input_cost_per_token~:2.5e-06,~output_cost_per_token~:1E-5,~mode~:~chat~},'' @
     ''~dall-e~:{~mode~:~image_generation~}}'')"

definition sample_fetch :: "nat \<Rightarrow> attempt_env" where
  "sample_fetch k = \<lparr>ay_cancelled = False, ay_fetch = HttpReply 200 sample_prices_json True, ay_wait_cancelled = False\<rparr>"

definition sample_clock :: "gotime \<Rightarrow> nat \<Rightarrow> upsert_env" where
  "sample_clock t j = \<lparr>ux_up = True, ux_dbnow = t, ux_now = t, ux_gonow = t\<rparr>"

theorem sync_converges_witness:
  "\<exists>tab'. snd (SyncPrices plain_pg sample_fetch (sample_clock 9) [] [sample_row ''gpt-4o'' epoch 1 ''litellm:x'']) = tab' \<and>
     map (\<lambda>r. (pr_ValidTo r, rt_Input (pr_Rate r))) tab' = [(Some 9, 1), (None, 5 / 2)] \<and>
     SyncPrices plain_pg sample_fetch (sample_clock 11) [] tab' = (Inr (1, 0), tab')"
proof -
  let ?tab = "[sample_row ''gpt-4o'' epoch 1 ''litellm:x'']"
  let ?s = "SyncPrices plain_pg sample_fetch (sample_clock 9) [] ?tab"
  define raw where "raw = (case fetchPriceJSONOnce DefaultPriceSourceURL (HttpReply 200 sample_prices_json True) of (Inr t, _) \<Rightarrow> t)"
  have rows: "map (\<lambda>r. (pr_ModelPrefix r, pr_Source r, rt_Input (pr_Rate r))) (selectPriceRows raw) = [(''gpt-4o'', ''litellm:gpt-4o'', 5 / 2)]"
    and "case fetchPriceJSONOnce DefaultPriceSourceURL (HttpReply 200 sample_prices_json True) of (Inr t, b) \<Rightarrow> \<not> b | _ \<Rightarrow> False"
    unfolding raw_def by code_simp+
  then have once: "fetchPriceJSONOnce DefaultPriceSourceURL (HttpReply 200 sample_prices_json True) = (Inr raw, False)"
    by (auto simp: raw_def split: prod.splits sum.splits)
  obtain row where row: "selectPriceRows raw = [row]" "pr_ModelPrefix row = ''gpt-4o''" "pr_Source row = ''litellm:gpt-4o''"
    "rt_Input (pr_Rate row) = 5 / 2" using rows by auto
  have f: "fst (fetchPriceJSONWithRetry (or_default [] DefaultPriceSourceURL) sample_fetch) = Fetched raw"
    using once by (auto simp: fetchPriceJSONWithRetry_def or_default_def fetch_loop.simps [of _ _ "Suc 0"] PriceSyncMaxAttempts_def sample_fetch_def)
  have inv: "prices_inv ?tab" by (simp add: prices_inv_def sample_row_def active_for_def)
  have nz: "\<not> is_zero 9" by code_simp
  have ne: "mk_rate 1 1 1 1 1 \<noteq> pr_Rate row"
  proof
    assume "mk_rate 1 1 1 1 1 = pr_Rate row"
    then have "rt_Input (mk_rate 1 1 1 1 1) = 5 / 2" using row(4) by simp
    then show False by (simp add: mk_rate_def)
  qed
  have "takes_rows plain_pg (sample_clock 9) (selectPriceRows raw)"
    by (simp add: takes_rows_def row plain_pg_def sample_clock_def)
  moreover have "sync_fresh plain_pg (sample_clock 9) 0 (selectPriceRows raw) ?tab"
    by (simp add: row fresh_start_def plain_pg_def sample_clock_def nz sample_row_def epoch_def date_utc_def days_from_civil_def)
  moreover have "?s = (fst ?s, snd ?s)" by simp
  ultimately have "SyncPrices plain_pg sample_fetch (sample_clock 11) [] (snd ?s) = (Inr (int (length (selectPriceRows raw)), 0), snd ?s)"
    using sync_converges [OF inv f _ _ _ f, of plain_pg "sample_clock 9" "fst ?s" "snd ?s" "sample_clock 11"]
    by (simp add: sample_clock_def)
  moreover have "map (\<lambda>r. (pr_ValidTo r, rt_Input (pr_Rate r))) (snd ?s) = [(Some 9, 1), (None, 5 / 2)]"
    using f row nz ne by (auto simp: SyncPrices_def UpsertPrice_def plain_pg_def sample_clock_def sample_row_def active_for_def
        put_price_def pr_key_def mk_rate_def epoch_def date_utc_def days_from_civil_def or_default_def split: prod.split)
  ultimately show ?thesis using row(1) by simp
qed

end
