(* ===== verification/Worker.thy ===== *)
theory Worker
  imports Repair PriceSync Api
begin

text \<open>
  The server as a whole: how it starts (\<open>runServer\<close> of \<open>cmd/server/main.go\<close> and \<open>NewStore\<close>
  of \<open>server/store.go\<close>), its background loops (\<open>server/worker.go\<close>), and the events that
  change its tables while it runs: requests, passes of the loops and administration commands.
\<close>

section \<open>Starting\<close>

text \<open>
  \<open>NewStore\<close>: the connection, its ping, and the schema, executed as one transaction; the
  only statement of it that touches rows is the bootstrap of the daily table.
\<close>

definition NewStore :: "bool \<Rightarrow> server_state \<Rightarrow> bool \<times> server_state" where
  "NewStore up st =
     (if \<not> up then (False, st)
      else (case bootstrap_daily (sv_Usage st) of
         None \<Rightarrow> (False, st)
       | Some u \<Rightarrow> (True, st\<lparr>sv_Usage := u\<rparr>)))"

record worker =
  wk_TodayEvery :: duration
  wk_DeepHour :: int
  wk_DeepDays :: int
  wk_PriceEvery :: duration
  wk_PriceSource :: string

datatype worker_loop = TodayLoop | DeepLoop | PriceLoop

definition Start :: "worker \<Rightarrow> worker_loop list" where
  "Start w =
     (if 0 < wk_TodayEvery w then [TodayLoop] else []) @
     (if 0 \<le> wk_DeepHour w \<and> wk_DeepHour w \<le> 23 \<and> 0 < wk_DeepDays w then [DeepLoop] else []) @
     (if 0 < wk_PriceEvery w then [PriceLoop] else [])"

datatype start_error = StoreFailed | PricerFailed

text \<open>Up to the point where the listener is opened; a failed seed is only logged.\<close>

definition runServer ::
    "bool \<Rightarrow> bool \<Rightarrow> (string \<times> rate) list option option \<Rightarrow> worker \<Rightarrow> server_state \<Rightarrow>
     (start_error + pricer \<times> worker_loop list) \<times> server_state" where
  "runServer up seedUp pricing w st =
     (case NewStore up st of
        (False, _) \<Rightarrow> (Inl StoreFailed, st)
      | (True, st1) \<Rightarrow>
          (case NewPricer pricing of
             None \<Rightarrow> (Inl PricerFailed, st1)
           | Some pr \<Rightarrow>
               (Inr (pr, Start w), st1\<lparr>sv_Prices := snd (SeedDefaultPrices seedUp defaultRates (sv_Prices st1))\<rparr>)))"

section \<open>The loops\<close>

definition utcDay :: "gotime \<Rightarrow> gotime" where
  "utcDay t = day_start t"

text \<open>\<open>time.AddDate\<close> of days to a UTC time.\<close>

definition add_days :: "int \<Rightarrow> gotime \<Rightarrow> gotime" where
  "add_days n t = t + n * day_ns"

text \<open>One pass each: whether the database answers, and the clock.\<close>

definition rebuildToday :: "bool \<Rightarrow> gotime \<Rightarrow> usage_tables \<Rightarrow> (db_error + int) \<times> usage_tables" where
  "rebuildToday up now u = (let today = utcDay now in RebuildDaily up today today u)"

definition rebuildDeep :: "worker \<Rightarrow> bool \<Rightarrow> gotime \<Rightarrow> usage_tables \<Rightarrow> (db_error + int) \<times> usage_tables" where
  "rebuildDeep w up now u =
     (let today = utcDay now; fro = add_days (- (wk_DeepDays w - 1)) today in RebuildDaily up fro today u)"

definition syncPrices ::
    "worker \<Rightarrow> pg \<Rightarrow> (nat \<Rightarrow> attempt_env) \<Rightarrow> (nat \<Rightarrow> upsert_env) \<Rightarrow> price_row list \<Rightarrow> price_row list" where
  "syncPrices w p fenv uenv tab = snd (SyncPrices p fenv uenv (wk_PriceSource w) tab)"

text \<open>
  \<open>nextLocalHour\<close> in a zone of a fixed offset: today's \<open>hour:00\<close> by the wall clock, or
  tomorrow's when that is not in the future.
\<close>

definition nextLocalHour :: "duration \<Rightarrow> int \<Rightarrow> gotime \<Rightarrow> gotime" where
  "nextLocalHour off hour now =
     (let t = day_start (now + off) + hour * 3600 * ns_per_sec - off
      in if now < t then t else t + day_ns)"

text \<open>What wakes a loop: its timer, or the end of the context.\<close>

datatype 'a wake = Woke 'a | CtxDone

text \<open>The passes a loop makes: those before its context ends.\<close>

fun passes :: "('a \<Rightarrow> 's \<Rightarrow> 's) \<Rightarrow> 'a wake list \<Rightarrow> 's \<Rightarrow> 's" where
  "passes f [] s = s"
| "passes f (CtxDone # ws) s = s"
| "passes f (Woke a # ws) s = passes f ws (f a s)"

text \<open>The first two loops make a pass at once, the deep one only when its hour comes.\<close>

definition todayLoop :: "bool \<times> gotime \<Rightarrow> (bool \<times> gotime) wake list \<Rightarrow> usage_tables \<Rightarrow> usage_tables" where
  "todayLoop first ws u =
     (let pass = (\<lambda>(up, now) u. snd (rebuildToday up now u)) in passes pass ws (pass first u))"

definition deepLoop :: "worker \<Rightarrow> (bool \<times> gotime) wake list \<Rightarrow> usage_tables \<Rightarrow> usage_tables" where
  "deepLoop w ws u = passes (\<lambda>(up, now) u. snd (rebuildDeep w up now u)) ws u"

definition priceLoop ::
    "worker \<Rightarrow> pg \<Rightarrow> (nat \<Rightarrow> attempt_env) \<times> (nat \<Rightarrow> upsert_env) \<Rightarrow>
     ((nat \<Rightarrow> attempt_env) \<times> (nat \<Rightarrow> upsert_env)) wake list \<Rightarrow> price_row list \<Rightarrow> price_row list" where
  "priceLoop w p first ws tab =
     (let pass = (\<lambda>(fenv, uenv) tab. syncPrices w p fenv uenv tab) in passes pass ws (pass first tab))"

section \<open>Events\<close>

text \<open>
  What can happen to the tables of a running server, one transaction or handler at a time:
  the loops and the handlers run concurrently, and any interleaving of their steps is a list
  of these.
\<close>

datatype server_event =
    Restarted bool bool "(string \<times> rate) list option option"
  | Request req_env http_request
  | TodayPass bool gotime
  | DeepPass bool gotime
  | PricePass "nat \<Rightarrow> attempt_env" "nat \<Rightarrow> upsert_env"
  | KeyAdmin auth_op
  | CodexRepair bool bool string string "usage_record list" bool

fun server_step :: "pg \<Rightarrow> worker \<Rightarrow> pricer \<Rightarrow> server_event \<Rightarrow> server_state \<Rightarrow> server_state" where
  "server_step p w pr (Restarted up seedUp pricing) st = snd (runServer up seedUp pricing w st)"
| "server_step p w pr (Request e r) st = snd (serve e pr r st)"
| "server_step p w pr (TodayPass up now) st = st\<lparr>sv_Usage := snd (rebuildToday up now (sv_Usage st))\<rparr>"
| "server_step p w pr (DeepPass up now) st = st\<lparr>sv_Usage := snd (rebuildDeep w up now (sv_Usage st))\<rparr>"
| "server_step p w pr (PricePass fenv uenv) st = st\<lparr>sv_Prices := syncPrices w p fenv uenv (sv_Prices st)\<rparr>"
| "server_step p w pr (KeyAdmin op) st = st\<lparr>sv_Auth := auth_step p (sv_Auth st) op\<rparr>"
| "server_step p w pr (CodexRepair upRead upApply user machine recs apply_it) st =
     st\<lparr>sv_Usage := snd (RepairCodexUsage p upRead upApply user machine recs apply_it (sv_Usage st))\<rparr>"

definition server_run :: "pg \<Rightarrow> worker \<Rightarrow> pricer \<Rightarrow> server_event list \<Rightarrow> server_state \<Rightarrow> server_state" where
  "server_run p w pr evs st = fold (server_step p w pr) evs st"

text \<open>
  The loops are runs of events: each pass of a loop is its event, and the passes after its
  context ended do not happen.
\<close>

fun woken :: "'a wake list \<Rightarrow> 'a list" where
  "woken [] = []"
| "woken (CtxDone # ws) = []"
| "woken (Woke a # ws) = a # woken ws"

lemma passes_fold: "passes f ws s = fold f (woken ws) s"
  by (induction f ws s rule: passes.induct) simp_all

lemma run_usage_passes:
  assumes "\<And>a st. server_step p w pr (ev a) st = st\<lparr>sv_Usage := f a (sv_Usage st)\<rparr>"
  shows "server_run p w pr (map ev xs) st = st\<lparr>sv_Usage := fold f xs (sv_Usage st)\<rparr>"
  by (induction xs arbitrary: st) (simp_all add: server_run_def assms)

lemma today_loop_events:
  "server_run p w pr (map (\<lambda>(up, now). TodayPass up now) (first # woken ws)) st = st\<lparr>sv_Usage := todayLoop first ws (sv_Usage st)\<rparr>"
proof -
  have "server_run p w pr (map (\<lambda>(up, now). TodayPass up now) xs) st =
      st\<lparr>sv_Usage := fold (\<lambda>(up, now) u. snd (rebuildToday up now u)) xs (sv_Usage st)\<rparr>" for xs
    by (rule run_usage_passes) (auto split: prod.split)
  from this [of "first # woken ws"] show ?thesis by (simp add: todayLoop_def passes_fold Let_def)
qed

lemma deep_loop_events:
  "server_run p w pr (map (\<lambda>(up, now). DeepPass up now) (woken ws)) st = st\<lparr>sv_Usage := deepLoop w ws (sv_Usage st)\<rparr>"
  unfolding deepLoop_def passes_fold by (rule run_usage_passes) (auto split: prod.split)

lemma price_loop_events:
  "server_run p w pr (map (\<lambda>(fenv, uenv). PricePass fenv uenv) (first # woken ws)) st =
   st\<lparr>sv_Prices := priceLoop w p first ws (sv_Prices st)\<rparr>"
proof -
  have "server_run p w pr (map (\<lambda>(fenv, uenv). PricePass fenv uenv) xs) st =
      st\<lparr>sv_Prices := fold (\<lambda>(fenv, uenv). syncPrices w p fenv uenv) xs (sv_Prices st)\<rparr>" for xs
    by (induction xs arbitrary: st) (auto simp: server_run_def)
  from this [of "first # woken ws"] show ?thesis
    by (simp add: priceLoop_def passes_fold case_prod_beta' split: prod.split)
qed

text \<open>The override file reaches the in-memory prices only: the price table does not depend on it.\<close>

lemma override_not_in_table:
  "snd (runServer up seedUp (Some (Some custom)) w st) = snd (runServer up seedUp None w st)"
  by (simp add: runServer_def NewPricer_def split: prod.split bool.split)

text \<open>
  A request for the dashboard's page is answered 200 whatever its method, key and body, and
  stores nothing; a watcher whose endpoint lacks the path takes that for an acknowledgement.
\<close>

lemma dashboard_acknowledges:
  "rq_Path r = ''/'' \<Longrightarrow> serve e pr r st = (http_ok IndexPage, st)"
  by (simp add: serve_def webHandler_def)

section \<open>The hour of the deep rebuild\<close>

lemma day_start_bounds: "day_start t \<le> t" "t < day_start t + day_ns"
proof -
  have "t div day_ns * day_ns + t mod day_ns = t" by simp
  moreover have "0 \<le> t mod day_ns" "t mod day_ns < day_ns" by (simp_all add: day_ns_def)
  ultimately show "day_start t \<le> t" "t < day_start t + day_ns"
    unfolding day_start_def utc_day_no_def by linarith+
qed

lemma nextLocalHour_bounds:
  assumes "0 \<le> hour" "hour \<le> 23"
  shows "now < nextLocalHour off hour now" "nextLocalHour off hour now \<le> now + day_ns"
    "(nextLocalHour off hour now + off) mod day_ns = hour * 3600 * ns_per_sec"
proof -
  let ?h = "hour * 3600 * ns_per_sec"
  have h: "0 \<le> ?h" "?h < day_ns" using assms by (simp_all add: day_ns_def)
  from day_start_bounds [of "now + off"] h
  show "now < nextLocalHour off hour now" "nextLocalHour off hour now \<le> now + day_ns"
    unfolding nextLocalHour_def Let_def by auto
  have "(k * day_ns + ?h) mod day_ns = ?h" for k using h by (simp add: mod_pos_pos_trivial)
  note m = this
  from m [of "utc_day_no (now + off)"] m [of "utc_day_no (now + off) + 1"]
  show "(nextLocalHour off hour now + off) mod day_ns = ?h"
    by (simp add: nextLocalHour_def Let_def day_start_def algebra_simps)
qed

lemma rebuild_days:
  assumes "RebuildDaily up fro til (detail, daily) = (Inr n, (detail', daily'))"
    and "utc_day_no fro \<le> day" "day \<le> utc_day_no til"
  shows "detail' = detail \<and> map_of daily' (day, rest) = map_of (group_rows usage_plus usage_proj detail) (day, rest)"
proof -
  have tx: "rebuildDailyTx fro til (detail, daily) = Some (n, detail', daily')"
    using assms(1) by (auto simp: RebuildDaily_def split: if_splits option.splits)
  from rebuild_lookup(1) [OF tx] rebuild_lookup(2) [OF tx, of "(day, rest)"] assms(2,3) show ?thesis by (simp add: in_days_def)
qed

text \<open>
  The timer of the deep loop, over its iterations: \<open>asked i\<close> is the clock reading from which the
  next hour is computed, \<open>pass i\<close> the reading in the pass it leads to. A timer never fires
  early; firing late and the passes themselves take at most \<open>slack\<close>.
\<close>

definition deep_timer :: "duration \<Rightarrow> int \<Rightarrow> duration \<Rightarrow> (nat \<Rightarrow> gotime) \<Rightarrow> (nat \<Rightarrow> gotime) \<Rightarrow> bool" where
  "deep_timer off hour slack asked pass \<longleftrightarrow>
     (\<forall>i. nextLocalHour off hour (asked i) \<le> pass i \<and> pass i \<le> nextLocalHour off hour (asked i) + slack \<and>
          pass i \<le> asked (Suc i) \<and> asked (Suc i) \<le> pass i + slack)"

lemma deep_timer_gap:
  assumes "deep_timer off hour slack asked pass" "0 \<le> hour" "hour \<le> 23"
  shows "pass i < pass (Suc i)" "pass (Suc i) \<le> pass i + day_ns + 2 * slack"
proof -
  note t = assms(1) [unfolded deep_timer_def, rule_format, of i] assms(1) [unfolded deep_timer_def, rule_format, of "Suc i"]
  from nextLocalHour_bounds(1,2) [OF assms(2,3), where now = "asked (Suc i)" and off = off] t
  show "pass i < pass (Suc i)" "pass (Suc i) \<le> pass i + day_ns + 2 * slack" by linarith+
qed

lemma first_pass_after:
  fixes pass :: "nat \<Rightarrow> gotime"
  assumes "\<And>i. pass i < pass (Suc i)" "pass 0 < t"
  shows "\<exists>i. pass i < t \<and> t \<le> pass (Suc i)"
proof -
  have "pass 0 + int i \<le> pass i" for i
  proof (induction i)
    case (Suc i)
    with assms(1) [of i] show ?case by simp
  qed simp
  from this [of "nat (t - pass 0)"] assms(2) have "t \<le> pass (nat (t - pass 0))" by simp
  then have "\<exists>j. t \<le> pass j" by blast
  then obtain j where j: "t \<le> pass j" "\<And>k. k < j \<Longrightarrow> \<not> t \<le> pass k"
    using exists_least_iff [of "\<lambda>j. t \<le> pass j"] by blast
  with assms(2) obtain i where "j = Suc i" by (cases j) auto
  with j show ?thesis by (meson lessI not_le)
qed

lemma utc_day_le: "utc_day_no t \<le> d \<longleftrightarrow> t < (d + 1) * day_ns"
proof -
  have "0 < day_ns" by (simp add: day_ns_def)
  from le_div_iff_mult_le [OF this, of "d + 1" t] show ?thesis by (auto simp: utc_day_no_def)
qed

lemma le_utc_day: "d \<le> utc_day_no t \<longleftrightarrow> d * day_ns \<le> t"
  using utc_day_le [of t "d - 1"] by auto

text \<open>
  C27. The deep loop settles every day after it has ended: when the timer's delay and the pass
  together stay below the margin that the configured number of days leaves, then for every
  UTC day still open at the first pass there is a pass, after the day's end, that when the
  database answers leaves exactly the day's groups of the detail table, whatever the daily
  table held before.
\<close>

theorem closed_days_rebuilt:
  assumes "deep_timer off (wk_DeepHour w) slack asked pass" "DeepLoop \<in> set (Start w)"
    and "day_ns + 2 * slack \<le> (wk_DeepDays w - 1) * day_ns"
    and "pass 0 < (day + 1) * day_ns"
  shows "\<exists>i. (day + 1) * day_ns \<le> pass i \<and>
    (\<forall>up detail daily n detail' daily' rest.
       rebuildDeep w up (pass i) (detail, daily) = (Inr n, detail', daily') \<longrightarrow>
       detail' = detail \<and> map_of daily' (day, rest) = map_of (group_rows usage_plus usage_proj detail) (day, rest))"
proof -
  have hour: "0 \<le> wk_DeepHour w" "wk_DeepHour w \<le> 23" using assms(2) by (auto simp: Start_def split: if_splits)
  note gap = deep_timer_gap [OF assms(1) hour]
  obtain i where i: "pass i < (day + 1) * day_ns" "(day + 1) * day_ns \<le> pass (Suc i)"
    using first_pass_after [OF gap(1) assms(4)] by blast
  have "pass (Suc i) < (day + wk_DeepDays w) * day_ns"
    using gap(2) [of i] i(1) assms(3) by (simp add: algebra_simps)
  then have last: "utc_day_no (pass (Suc i)) \<le> day + (wk_DeepDays w - 1)"
    using utc_day_le [of "pass (Suc i)" "day + (wk_DeepDays w - 1)"] by (simp add: algebra_simps)
  have later: "day \<le> utc_day_no (pass (Suc i))"
    using i(2) le_utc_day [of day "pass (Suc i)"] by (simp add: algebra_simps day_ns_def)
  have "detail' = detail \<and> map_of daily' (day, rest) = map_of (group_rows usage_plus usage_proj detail) (day, rest)"
    if "rebuildDeep w up (pass (Suc i)) (detail, daily) = (Inr n, detail', daily')" for up detail daily n detail' daily' rest
  proof -
    let ?today = "utcDay (pass (Suc i))"
    have "RebuildDaily up (add_days (- (wk_DeepDays w - 1)) ?today) ?today (detail, daily) = (Inr n, detail', daily')"
      using that by (simp add: rebuildDeep_def Let_def)
    moreover have "utc_day_no (add_days (- (wk_DeepDays w - 1)) ?today) \<le> day"
      using last by (simp add: utc_day_le add_days_def utcDay_def day_start_def algebra_simps day_ns_def)
    ultimately show ?thesis
      using rebuild_days [of up _ ?today detail daily n detail' daily' day rest] later by (simp add: utcDay_def)
  qed
  with i(2) show ?thesis by blast
qed

section \<open>What every event keeps\<close>

text \<open>A stored message stays under its ids; only a repair may change it, and only its counters.\<close>

definition same_message :: "usage_row \<Rightarrow> usage_row \<Rightarrow> bool" where
  "same_message r r' \<longleftrightarrow> (\<exists>c. r' = set_counters r c)"

definition usage_kept :: "usage_tables \<Rightarrow> usage_tables \<Rightarrow> bool" where
  "usage_kept u u' \<longleftrightarrow> (\<forall>k r. map_of (fst u) k = Some r \<longrightarrow> (\<exists>r'. map_of (fst u') k = Some r' \<and> same_message r r'))"

definition edits_kept :: "edit_tables \<Rightarrow> edit_tables \<Rightarrow> bool" where
  "edits_kept t t' \<longleftrightarrow> (\<forall>k r. map_of (fst t) k = Some r \<longrightarrow> map_of (fst t') k = Some r)"

lemma set_counters_again: "set_counters (set_counters r c) c' = set_counters r c'"
  by (simp add: set_counters_def)

lemma set_counters_same: "set_counters r (row_counters r) = r"
  by (simp add: set_counters_def row_counters_def)

lemma same_message_refl [intro, simp]: "same_message r r"
  unfolding same_message_def using set_counters_same [of r] by metis

lemma same_message_set: "same_message r (set_counters r c)"
  by (auto simp: same_message_def)

lemma same_message_trans: "same_message a b \<Longrightarrow> same_message b c \<Longrightarrow> same_message a c"
  by (auto simp: same_message_def set_counters_again)

lemma usage_kept_refl [intro, simp]: "usage_kept u u"
  by (auto simp: usage_kept_def)

lemma usage_kept_trans: "usage_kept u v \<Longrightarrow> usage_kept v w \<Longrightarrow> usage_kept u w"
  unfolding usage_kept_def using same_message_trans by blast

lemma usage_kept_same: "fst u' = fst u \<Longrightarrow> usage_kept u u'"
  by (auto simp: usage_kept_def)

lemma edits_kept_refl [intro, simp]: "edits_kept t t"
  by (simp add: edits_kept_def)

lemma edits_kept_trans: "edits_kept t u \<Longrightarrow> edits_kept u v \<Longrightarrow> edits_kept t v"
  by (simp add: edits_kept_def)

lemma ingest_detail_keeps:
  assumes "ingest_rows add fits proj rows tabs = Some (n, tabs')" "map_of (fst tabs) k = Some r"
  shows "map_of (fst tabs') k = Some r"
  using ingest_lookup(1) [of add fits proj rows "fst tabs" "snd tabs" n "fst tabs'" "snd tabs'" k] assms by simp

lemma Insert_keeps_rows: "usage_kept tabs (snd (Insert p up m u recs tabs))"
proof -
  have "Insert p up m u recs tabs = (fst (Insert p up m u recs tabs), snd (Insert p up m u recs tabs))" by simp
  then show ?thesis
  proof (cases rule: Insert_cases)
    case (stored rows n)
    from ingest_detail_keeps [OF stored(4)] show ?thesis by (auto simp: usage_kept_def)
  qed auto
qed

lemma InsertEdits_keeps_rows: "edits_kept tabs (snd (InsertEdits p up m u recs tabs))"
proof -
  have "InsertEdits p up m u recs tabs = (fst (InsertEdits p up m u recs tabs), snd (InsertEdits p up m u recs tabs))" by simp
  then show ?thesis
  proof (cases rule: InsertEdits_cases)
    case (stored rows n)
    from ingest_detail_keeps [OF stored(4)] show ?thesis by (auto simp: edits_kept_def)
  qed auto
qed

lemma serve_keeps_rows:
  "usage_kept (sv_Usage st) (sv_Usage (snd (serve e pr r st))) \<and> edits_kept (sv_Edits st) (sv_Edits (snd (serve e pr r st)))"
proof -
  obtain rs st' where h: "handleIngest e r st = (rs, st')" by (meson surj_pair)
  have "usage_kept (sv_Usage st) (sv_Usage st') \<and> edits_kept (sv_Edits st) (sv_Edits st')" using h
  proof (cases rule: handleIngest_cases)
    case (processed u auth' q)
    from processed(4) show ?thesis
    proof (cases rule: store_request_cases)
      case (half n ut err et)
      with Insert_keeps_rows [of "sv_Usage st" "en_pg e" "en_usageUp e" "iq_MachineID q" u "iq_Records q"]
      show ?thesis by simp
    next
      case (stored n ut m et)
      with Insert_keeps_rows [of "sv_Usage st" "en_pg e" "en_usageUp e" "iq_MachineID q" u "iq_Records q"]
        InsertEdits_keeps_rows [of "sv_Edits st" "en_pg e" "en_editsUp e" "iq_MachineID q" u "iq_Edits q"]
      show ?thesis by simp
    qed simp_all
  qed simp
  with h show ?thesis by (simp add: serve_def)
qed

lemma serve_inv:
  assumes "server_inv st"
  shows "server_inv (snd (serve e pricer r st))"
proof -
  obtain rs st' where h: "handleIngest e r st = (rs, st')" by force
  have "server_inv st'" using h
  proof (cases rule: handleIngest_cases)
    case refused
    with assms auth_inv_resolve_of show ?thesis by (auto simp: server_inv_def)
  next
    case (processed u auth' q)
    have "server_inv (st\<lparr>sv_Auth := auth'\<rparr>)"
      using assms auth_inv_resolve_of [of st e r] processed(1) by (auto simp: server_inv_def)
    then show ?thesis by (rule store_request_inv [OF _ processed(4)])
  qed
  with h assms show ?thesis by (simp add: serve_def)
qed

lemma RebuildDaily_inv:
  assumes "usage_consistent u"
  shows "usage_consistent (snd (RebuildDaily up f l u)) \<and> usage_kept u (snd (RebuildDaily up f l u))"
proof (cases "up \<and> rebuildDailyTx f l u \<noteq> None")
  case True
  obtain detail daily where u: "u = (detail, daily)" by (meson surj_pair)
  from True u obtain n detail' daily' where tx: "rebuildDailyTx f l (detail, daily) = Some (n, detail', daily')" by auto
  note lk = rebuild_lookup [OF tx]
  have "map_of daily' = map_of daily" using assms u lk(2) by (auto simp: fun_eq_iff rolled_up_def)
  then have "usage_consistent (detail', daily')" using assms u lk(1,3) by (simp add: rolled_up_def)
  then show ?thesis using True u tx lk(1) usage_kept_same by (simp add: RebuildDaily_def)
next
  case False
  then show ?thesis using assms by (auto simp: RebuildDaily_def split: option.split)
qed

lemma repair_row_kept:
  assumes "map_of d k = Some r"
  shows "\<exists>r'. map_of (map (update_codex u m stg) d) k = Some r' \<and> same_message r r'"
  using assms
proof (induction d)
  case (Cons x d)
  obtain k0 r0 where x: "x = (k0, r0)" by (meson surj_pair)
  have "same_message r0 (snd (update_codex u m stg x))"
    by (auto simp: x update_codex_def same_message_set split: option.split)
  moreover have "update_codex u m stg x = (k0, snd (update_codex u m stg x))"
    using update_codex_fst [of u m stg x] x by (metis fst_conv prod.collapse)
  ultimately show ?case using Cons x by (auto split: if_splits)
qed simp

lemma Repair_inv:
  assumes "usage_consistent tabs"
  shows "usage_consistent (snd (RepairCodexUsage p ur ua user machine recs ap tabs)) \<and>
    usage_kept tabs (snd (RepairCodexUsage p ur ua user machine recs ap tabs))"
proof -
  obtain stats err tabs' where r: "RepairCodexUsage p ur ua user machine recs ap tabs = ((stats, err), tabs')"
    by (metis surj_pair)
  then show ?thesis
  proof (cases rule: RepairCodexUsage_cases)
    case kept
    with assms r show ?thesis by simp
  next
    case (applied u m stg s f t)
    have ap: "applyCodexRepair u m stg f t (fst tabs, snd tabs) = Some (fst tabs', snd tabs')" using applied by simp
    from apply_repair [OF _ applied(7,9,10) ap] assms
    have "fst tabs' = map (update_codex u m stg) (fst tabs)" "usage_consistent (fst tabs', snd tabs')" by auto
    with r repair_row_kept show ?thesis unfolding usage_kept_def by (metis prod.collapse snd_conv)
  qed
qed

lemma bootstrap_inv:
  assumes "usage_consistent u" "bootstrap_daily u = Some u'"
  shows "usage_consistent u' \<and> fst u' = fst u"
proof (cases "snd u = []")
  case True
  with assms bootstrap_consistent [of "fst u" u'] show ?thesis
    by (cases u) (auto simp: rolled_up_def bootstrap_daily_def Let_def split: if_splits)
next
  case False
  with assms show ?thesis by (cases u) (auto simp: bootstrap_daily_def)
qed

lemma seed_list:
  assumes "distinct (map fst ds)"
  shows "snd (SeedDefaultPrices True ds []) = map seed_row ds"
proof -
  have "distinct (map fst ds) \<Longrightarrow> foldl (\<lambda>t d. if list_ex (\<lambda>r. pr_key r = pr_key (seed_row d)) t then t else t @ [seed_row d]) [] ds =
      map seed_row ds" for ds
    by (induction ds rule: rev_induct)
      (auto simp: list_ex_iff seed_row_def pr_key_def rev_image_eqI split: prod.splits if_splits)
  with assms show ?thesis by (simp add: SeedDefaultPrices_def)
qed

lemma seed_inv:
  assumes "prices_inv tab" "distinct (map fst ds)"
  shows "prices_inv (snd (SeedDefaultPrices up ds tab))"
proof (cases "up \<and> tab = []")
  case True
  have key: "pr_key (seed_row d) = (fst d, epoch)" and pre: "pr_ModelPrefix (seed_row d) = fst d"
    and act: "active_for p (seed_row d) \<longleftrightarrow> fst d = p" for d p
    by (cases d; simp add: seed_row_def pr_key_def active_for_def)+
  have inj: "seed_row a = seed_row b" if "a \<in> set ds" "b \<in> set ds" "fst a = fst b" for a b
    using that assms(2) by (metis distinct_map inj_onD)
  have "distinct (map pr_key (map seed_row ds))"
    using assms(2) by (auto simp: distinct_map inj_on_def key)
  moreover have "\<forall>r \<in> set (map seed_row ds). \<exists>a \<in> set (map seed_row ds). active_for (pr_ModelPrefix r) a"
    using act pre by (simp; blast)
  moreover have "\<forall>a \<in> set (map seed_row ds). \<forall>b \<in> set (map seed_row ds). pr_ModelPrefix a = pr_ModelPrefix b \<longrightarrow> a = b"
  proof (intro ballI impI)
    fix a b
    assume ab: "a \<in> set (map seed_row ds)" "b \<in> set (map seed_row ds)" "pr_ModelPrefix a = pr_ModelPrefix b"
    then obtain a' b' where "a = seed_row a'" "b = seed_row b'" "a' \<in> set ds" "b' \<in> set ds" by auto
    with ab(3) inj [of a' b'] show "a = b" by (simp add: pre)
  qed
  ultimately have "prices_inv (map seed_row ds)"
    unfolding prices_inv_def by meson
  with True seed_list [OF assms(2)] show ?thesis by simp
next
  case False
  with assms(1) show ?thesis by (auto simp: SeedDefaultPrices_def)
qed

lemma defaults_distinct: "distinct (map fst defaultRates)"
  by code_simp

lemma sync_loop_inv:
  "prices_inv tab \<Longrightarrow> sync_fresh p env i rows tab \<Longrightarrow> prices_inv (snd (sync_loop p env i rows ch tab))"
proof (induction rows arbitrary: i ch tab)
  case (Cons row rows)
  let ?row = "row\<lparr>pr_ValidFrom := ux_now (env i)\<rparr>"
  let ?u = "UpsertPrice p (ux_up (env i)) (ux_dbnow (env i)) (ux_gonow (env i)) ?row tab"
  have "prices_inv (snd ?u)" using UpsertPrice_inv [OF Cons.prems(1)] Cons.prems(2) by simp
  with Cons show ?case by (auto split: prod.split sum.split)
qed simp

text \<open>A synchronisation starts its rows at instants that no row of the table starts at.\<close>

definition fresh_sync :: "pg \<Rightarrow> worker \<Rightarrow> (nat \<Rightarrow> attempt_env) \<Rightarrow> (nat \<Rightarrow> upsert_env) \<Rightarrow> price_row list \<Rightarrow> bool" where
  "fresh_sync p w fenv uenv tab \<longleftrightarrow>
     (case fst (fetchPriceJSONWithRetry (or_default (wk_PriceSource w) DefaultPriceSourceURL) fenv) of
        Fetched raw \<Rightarrow> sync_fresh p uenv 0 (selectPriceRows raw) tab
      | _ \<Rightarrow> True)"

lemma syncPrices_inv:
  "prices_inv tab \<Longrightarrow> fresh_sync p w fenv uenv tab \<Longrightarrow> prices_inv (syncPrices w p fenv uenv tab)"
  using sync_loop_inv [of tab p uenv 0]
  by (auto simp: syncPrices_def SyncPrices_def fresh_sync_def Let_def split: prod.splits fetch_end.splits) (metis snd_conv)

text \<open>Only that is asked of the events of a run.\<close>

fun event_ok :: "pg \<Rightarrow> worker \<Rightarrow> server_event \<Rightarrow> server_state \<Rightarrow> bool" where
  "event_ok p w (PricePass fenv uenv) st \<longleftrightarrow> fresh_sync p w fenv uenv (sv_Prices st)"
| "event_ok p w _ st \<longleftrightarrow> True"

fun events_ok :: "pg \<Rightarrow> worker \<Rightarrow> pricer \<Rightarrow> server_event list \<Rightarrow> server_state \<Rightarrow> bool" where
  "events_ok p w pr [] st \<longleftrightarrow> True"
| "events_ok p w pr (ev # evs) st \<longleftrightarrow> event_ok p w ev st \<and> events_ok p w pr evs (server_step p w pr ev st)"

lemma runServer_inv:
  assumes "server_inv st"
  shows "server_inv (snd (runServer up seedUp pricing w st)) \<and>
    usage_kept (sv_Usage st) (sv_Usage (snd (runServer up seedUp pricing w st))) \<and>
    sv_Edits (snd (runServer up seedUp pricing w st)) = sv_Edits st"
proof (cases "up \<and> bootstrap_daily (sv_Usage st) \<noteq> None")
  case True
  then obtain u where u: "up" "bootstrap_daily (sv_Usage st) = Some u" by blast
  with assms bootstrap_inv [of "sv_Usage st" u]
  have b: "usage_consistent u" "fst u = fst (sv_Usage st)" by (simp_all add: server_inv_def)
  have "prices_inv (snd (SeedDefaultPrices seedUp defaultRates (sv_Prices st)))"
    by (rule seed_inv [OF _ defaults_distinct]) (use assms in \<open>simp add: server_inv_def\<close>)
  with u b assms usage_kept_same [OF b(2)] show ?thesis
    by (simp add: runServer_def NewStore_def server_inv_def split: option.split)
next
  case False
  then have "fst (NewStore up st) = False" by (auto simp: NewStore_def split: option.split)
  with assms show ?thesis by (auto simp: runServer_def split: prod.split)
qed

lemma server_step_inv:
  assumes "server_inv st" "event_ok p w ev st"
  shows "server_inv (server_step p w pr ev st) \<and>
    usage_kept (sv_Usage st) (sv_Usage (server_step p w pr ev st)) \<and>
    edits_kept (sv_Edits st) (sv_Edits (server_step p w pr ev st))"
proof (cases ev)
  case (Restarted up seedUp pricing)
  with runServer_inv [OF assms(1), of up seedUp pricing w] show ?thesis by simp
next
  case (Request e r)
  with serve_inv [OF assms(1), of e pr r] serve_keeps_rows [of st e pr r] show ?thesis by simp
next
  case (KeyAdmin op)
  with assms(1) auth_inv_run [of "sv_Auth st" p "[op]"] show ?thesis by (simp add: server_inv_def)
next
  case (PricePass fenv uenv)
  with assms syncPrices_inv [of "sv_Prices st" p w fenv uenv] show ?thesis by (simp add: server_inv_def)
next
  case (CodexRepair a b c d recs f)
  with assms(1) Repair_inv [of "sv_Usage st"] show ?thesis by (simp add: server_inv_def)
qed (use assms(1) RebuildDaily_inv [of "sv_Usage st"] in
    \<open>simp_all add: server_inv_def rebuildToday_def rebuildDeep_def Let_def\<close>)

text \<open>
  C3. The whole server keeps its tables: through any interleaving of starts, requests, passes of
  the background loops, key administration and repairs, with any faults, keys and users stay
  unique and linked, both daily tables stay the grouping of their detail tables and the price
  history stays intact; and no stored message or edit is ever lost or changed, except for the
  counters that a repair sets.
\<close>

theorem server_keeps_everything:
  assumes "server_inv st" "events_ok p w pr evs st"
  shows "server_inv (server_run p w pr evs st) \<and>
    usage_kept (sv_Usage st) (sv_Usage (server_run p w pr evs st)) \<and>
    edits_kept (sv_Edits st) (sv_Edits (server_run p w pr evs st))"
  using assms
proof (induction evs arbitrary: st)
  case (Cons ev evs)
  from server_step_inv [OF Cons.prems(1), of p w ev pr] Cons
  show ?case unfolding server_run_def by (auto intro: usage_kept_trans edits_kept_trans)
qed (simp add: server_run_def)


text \<open>A day in the life of a server: it starts on an empty database, stores a batch, and rebuilds.\<close>

definition sample_worker :: worker where
  "sample_worker = \<lparr>wk_TodayEvery = 600 * ns_per_sec, wk_DeepHour = 8, wk_DeepDays = 3,
     wk_PriceEvery = 43200 * ns_per_sec, wk_PriceSource = []\<rparr>"

definition sample_day :: "server_event list" where
  "sample_day = [Restarted True True None, Request (sample_env True True) sample_http, TodayPass True 7, DeepPass False 8,
     KeyAdmin (OpRevoke True 9 ''tuk_BwcHBwcH'')]"

theorem server_keeps_everything_witness:
  "server_inv (server_run plain_pg sample_worker (reindex defaultRates) sample_day sample_server)"
  using server_keeps_everything [OF sample_server_inv, of plain_pg sample_worker "reindex defaultRates" sample_day]
  by (simp add: sample_day_def)

theorem closed_days_rebuilt_witness:
  "\<exists>i. 4 * day_ns \<le> int i * day_ns + 8 * 3600 * ns_per_sec"
proof -
  let ?pass = "\<lambda>i. int i * day_ns + 8 * 3600 * ns_per_sec"
  let ?asked = "\<lambda>i. if i = 0 then 0 else ?pass (i - 1)"
  have "nextLocalHour 0 8 (?asked i) = ?pass i" for i
  proof (cases i)
    case (Suc j)
    have "utc_day_no (?pass j) = int j" by (simp add: utc_day_no_def day_ns_def)
    with Suc show ?thesis by (simp add: nextLocalHour_def Let_def day_start_def algebra_simps)
  qed (simp add: nextLocalHour_def day_start_def utc_day_no_def day_ns_def)
  then have "deep_timer 0 (wk_DeepHour sample_worker) 0 ?asked ?pass"
    by (simp add: deep_timer_def sample_worker_def)
  moreover have "DeepLoop \<in> set (Start sample_worker)" by (simp add: Start_def sample_worker_def)
  ultimately show ?thesis
    using closed_days_rebuilt [of 0 sample_worker 0 ?asked ?pass 3] by (simp add: sample_worker_def day_ns_def) blast
qed

end
