(* ===== verification/Ledger.thy ===== *)
theory Ledger
  imports Worker
begin

text \<open>
  What the usage tables promise, without tables: a ledger is a partial map from message ids to
  messages, ingest adds the messages it does not know yet, a repair rewrites counters, and a
  daily figure is a sum over the ledger. The statements of the store implement it.
\<close>

section \<open>The specification\<close>

type_synonym ledger = "usage_key \<Rightarrow> usage_row option"

definition in_group :: "ledger \<Rightarrow> usage_group \<Rightarrow> usage_key set" where
  "in_group L g = {k. \<exists>r. L k = Some r \<and> fst (usage_proj (k, r)) = g}"

definition figure :: "ledger \<Rightarrow> usage_group \<Rightarrow> (usage_row \<Rightarrow> int) \<Rightarrow> int" where
  "figure L g f = (\<Sum>k \<in> in_group L g. f (the (L k)))"

definition times :: "ledger \<Rightarrow> usage_group \<Rightarrow> gotime set" where
  "times L g = (\<lambda>k. ud_ts (the (L k))) ` in_group L g"

definition daily_figures :: "ledger \<Rightarrow> usage_group \<Rightarrow> usage_sum option" where
  "daily_figures L g =
     (if in_group L g = {} then None
      else Some \<lparr>us_input = figure L g ud_input, us_output = figure L g ud_output, us_cc = figure L g ud_cc,
        us_cc1h = figure L g ud_cc1h, us_cr = figure L g ud_cr, us_messages = int (card (in_group L g)),
        us_first = Min (times L g), us_last = Max (times L g)\<rparr>)"

text \<open>The first message of an id stays.\<close>

definition enter :: "(usage_key \<times> usage_row) list \<Rightarrow> ledger \<Rightarrow> ledger" where
  "enter rows L = map_of rows ++ L"

definition revise :: "string \<Rightarrow> string \<Rightarrow> stage \<Rightarrow> ledger \<Rightarrow> ledger" where
  "revise u m stg L k = map_option (\<lambda>r. snd (update_codex u m stg (k, r))) (L k)"

text \<open>The statements that write the usage tables, with what they meet.\<close>

datatype statement =
    Ingest bool string string "usage_record list"
  | Rebuild bool gotime gotime
  | RepairCodex bool bool string string "usage_record list" bool

fun execute :: "pg \<Rightarrow> statement \<Rightarrow> usage_tables \<Rightarrow> usage_tables" where
  "execute p (Ingest up m u recs) tabs = snd (Insert p up m u recs tabs)"
| "execute p (Rebuild up f t) tabs = snd (RebuildDaily up f t tabs)"
| "execute p (RepairCodex ur ua u m recs doApply) tabs = snd (RepairCodexUsage p ur ua u m recs doApply tabs)"

text \<open>Whether a statement reports that it took effect.\<close>

fun effective :: "pg \<Rightarrow> statement \<Rightarrow> usage_tables \<Rightarrow> bool" where
  "effective p (Ingest up m u recs) tabs = (\<exists>a d. fst (Insert p up m u recs tabs) = Inr (a, d))"
| "effective p (Rebuild up f t) tabs = (\<exists>n. fst (RebuildDaily up f t tabs) = Inr n)"
| "effective p (RepairCodex ur ua u m recs doApply) tabs =
     rp_Applied (fst (fst (RepairCodexUsage p ur ua u m recs doApply tabs)))"

fun intended :: "pg \<Rightarrow> statement \<Rightarrow> ledger \<Rightarrow> ledger" where
  "intended p (Ingest up m u recs) L =
     (case usage_input p u m recs of Some rows \<Rightarrow> enter rows L | None \<Rightarrow> L)"
| "intended p (Rebuild up f t) L = L"
| "intended p (RepairCodex ur ua u m recs doApply) L =
     (case (stageCodexRepair p recs, pg_arg p u, pg_arg p m) of
        (Some stg, Some u', Some m') \<Rightarrow> revise u' m' stg L
      | _ \<Rightarrow> L)"

definition refines :: "usage_tables \<Rightarrow> ledger \<Rightarrow> bool" where
  "refines tabs L \<longleftrightarrow>
     distinct (map fst (fst tabs)) \<and> distinct (map fst (snd tabs)) \<and>
     map_of (fst tabs) = L \<and> map_of (snd tabs) = daily_figures L"

section \<open>Sums over the ledger\<close>

lemma in_group_update:
  assumes "L k = None"
  shows "in_group (L(k \<mapsto> r)) g = (if fst (usage_proj (k, r)) = g then insert k (in_group L g) else in_group L g)"
  using assms by (auto simp: in_group_def)

lemma in_group_finite: "finite (dom L) \<Longrightarrow> finite (in_group L g)"
  by (rule finite_subset [of _ "dom L"]) (auto simp: in_group_def)

lemma figures_other:
  assumes "L k = None" "fst (usage_proj (k, r)) \<noteq> g"
  shows "daily_figures (L(k \<mapsto> r)) g = daily_figures L g"
proof -
  have "in_group (L(k \<mapsto> r)) g = in_group L g" using assms by (simp add: in_group_update)
  moreover have "the ((L(k \<mapsto> r)) j) = the (L j)" if "j \<in> in_group L g" for j
    using that assms(1) by (auto simp: in_group_def)
  ultimately show ?thesis unfolding daily_figures_def figure_def times_def by (simp cong: image_cong sum.cong)
qed

lemma figures_same:
  assumes "L k = None" "finite (dom L)" "fst (usage_proj (k, r)) = g"
  shows "daily_figures (L(k \<mapsto> r)) g = combine usage_plus (Some (snd (usage_proj (k, r)))) (daily_figures L g)"
proof -
  let ?K = "in_group L g"
  have K: "in_group (L(k \<mapsto> r)) g = insert k ?K" "finite ?K" "k \<notin> ?K"
    using assms by (simp_all add: in_group_update in_group_finite) (simp add: in_group_def)
  have old: "the ((L(k \<mapsto> r)) j) = the (L j)" if "j \<in> ?K" for j using that K(3) by auto
  have fig: "figure (L(k \<mapsto> r)) g f = f r + figure L g f" for f
    unfolding figure_def K(1) using K(2,3) old by (simp cong: sum.cong)
  have ts: "times (L(k \<mapsto> r)) g = insert (ud_ts r) (times L g)"
    unfolding times_def K(1) using old by (auto simp: image_iff)
  have "finite (times L g)" "times L g = {} \<longleftrightarrow> ?K = {}" using K(2) by (simp_all add: times_def)
  with fig ts K show ?thesis
    by (auto simp: daily_figures_def combine_def usage_plus_def usage_proj_def figure_def)
qed

lemma figures_grouping:
  "distinct (map fst detail) \<Longrightarrow>
     daily_figures (map_of detail) g = total usage_plus (values_at g (map usage_proj detail))"
proof (induction detail)
  case Nil
  then show ?case by (simp add: daily_figures_def in_group_def)
next
  case (Cons x detail)
  obtain k r where x: "x = (k, r)" by (meson surj_pair)
  have new: "map_of detail k = None" "finite (dom (map_of detail))"
    using Cons.prems x by (simp_all add: map_of_eq_None_iff finite_dom_map_of)
  obtain h v where p: "usage_proj x = (h, v)" by (meson surj_pair)
  show ?case
  proof (cases "h = g")
    case True
    have "daily_figures (map_of (x # detail)) g = combine usage_plus (Some v) (daily_figures (map_of detail) g)"
      using figures_same [OF new, of r g] p x True by (simp add: fun_upd_def)
    also have "\<dots> = combine usage_plus (Some v) (total usage_plus (values_at g (map usage_proj detail)))"
      using Cons by simp
    finally show ?thesis by (simp only: list.map p True values_at_simps usage.total_Cons refl if_True)
  next
    case False
    with figures_other [where L = "map_of detail", OF new(1), of r g] Cons x p show ?thesis by (simp add: fun_upd_def)
  qed
qed

lemma refines_iff: "refines tabs L \<longleftrightarrow> usage_consistent tabs \<and> map_of (fst tabs) = L"
proof -
  have "daily_figures (map_of (fst tabs)) = map_of (group_rows usage_plus usage_proj (fst tabs))"
    if "distinct (map fst (fst tabs))"
    using figures_grouping [OF that] by (auto simp: map_of_group_rows fun_eq_iff)
  then show ?thesis by (cases tabs) (auto simp: refines_def rolled_up_def)
qed

section \<open>The refinement\<close>

lemma map_of_update_codex: "map_of (map (update_codex u m stg) d) = revise u m stg (map_of d)"
proof (induction d)
  case (Cons x d)
  obtain k r where x: "x = (k, r)" by (meson surj_pair)
  obtain r' where "update_codex u m stg (k, r) = (k, r')" using update_codex_fst [of u m stg "(k, r)"] by (metis prod.collapse fst_conv)
  with Cons x show ?case by (auto simp: revise_def fun_eq_iff)
qed (simp add: revise_def fun_eq_iff)

lemma ingest_refines:
  assumes "usage_consistent tabs"
  shows "map_of (fst (execute p (Ingest up m u recs) tabs)) =
    (if effective p (Ingest up m u recs) tabs then intended p (Ingest up m u recs) (map_of (fst tabs)) else map_of (fst tabs))"
proof -
  obtain res tabs' where i: "Insert p up m u recs tabs = (res, tabs')" by (meson surj_pair)
  then show ?thesis
  proof (cases rule: Insert_cases)
    case empty
    have "usage_input p u m recs \<in> {None, Some []}"
      by (auto simp: empty(1) usage_input_def split: option.split)
    with i empty show ?thesis by (auto simp: enter_def)
  next
    case (stored rows n)
    have "ingest_rows usage_plus usage_fits usage_proj rows (fst tabs, snd tabs) = Some (n, fst tabs', snd tabs')"
      using stored by simp
    from ingest_lookup(1) [OF this] i stored show ?thesis
      by (auto simp: enter_def map_add_def fun_eq_iff)
  qed (use i in simp)
qed

lemma repair_refines:
  assumes "usage_consistent tabs"
  shows "map_of (fst (execute p (RepairCodex ur ua u m recs doApply) tabs)) =
    (if effective p (RepairCodex ur ua u m recs doApply) tabs
     then intended p (RepairCodex ur ua u m recs doApply) (map_of (fst tabs)) else map_of (fst tabs))"
proof -
  obtain stats err tabs' where r: "RepairCodexUsage p ur ua u m recs doApply tabs = ((stats, err), tabs')" by (metis surj_pair)
  then show ?thesis
  proof (cases rule: RepairCodexUsage_cases)
    case (applied u' m' stg s f t)
    have ap: "applyCodexRepair u' m' stg f t (fst tabs, snd tabs) = Some (fst tabs', snd tabs')" using applied by simp
    have "usage_consistent (fst tabs, snd tabs)" using assms by simp
    from apply_repair(1) [OF this applied(7,9,10) ap] r applied show ?thesis by (simp add: map_of_update_codex)
  qed (use r in simp)
qed

lemma rebuild_refines: "map_of (fst (execute p (Rebuild up f t) tabs)) = map_of (fst tabs)"
proof (cases "up \<and> rebuildDailyTx f t tabs \<noteq> None")
  case True
  then obtain n detail' daily' where tx: "rebuildDailyTx f t (fst tabs, snd tabs) = Some (n, detail', daily')" by auto
  with rebuild_lookup(1) [OF tx] True show ?thesis by (simp add: RebuildDaily_def)
next
  case False
  then show ?thesis by (auto simp: RebuildDaily_def split: option.split)
qed

lemma execute_consistent:
  assumes "usage_consistent tabs"
  shows "usage_consistent (execute p s tabs)"
proof (cases s)
  case (Ingest up m u recs)
  obtain res tabs' where "Insert p up m u recs tabs = (res, tabs')" by (meson surj_pair)
  with Insert_consistent [OF this] assms Ingest show ?thesis by simp
qed (use assms RebuildDaily_inv Repair_inv in simp_all)

text \<open>
  C4. The store implements the ledger: when the detail table holds a ledger and the daily table
  its figures, then after any statement the detail table holds what the statement is meant to
  make of the ledger, or the same ledger when the statement reports that it took no effect, and
  the daily table holds the figures of that.
\<close>

theorem store_refines_ledger:
  assumes "refines tabs L"
  shows "refines (execute p s tabs) (if effective p s tabs then intended p s L else L)"
proof -
  have c: "usage_consistent tabs" and L: "L = map_of (fst tabs)" using assms by (auto simp: refines_iff)
  have "map_of (fst (execute p s tabs)) = (if effective p s tabs then intended p s L else L)"
  proof (cases s)
    case (Ingest up m u recs)
    show ?thesis unfolding Ingest L by (rule ingest_refines [OF c])
  next
    case (Rebuild up f t)
    show ?thesis unfolding Rebuild L rebuild_refines by simp
  next
    case (RepairCodex ur ua u m recs doApply)
    show ?thesis unfolding RepairCodex L by (rule repair_refines [OF c])
  qed
  with execute_consistent [OF c] show ?thesis by (simp add: refines_iff)
qed

text \<open>Two statements on empty tables: a batch with a message sent twice, and a rebuild.\<close>

theorem store_refines_ledger_witness:
  "daily_figures (map_of (fst (snd (Insert plain_pg True ''box'' ''ann'' [sample_usage ''a'' 1, sample_usage ''a'' 9] ([], [])))))
     (20635, ''ann'', ''box'', ''claude-code'', ''m'') = map_of (snd (snd (Insert plain_pg True ''box'' ''ann''
       [sample_usage ''a'' 1, sample_usage ''a'' 9] ([], [])))) (20635, ''ann'', ''box'', ''claude-code'', ''m'')"
proof -
  have "refines ([], []) (map_of [])"
    by (simp add: refines_iff rolled_up_def group_rows_def)
  from store_refines_ledger [OF this, of plain_pg "Ingest True ''box'' ''ann'' [sample_usage ''a'' 1, sample_usage ''a'' 9]"]
  show ?thesis unfolding refines_def by auto
qed

end
