(* ===== verification/Admin.thy ===== *)
theory Admin
  imports Worker Scanner
begin

text \<open>
  The administration commands (\<open>cmd/server/admin.go\<close>), each from its flags and arguments to
  what it prints and what it leaves in the tables. A quoted word (\<open>%q\<close>) is kept as the word,
  and a table as its cells before \<open>text/tabwriter\<close> aligns them.
\<close>

section \<open>Output\<close>

datatype printed = Plain string | Quoted string | Row "string list"

definition fmtTime :: "gotime \<Rightarrow> string" where
  "fmtTime t =
     (if is_zero t then ''-''
      else fmt_day (utc_day_no t) @ '' '' @ fmt_clock (t mod day_ns div ns_per_sec) @ ''Z'')"

definition fmtPtrTime :: "gotime option \<Rightarrow> string" where
  "fmtPtrTime t = (case t of None \<Rightarrow> ''-'' | Some u \<Rightarrow> fmtTime u)"

definition dash :: "string \<Rightarrow> string" where
  "dash s = (if s = [] then ''-'' else s)"

definition printCodexRepairStats :: "CodexRepairStats \<Rightarrow> bool \<Rightarrow> bool \<Rightarrow> printed list" where
  "printCodexRepairStats s applyRequested aborted =
     (let mode = (if aborted then ''ABORTED'' else if rp_Applied s then ''APPLIED''
                  else if applyRequested then ''NO-CHANGES'' else ''DRY-RUN'') in
      [Plain (mode @ '' parsed='' @ itoa (rp_Parsed s) @ '' database='' @ itoa (rp_DatabaseRows s) @
         '' matched='' @ itoa (rp_Matched s) @ '' changed='' @ itoa (rp_Changed s) @
         '' missing_source='' @ itoa (rp_MissingSource s) @ '' missing_db='' @ itoa (rp_MissingDB s)),
       Plain (''tokens input '' @ itoa (rp_OldInput s) @ '' -> '' @ itoa (rp_NewInput s) @
         '', output '' @ itoa (rp_OldOutput s) @ '' -> '' @ itoa (rp_NewOutput s) @
         '', cache_read '' @ itoa (rp_CacheRead s))] @
      (case (rp_From s, rp_To s) of
         (Some f, Some t) \<Rightarrow> [Plain (''affected range '' @ fmt_rfc3339 f @ '' .. '' @ fmt_rfc3339 t)]
       | _ \<Rightarrow> []))"

section \<open>Commands\<close>

text \<open>What a command meets: its DSN, whether the store opens, and then the database and the clock.\<close>

record admin_env =
  ad_dsn :: string
  ad_opens :: bool
  ad_up :: bool
  ad_now :: gotime

datatype admin_error =
    DsnRequired | FlagsRequired | ScanSessions source_error | OpenStore
  | CreateUserFailed auth_error | CreateKeyFailed auth_error | RevokeFailed auth_error | ListFailed db_error
  | RepairFailed repair_error

type_synonym admin_result = "(admin_error option \<times> printed list) \<times> server_state"

text \<open>The store of a command; opening it runs the schema, as in the server.\<close>

definition mustOpenStore :: "admin_env \<Rightarrow> server_state \<Rightarrow> admin_error option \<times> server_state" where
  "mustOpenStore e st =
     (if ad_dsn e = [] then (Some DsnRequired, st)
      else (case NewStore (ad_opens e) st of (ok, st') \<Rightarrow> (if ok then None else Some OpenStore, st')))"

definition with_store :: "admin_env \<Rightarrow> server_state \<Rightarrow> (server_state \<Rightarrow> admin_result) \<Rightarrow> admin_result" where
  "with_store e st command =
     (case mustOpenStore e st of
        (Some err, st') \<Rightarrow> ((Some err, []), st')
      | (None, st') \<Rightarrow> command st')"

definition newUserAddCmd :: "pg \<Rightarrow> admin_env \<Rightarrow> string \<Rightarrow> string \<Rightarrow> server_state \<Rightarrow> admin_result" where
  "newUserAddCmd p e userID email st = with_store e st (\<lambda>st.
     (case CreateUser p (ad_up e) (ad_now e) userID email (sv_Auth st) of
        (Some err, _) \<Rightarrow> ((Some (CreateUserFailed err), []), st)
      | (None, auth') \<Rightarrow> ((None, [Plain ''created user '', Quoted userID]), st\<lparr>sv_Auth := auth'\<rparr>)))"

definition newUserListCmd :: "admin_env \<Rightarrow> server_state \<Rightarrow> admin_result" where
  "newUserListCmd e st = with_store e st (\<lambda>st.
     (case ListUsers (ad_up e) (sv_Auth st) of
        Inl err \<Rightarrow> ((Some (ListFailed err), []), st)
      | Inr users \<Rightarrow>
          if users = [] then ((None, [Plain ''(no users)'']), st)
          else ((None, Row [''USER_ID'', ''EMAIL'', ''CREATED'', ''DISABLED''] #
             map (\<lambda>u. Row [uv_UserID u, dash (uv_Email u), fmtTime (uv_CreatedAt u),
                           if uv_Disabled u then ''true'' else ''false'']) users), st)))"

definition newKeyCreateCmd ::
    "pg \<Rightarrow> admin_env \<Rightarrow> int list option \<Rightarrow> string \<Rightarrow> string \<Rightarrow> server_state \<Rightarrow> admin_result" where
  "newKeyCreateCmd p e rnd userID name st = with_store e st (\<lambda>st.
     (case CreateAPIKey p (ad_up e) (ad_now e) rnd userID name (sv_Auth st) of
        (Inl err, _) \<Rightarrow> ((Some (CreateKeyFailed err), []), st)
      | (Inr (raw, pre), auth') \<Rightarrow>
          ((None, [Plain ''api key for '', Quoted userID, Plain ('' (prefix '' @ pre @ ''):''), Plain raw]),
           st\<lparr>sv_Auth := auth'\<rparr>)))"

definition newKeyListCmd :: "admin_env \<Rightarrow> string \<Rightarrow> server_state \<Rightarrow> admin_result" where
  "newKeyListCmd e userFilter st = with_store e st (\<lambda>st.
     (case ListAPIKeys (ad_up e) userFilter (sv_Auth st) of
        Inl err \<Rightarrow> ((Some (ListFailed err), []), st)
      | Inr keys \<Rightarrow>
          if keys = [] then ((None, [Plain ''(no keys)'']), st)
          else ((None, Row [''PREFIX'', ''USER'', ''NAME'', ''CREATED'', ''LAST_USED'', ''STATUS''] #
             map (\<lambda>k. Row [kv_Prefix k, kv_UserID k, dash (kv_Name k), fmtTime (kv_CreatedAt k),
                           fmtPtrTime (kv_LastUsedAt k), if kv_Revoked k then ''revoked'' else ''active'']) keys), st)))"

definition newKeyRevokeCmd :: "admin_env \<Rightarrow> string \<Rightarrow> server_state \<Rightarrow> admin_result" where
  "newKeyRevokeCmd e pre st = with_store e st (\<lambda>st.
     (case RevokeAPIKey (ad_up e) (ad_now e) pre (sv_Auth st) of
        (Some err, _) \<Rightarrow> ((Some (RevokeFailed err), []), st)
      | (None, auth') \<Rightarrow> ((None, [Plain (''revoked key with prefix '' @ pre)]), st\<lparr>sv_Auth := auth'\<rparr>)))"

text \<open>
  \<open>codex-repair\<close>: the sessions are scanned with an empty checkpoint, then the store is opened
  and its rows are compared with what the scan found.
\<close>

definition no_checkpoint :: checkpoint where
  "no_checkpoint = \<lparr>ck_Files = []\<rparr>"

definition newCodexRepairCmd ::
    "decompressor \<Rightarrow> pg \<Rightarrow> admin_env \<Rightarrow> bool \<Rightarrow> string \<Rightarrow> root_obs \<Rightarrow> string \<Rightarrow> string \<Rightarrow> bool \<Rightarrow> server_state \<Rightarrow>
     admin_result" where
  "newCodexRepairCmd unzstd p e upApply sessionsRoot ob userID machineID doApply st =
     (if sessionsRoot = [] \<or> userID = [] \<or> machineID = [] then ((Some FlagsRequired, []), st)
      else (case Scan unzstd [\<lparr>so_Tool = ''codex'', so_Root = sessionsRoot\<rparr>] no_checkpoint 0 (ad_now e) [ob] of
         (_, _, Some err) \<Rightarrow> ((Some (ScanSessions err), []), st)
       | (result, _, None) \<Rightarrow> with_store e st (\<lambda>st.
           (case RepairCodexUsage p (ad_up e) upApply userID machineID (sr_Usage result) doApply (sv_Usage st) of
              ((stats, Some err), u) \<Rightarrow>
                ((Some (RepairFailed err),
                  if 0 < rp_Parsed stats \<or> 0 < rp_DatabaseRows stats then printCodexRepairStats stats doApply True else []),
                 st\<lparr>sv_Usage := u\<rparr>)
            | ((stats, None), u) \<Rightarrow>
                ((None, printCodexRepairStats stats doApply False @
                    (if doApply then [] else [Plain ''dry-run only; re-run with --apply after taking a database backup''])),
                 st\<lparr>sv_Usage := u\<rparr>)))))"

section \<open>What a command keeps\<close>

text \<open>The tables as the whole server keeps them, from one state to a later one.\<close>

definition keeps_tables :: "server_state \<Rightarrow> server_state \<Rightarrow> bool" where
  "keeps_tables st st' \<longleftrightarrow> server_inv st' \<and> usage_kept (sv_Usage st) (sv_Usage st') \<and> edits_kept (sv_Edits st) (sv_Edits st')"

lemma keeps_refl: "server_inv st \<Longrightarrow> keeps_tables st st"
  by (simp add: keeps_tables_def)

lemma keeps_trans: "keeps_tables a b \<Longrightarrow> keeps_tables b c \<Longrightarrow> keeps_tables a c"
  unfolding keeps_tables_def using usage_kept_trans edits_kept_trans by blast

lemma keeps_auth: "server_inv st \<Longrightarrow> auth_inv a \<Longrightarrow> keeps_tables st (st\<lparr>sv_Auth := a\<rparr>)"
  by (simp add: keeps_tables_def server_inv_def)

lemma NewStore_keeps: "server_inv st \<Longrightarrow> keeps_tables st (snd (NewStore up st))"
  using bootstrap_inv [of "sv_Usage st"]
  by (auto simp: NewStore_def keeps_tables_def server_inv_def usage_kept_same split: option.split)

lemma with_store_keeps:
  assumes "server_inv st" "\<And>st1. server_inv st1 \<Longrightarrow> keeps_tables st1 (snd (command st1))"
  shows "keeps_tables st (snd (with_store e st command))"
proof -
  obtain r st1 where r: "mustOpenStore e st = (r, st1)" by (meson surj_pair)
  have k: "keeps_tables st st1"
    using r NewStore_keeps [OF assms(1), of "ad_opens e"] keeps_refl [OF assms(1)]
    by (auto simp: mustOpenStore_def split: prod.splits if_splits)
  then have "server_inv st1" by (simp add: keeps_tables_def)
  with r k assms(2) keeps_trans show ?thesis
    by (cases r) (auto simp: with_store_def)
qed

lemma admin_reads_keep:
  assumes "server_inv st"
  shows "keeps_tables st (snd (newUserListCmd e st))" "keeps_tables st (snd (newKeyListCmd e u st))"
  unfolding newUserListCmd_def newKeyListCmd_def
  by (rule with_store_keeps [OF assms], auto simp: keeps_refl split: sum.split)+

lemma admin_writes_keep:
  assumes "server_inv st"
  shows "keeps_tables st (snd (newUserAddCmd p e user email st))"
    and "keeps_tables st (snd (newKeyCreateCmd p e rnd user name st))"
    and "keeps_tables st (snd (newKeyRevokeCmd e pre st))"
proof -
  have inv: "auth_inv (sv_Auth st1)" if "server_inv st1" for st1 using that by (simp add: server_inv_def)
  show "keeps_tables st (snd (newUserAddCmd p e user email st))"
    unfolding newUserAddCmd_def
  proof (rule with_store_keeps [OF assms])
    fix st1 assume i: "server_inv st1"
    note a = auth_inv_CreateUser [OF inv [OF i], of p "ad_up e" "ad_now e" user email]
    show "keeps_tables st1 (snd (case CreateUser p (ad_up e) (ad_now e) user email (sv_Auth st1) of
          (Some err, x) \<Rightarrow> ((Some (CreateUserFailed err), []), st1)
        | (None, auth') \<Rightarrow> ((None, [Plain ''created user '', Quoted user]), st1\<lparr>sv_Auth := auth'\<rparr>)))"
      using keeps_refl [OF i] keeps_auth [OF i a] by (auto split: prod.split option.split)
  qed
  show "keeps_tables st (snd (newKeyCreateCmd p e rnd user name st))"
    unfolding newKeyCreateCmd_def
  proof (rule with_store_keeps [OF assms])
    fix st1 assume i: "server_inv st1"
    note a = auth_inv_CreateAPIKey [OF inv [OF i], of p "ad_up e" "ad_now e" rnd user name]
    show "keeps_tables st1 (snd (case CreateAPIKey p (ad_up e) (ad_now e) rnd user name (sv_Auth st1) of
          (Inl err, x) \<Rightarrow> ((Some (CreateKeyFailed err), []), st1)
        | (Inr (raw, pre), auth') \<Rightarrow>
            ((None, [Plain ''api key for '', Quoted user, Plain ('' (prefix '' @ pre @ ''):''), Plain raw]),
             st1\<lparr>sv_Auth := auth'\<rparr>)))"
      using keeps_refl [OF i] keeps_auth [OF i a] by (auto split: prod.split sum.split)
  qed
  show "keeps_tables st (snd (newKeyRevokeCmd e pre st))"
    unfolding newKeyRevokeCmd_def
  proof (rule with_store_keeps [OF assms])
    fix st1 assume i: "server_inv st1"
    note a = auth_inv_Revoke [OF inv [OF i], of "ad_up e" "ad_now e" pre]
    show "keeps_tables st1 (snd (case RevokeAPIKey (ad_up e) (ad_now e) pre (sv_Auth st1) of
          (Some err, x) \<Rightarrow> ((Some (RevokeFailed err), []), st1)
        | (None, auth') \<Rightarrow> ((None, [Plain (''revoked key with prefix '' @ pre)]), st1\<lparr>sv_Auth := auth'\<rparr>)))"
      using keeps_refl [OF i] keeps_auth [OF i a] by (auto split: prod.split option.split)
  qed
qed

lemma codex_repair_keeps:
  assumes "server_inv st"
  shows "keeps_tables st (snd (newCodexRepairCmd unzstd p e ua sessions ob user machine ap st))"
proof -
  have "keeps_tables st (snd (with_store e st (\<lambda>st.
      (case RepairCodexUsage p (ad_up e) ua user machine recs ap (sv_Usage st) of
         ((stats, Some err), u) \<Rightarrow> ((Some (RepairFailed err), f stats), st\<lparr>sv_Usage := u\<rparr>)
       | ((stats, None), u) \<Rightarrow> ((None, g stats), st\<lparr>sv_Usage := u\<rparr>)))))" for recs f g
  proof (rule with_store_keeps [OF assms])
    fix st1 assume "server_inv st1"
    with Repair_inv [of "sv_Usage st1" p "ad_up e" ua user machine recs ap]
    have "keeps_tables st1 (st1\<lparr>sv_Usage := snd (RepairCodexUsage p (ad_up e) ua user machine recs ap (sv_Usage st1))\<rparr>)"
      by (simp add: keeps_tables_def server_inv_def)
    then show "keeps_tables st1 (snd (case RepairCodexUsage p (ad_up e) ua user machine recs ap (sv_Usage st1) of
         ((stats, Some err), u) \<Rightarrow> ((Some (RepairFailed err), f stats), st1\<lparr>sv_Usage := u\<rparr>)
       | ((stats, None), u) \<Rightarrow> ((None, g stats), st1\<lparr>sv_Usage := u\<rparr>)))"
      by (auto split: prod.split option.split)
  qed
  then show ?thesis
    unfolding newCodexRepairCmd_def by (auto simp: keeps_refl [OF assms] split: prod.split option.split)
qed

end
