(* ===== verification/Secrets.thy ===== *)
theory Secrets
  imports Service
begin

text \<open>
  What the installation of the service lets other users see: two installations that differ in
  the API key only are compared, on worlds that look the same to anyone but the owner.
\<close>

section \<open>What others see\<close>

text \<open>A file whose mode grants nothing to group and others is seen without its content.\<close>

definition seen :: "node option \<Rightarrow> node option" where
  "seen x =
     (case x of
        Some (FileNode m c) \<Rightarrow> Some (FileNode m (if m mod 64 = 0 then [] else c))
      | _ \<Rightarrow> x)"

text \<open>\<open>E\<close> is what others see of the manager's own state.\<close>

definition low :: "('m \<Rightarrow> 'm \<Rightarrow> bool) \<Rightarrow> 'm machine \<Rightarrow> 'm machine \<Rightarrow> bool" where
  "low E w w' \<longleftrightarrow> E (wo_mgr w) (wo_mgr w') \<and> wo_out w = wo_out w' \<and> (\<forall>p. seen (wo_files w p) = seen (wo_files w' p))"

text \<open>Two steps in parallel: the same answer, and worlds in \<open>Q\<close> after a success, looking the same after a failure.\<close>

definition rel :: "('m \<Rightarrow> 'm \<Rightarrow> bool) \<Rightarrow> ('m machine \<Rightarrow> 'm machine \<Rightarrow> bool) \<Rightarrow> 'm step \<Rightarrow> 'm step \<Rightarrow> ('m machine \<Rightarrow> 'm machine \<Rightarrow> bool) \<Rightarrow> bool" where
  "rel E P f g Q \<longleftrightarrow>
     (\<forall>w w'. P w w' \<longrightarrow> fst (f w) = fst (g w') \<and>
        (if fst (f w) = None then Q (snd (f w)) (snd (g w')) else low E (snd (f w)) (snd (g w'))))"

text \<open>
  What is asked of the manager: its answers do not depend on the environment variables of a
  configuration, nor on what others cannot see; installing writes them to the unit file and
  nowhere else, with the same mode; and a failing operation leaves nothing to see.
\<close>

definition alike :: "svc_config \<Rightarrow> svc_config \<Rightarrow> bool" where
  "alike c c' \<longleftrightarrow> c' = c\<lparr>sg_EnvVars := sg_EnvVars c'\<rparr>"

definition unit_of :: "host \<Rightarrow> svc_config \<Rightarrow> string" where
  "unit_of h c = (if sg_UserService c then user_unit (case ho_home h of Some d \<Rightarrow> d | None \<Rightarrow> []) else system_unit)"

definition forget :: "string \<Rightarrow> 'm machine \<Rightarrow> 'm machine" where
  "forget p w = w\<lparr>wo_files := (wo_files w)(p := None)\<rparr>"

definition unit_written :: "('m \<Rightarrow> 'm \<Rightarrow> bool) \<Rightarrow> string \<Rightarrow> 'm machine \<Rightarrow> 'm machine \<Rightarrow> bool" where
  "unit_written E u w w' \<longleftrightarrow>
     (\<exists>m c c'. wo_files w u = Some (FileNode m c) \<and> wo_files w' u = Some (FileNode m c')) \<and> low E (forget u w) (forget u w')"

definition discreet :: "('m \<Rightarrow> 'm \<Rightarrow> bool) \<Rightarrow> host \<Rightarrow> 'm manager \<Rightarrow> bool" where
  "discreet E h mg \<longleftrightarrow>
     (\<forall>c c'. alike c c' \<longrightarrow>
        mg_new mg c = mg_new mg c' \<and>
        (\<forall>w w'. low E w w' \<longrightarrow> mg_status mg c w = mg_status mg c' w') \<and>
        rel E (low E) (mg_stop mg c) (mg_stop mg c') (low E) \<and>
        rel E (low E) (mg_start mg c) (mg_start mg c') (low E) \<and>
        rel E (low E) (mg_uninstall mg c) (mg_uninstall mg c') (low E) \<and>
        rel E (low E) (mg_install mg c) (mg_install mg c') (unit_written E (unit_of h c))) \<and>
     (\<forall>args. rel E (low E) (mg_run mg args) (mg_run mg args) (low E)) \<and>
     (\<forall>args w w'. low E w w' \<longrightarrow> mg_output mg args w = mg_output mg args w')"

section \<open>Steps in parallel\<close>

lemma relI:
  "(\<And>w w'. P w w' \<Longrightarrow> fst (f w) = fst (g w') \<and>
     (if fst (f w) = None then Q (snd (f w)) (snd (g w')) else low E (snd (f w)) (snd (g w')))) \<Longrightarrow> rel E P f g Q"
  by (simp add: rel_def)

lemma relD:
  "rel E P f g Q \<Longrightarrow> P w w' \<Longrightarrow> fst (f w) = fst (g w') \<and>
     (if fst (f w) = None then Q (snd (f w)) (snd (g w')) else low E (snd (f w)) (snd (g w')))"
  by (simp add: rel_def)

lemma rel_low: "rel E (low E) f g (low E) \<Longrightarrow> low E w w' \<Longrightarrow> fst (f w) = fst (g w') \<and> low E (snd (f w)) (snd (g w'))"
  by (auto simp: rel_def split: if_splits)

lemma rel_Nil [intro]: "rel E P (steps []) (steps []) P"
  by (simp add: rel_def)

lemma rel_Cons:
  assumes "rel E P f g Q" "rel E Q (steps fs) (steps gs) R"
  shows "rel E P (steps (f # fs)) (steps (g # gs)) R"
proof (rule relI)
  fix w w'
  assume "P w w'"
  note 1 = relD [OF assms(1) this]
  show "fst (steps (f # fs) w) = fst (steps (g # gs) w') \<and>
    (if fst (steps (f # fs) w) = None then R (snd (steps (f # fs) w)) (snd (steps (g # gs) w'))
     else low E (snd (steps (f # fs) w)) (snd (steps (g # gs) w')))"
  proof (cases "fst (f w)")
    case None
    with 1 have "f w = (None, snd (f w))" "g w' = (None, snd (g w'))" "Q (snd (f w)) (snd (g w'))"
      by (simp_all add: prod_eq_iff)
    with relD [OF assms(2)] show ?thesis by (metis (no_types, lifting) old.prod.case option.case(1) steps.simps(2))
  next
    case (Some e)
    with 1 have "f w = (Some e, snd (f w))" "g w' = (Some e, snd (g w'))" "low E (snd (f w)) (snd (g w'))"
      by (simp_all add: prod_eq_iff)
    then show ?thesis by (metis (no_types, lifting) fst_conv old.prod.case option.case(2) option.distinct(1) snd_conv steps.simps(2))
  qed
qed

lemma rel_wrap [intro]: "rel E P f g Q \<Longrightarrow> rel E P (wrap pre f) (wrap pre g) Q"
  by (auto simp: rel_def wrap_def)

lemma rel_ignoring [intro]: "rel E (low E) f g (low E) \<Longrightarrow> rel E (low E) (ignoring f) (ignoring g) (low E)"
  using rel_low by (fastforce simp: rel_def ignoring_def)

lemma low_say: "low E w w' \<Longrightarrow> low E (snd (say s w)) (snd (say s w'))"
  by (simp add: low_def say_def)

lemma rel_say [intro]: "rel E (low E) (say s) (say s) (low E)"
  by (simp add: rel_def say_def low_def)

lemma rel_fails [intro]: "rel E (low E) (fails e) (fails e) Q"
  by (simp add: rel_def fails_def)

lemma seen_cases:
  assumes "seen x = seen y"
  obtains (none) "x = None" "y = None" | (dir) m where "x = Some (DirNode m)" "y = Some (DirNode m)"
    | (plain) m c c' where "x = Some (FileNode m c)" "y = Some (FileNode m c')" "m mod 64 = 0 \<or> c = c'"
  using assms by (auto simp: seen_def split: option.splits node.splits if_splits)

lemma low_files: "low E w w' \<Longrightarrow> seen (wo_files w p) = seen (wo_files w' p)"
  by (simp add: low_def)

lemma low_put: "low E w w' \<Longrightarrow> seen (Some n) = seen (Some n') \<Longrightarrow> low E (put_node p n w) (put_node p n' w')"
  by (simp add: low_def put_node_def)

lemma low_pick: "low E w w' \<Longrightarrow> pickSupervisorConfDir w = pickSupervisorConfDir w'"
  by (drule low_files [of E w w' "''/etc/supervisord.d''"], erule seen_cases) (simp_all add: pickSupervisorConfDir_def)

lemma low_hint: "low E w w' \<Longrightarrow> PlatformInstallHint h w b = PlatformInstallHint h w' b"
  by (drule low_pick) (simp only: PlatformInstallHint_def linux_PlatformInstallHint_def)

lemma rel_mkdir [intro]: "rel E (low E) (mkdir_all h p m) (mkdir_all h p m) (low E)"
proof (rule relI)
  fix w w' assume l: "low E w w'"
  from low_files [OF l, of p] show "fst (mkdir_all h p m w) = fst (mkdir_all h p m w') \<and>
    (if fst (mkdir_all h p m w) = None then low E (snd (mkdir_all h p m w)) (snd (mkdir_all h p m w'))
     else low E (snd (mkdir_all h p m w)) (snd (mkdir_all h p m w')))"
    by (cases rule: seen_cases) (simp_all add: mkdir_all_def l low_put)
qed

lemma rel_write [intro]: "rel E (low E) (write_file h p c m) (write_file h p c m) (low E)"
proof (rule relI)
  fix w w' assume l: "low E w w'"
  from low_files [OF l, of p] show "fst (write_file h p c m w) = fst (write_file h p c m w') \<and>
    (if fst (write_file h p c m w) = None then low E (snd (write_file h p c m w)) (snd (write_file h p c m w'))
     else low E (snd (write_file h p c m w)) (snd (write_file h p c m w')))"
    by (cases rule: seen_cases) (simp_all add: write_file_def l low_put)
qed

section \<open>The supervisord backend\<close>

text \<open>Before its environment file is written: the same binary, and no such file that others can read.\<close>

definition before_env :: "('m \<Rightarrow> 'm \<Rightarrow> bool) \<Rightarrow> string \<Rightarrow> 'm machine \<Rightarrow> 'm machine \<Rightarrow> bool" where
  "before_env E self w w' \<longleftrightarrow> low E w w' \<and> wo_files w self = wo_files w' self \<and>
     (\<forall>m c. wo_files w env_path = Some (FileNode m c) \<longrightarrow> m mod 64 = 0)"

lemma rel_mkdir_before: "rel E (before_env E self) (mkdir_all h p m) (mkdir_all h p m) (before_env E self)"
proof (rule relI)
  fix w w' assume b: "before_env E self w w'"
  then have l: "low E w w'" by (simp add: before_env_def)
  from low_files [OF l, of p] show "fst (mkdir_all h p m w) = fst (mkdir_all h p m w') \<and>
    (if fst (mkdir_all h p m w) = None then before_env E self (snd (mkdir_all h p m w)) (snd (mkdir_all h p m w'))
     else low E (snd (mkdir_all h p m w)) (snd (mkdir_all h p m w')))"
  proof (cases rule: seen_cases)
    case none
    with l have "low E (put_node p (DirNode m) w) (put_node p (DirNode m) w')" by (simp add: low_put)
    with none b l show ?thesis by (simp add: mkdir_all_def before_env_def) (simp add: put_node_def)
  qed (use b l in \<open>simp_all add: mkdir_all_def\<close>)
qed

lemma rel_copy_before:
  assumes "dst \<noteq> env_path"
  shows "rel E (before_env E self) (copySelf h self dst) (copySelf h self dst) (before_env E self)"
proof (rule relI)
  fix w w' assume b: "before_env E self w w'"
  then have l: "low E w w'" and same: "wo_files w' self = wo_files w self" by (simp_all add: before_env_def)
  from low_files [OF l, of dst]
  have d: "(case wo_files w dst of Some (DirNode _) \<Rightarrow> True | _ \<Rightarrow> False) =
      (case wo_files w' dst of Some (DirNode _) \<Rightarrow> True | _ \<Rightarrow> False)"
    by (cases rule: seen_cases) simp_all
  have "before_env E self (put_node dst (FileNode mode_755 c) w) (put_node dst (FileNode mode_755 c) w')" for c
    using b l low_put [OF l refl] assms by (simp add: before_env_def) (simp add: put_node_def)
  with l show "fst (copySelf h self dst w) = fst (copySelf h self dst w') \<and>
    (if fst (copySelf h self dst w) = None then before_env E self (snd (copySelf h self dst w)) (snd (copySelf h self dst w'))
     else low E (snd (copySelf h self dst w)) (snd (copySelf h self dst w')))"
    unfolding copySelf_def same d [symmetric] by (auto split: option.split node.split)
qed

text \<open>The file the key is written to is created private, or was.\<close>

lemma rel_write_env:
  "rel E (before_env E self) (write_file h env_path c mode_600) (write_file h env_path c' mode_600) (low E)"
proof (rule relI)
  fix w w' assume b: "before_env E self w w'"
  then have l: "low E w w'" by (simp add: before_env_def)
  have new: "seen (Some (FileNode mode_600 c)) = seen (Some (FileNode mode_600 c'))" by (simp add: seen_def mode_600_def)
  from low_files [OF l, of env_path]
  show "fst (write_file h env_path c mode_600 w) = fst (write_file h env_path c' mode_600 w') \<and>
    (if fst (write_file h env_path c mode_600 w) = None
     then low E (snd (write_file h env_path c mode_600 w)) (snd (write_file h env_path c' mode_600 w'))
     else low E (snd (write_file h env_path c mode_600 w)) (snd (write_file h env_path c' mode_600 w')))"
  proof (cases rule: seen_cases)
    case none
    with l new show ?thesis by (simp add: write_file_def low_put)
  next
    case (plain m d d')
    with b have "seen (Some (FileNode m c)) = seen (Some (FileNode m c'))" by (auto simp: before_env_def seen_def)
    with plain l show ?thesis by (simp add: write_file_def low_put)
  qed (use l in \<open>simp add: write_file_def\<close>)
qed

lemma rel_status_supervisor: "discreet E h mg \<Longrightarrow> rel E (low E) (StatusSupervisor h mg) (StatusSupervisor h mg) (low E)"
proof (rule relI)
  fix w w' assume d: "discreet E h mg" and l: "low E w w'"
  then have "mg_output mg args w = mg_output mg args w'" for args by (simp add: discreet_def)
  with low_say [OF l] show "fst (StatusSupervisor h mg w) = fst (StatusSupervisor h mg w') \<and>
    (if fst (StatusSupervisor h mg w) = None then low E (snd (StatusSupervisor h mg w)) (snd (StatusSupervisor h mg w'))
     else low E (snd (StatusSupervisor h mg w)) (snd (StatusSupervisor h mg w')))"
    by (simp add: StatusSupervisor_def) (simp add: say_def)
qed

lemma bin_path: "path_join_all [''/usr/local/bin'', Name] \<noteq> env_path"
  unfolding env_path_def by code_simp

lemma InstallSupervisor_hides:
  assumes "discreet E h mg" "before_env E self w w'"
  shows "fst (InstallSupervisor h mg self k ep extra w) = fst (InstallSupervisor h mg self k' ep extra w') \<and>
    low E (snd (InstallSupervisor h mg self k ep extra w)) (snd (InstallSupervisor h mg self k' ep extra w'))"
proof -
  have l: "low E w w'" using assms(2) by (simp add: before_env_def)
  have ctl: "rel E (low E) (mg_run mg args) (mg_run mg args) (low E)" for args using assms(1) by (simp add: discreet_def)
  have run: "rel E (before_env E self)
     (steps [mkdir_all h b mode_755, wrap x (copySelf h self (path_join_all [''/usr/local/bin'', Name])), mkdir_all h d mode_700,
        write_file h env_path (env_content k ep) mode_600, mkdir_all h cd mode_755, write_file h cp c mode_644,
        mg_run mg r1, mg_run mg r2, wrap y (mg_run mg r3), say s, StatusSupervisor h mg])
     (steps [mkdir_all h b mode_755, wrap x (copySelf h self (path_join_all [''/usr/local/bin'', Name])), mkdir_all h d mode_700,
        write_file h env_path (env_content k' ep) mode_600, mkdir_all h cd mode_755, write_file h cp c mode_644,
        mg_run mg r1, mg_run mg r2, wrap y (mg_run mg r3), say s, StatusSupervisor h mg]) (low E)" for b x d cd cp c r1 r2 y r3 s
    by (rule rel_Cons [OF rel_mkdir_before], rule rel_Cons [OF rel_wrap [OF rel_copy_before [OF bin_path]]],
        rule rel_Cons [OF rel_mkdir_before], rule rel_Cons [OF rel_write_env], rule rel_Cons [OF rel_mkdir],
        rule rel_Cons [OF rel_write], rule rel_Cons [OF ctl], rule rel_Cons [OF ctl], rule rel_Cons [OF rel_wrap [OF ctl]],
        rule rel_Cons [OF rel_say], rule rel_Cons [OF rel_status_supervisor [OF assms(1)] rel_Nil])
  have "pickSupervisorConfDir w = pickSupervisorConfDir w'" by (rule low_pick [OF l])
  with relD [OF run assms(2)] l show ?thesis
    by (auto simp: InstallSupervisor_def supervisor_only_def needs_ctl_def fails_def Let_def simp del: steps.simps)
qed

section \<open>The systemd backends\<close>

lemma chmod_hides:
  assumes "unit_written E u w w'" "\<not> ho_denied h u"
  shows "fst (chmod_file h u mode_600 w) = None \<and> fst (chmod_file h u mode_600 w') = None \<and>
    low E (snd (chmod_file h u mode_600 w)) (snd (chmod_file h u mode_600 w'))"
proof -
  obtain m c c' where f: "wo_files w u = Some (FileNode m c)" "wo_files w' u = Some (FileNode m c')"
    and l: "low E (forget u w) (forget u w')" using assms(1) by (auto simp: unit_written_def)
  have "seen (wo_files w p) = seen (wo_files w' p)" if "p \<noteq> u" for p
    using low_files [OF l, of p] that by (simp add: forget_def)
  moreover have "seen (Some (FileNode mode_600 c)) = seen (Some (FileNode mode_600 c'))" by (simp add: seen_def mode_600_def)
  ultimately have "low E (put_node u (FileNode mode_600 c) w) (put_node u (FileNode mode_600 c') w')"
    using l by (simp add: low_def put_node_def forget_def)
  with f assms(2) show ?thesis by (simp add: chmod_file_def)
qed

definition unit_writable :: "host \<Rightarrow> bool" where
  "unit_writable h \<longleftrightarrow> (\<forall>home. ho_home h = Some home \<longrightarrow> \<not> ho_denied h (user_unit home)) \<and> ho_home h \<noteq> None \<and> \<not> ho_denied h system_unit"

lemma secure_hides:
  assumes "ho_os h = Linux" "unit_writable h" "Config h b self k ep ex = Inr c"
  shows "rel E (unit_written E (unit_of h c)) (SecureUnitFile h b) (SecureUnitFile h b) (low E)"
proof -
  obtain home where home: "ho_home h = Some home" "\<not> ho_denied h (user_unit home)" "\<not> ho_denied h system_unit"
    using assms(2) by (auto simp: unit_writable_def)
  have "(b = ''user'' \<and> sg_UserService c) \<or> (b = ''system'' \<and> \<not> sg_UserService c)"
    using assms(1,3) by (auto simp: Config_def Let_def split: if_splits)
  then show ?thesis
    using chmod_hides [of E "unit_of h c" _ _ h] home assms(1)
    by (auto simp: rel_def SecureUnitFile_def unit_of_def)
qed

lemma Config_alike:
  "(\<exists>e. Config h b self k ep ex = Inl e \<and> Config h b self k' ep ex = Inl e) \<or>
   (\<exists>c c'. Config h b self k ep ex = Inr c \<and> Config h b self k' ep ex = Inr c' \<and> alike c c')"
  by (auto simp: Config_def Let_def alike_def)

lemma rel_say_status:
  assumes "discreet E h mg" "alike c c'"
  shows "rel E (low E) (say_status mg c pre b) (say_status mg c' pre b) (low E)"
proof (rule relI)
  fix w w' assume l: "low E w w'"
  with assms have "mg_status mg c w = mg_status mg c' w'" by (simp add: discreet_def)
  with low_say [OF l] show "fst (say_status mg c pre b w) = fst (say_status mg c' pre b w') \<and>
    (if fst (say_status mg c pre b w) = None then low E (snd (say_status mg c pre b w)) (snd (say_status mg c' pre b w'))
     else low E (snd (say_status mg c pre b w)) (snd (say_status mg c' pre b w')))"
    by (simp add: say_status_def) (simp add: say_def)
qed

definition hint_step :: "host \<Rightarrow> string \<Rightarrow> 'm step" where
  "hint_step h b w = (if PlatformInstallHint h w b \<noteq> [] then say (''  '' @ PlatformInstallHint h w b) w else (None, w))"

lemma rel_hint: "rel E (low E) (hint_step h b) (hint_step h b) (low E)"
proof (rule relI)
  fix w w' assume l: "low E w w'"
  note hint = low_hint [OF l, of h b]
  from l low_say [OF l] show "fst (hint_step h b w) = fst (hint_step h b w') \<and>
    (if fst (hint_step h b w) = None then low E (snd (hint_step h b w)) (snd (hint_step h b w'))
     else low E (snd (hint_step h b w)) (snd (hint_step h b w')))"
    unfolding hint_step_def hint by (simp add: say_def)
qed

lemma installOne_hides:
  assumes d: "discreet E h mg" and host: "ho_os h = Linux" "unit_writable h" and b: "b \<noteq> ''supervisor''"
  shows "rel E (low E) (installOne h mg b self k ep ex) (installOne h mg b self k' ep ex) (low E)"
proof -
  have eq: "installOne h mg b self key ep ex = with_service h mg b self key ep ex (\<lambda>cfg. steps
      [ignoring (mg_stop mg cfg), ignoring (mg_uninstall mg cfg), wrap ''install'' (mg_install mg cfg),
       wrap ''secure unit file'' (SecureUnitFile h b), wrap ''start'' (mg_start mg cfg),
       say_status mg cfg (arrow @ ''installed and started '') b, hint_step h b])" for key
    using b by (simp add: installOne_def hint_step_def [abs_def])
  from Config_alike [of h b self k ep ex k'] show ?thesis
  proof (elim disjE exE conjE)
    fix e assume "Config h b self k ep ex = Inl e" "Config h b self k' ep ex = Inl e"
    then show ?thesis by (auto simp: eq with_service_def)
  next
    fix c c' assume c: "Config h b self k ep ex = Inr c" "Config h b self k' ep ex = Inr c'" "alike c c'"
    with d have m: "mg_new mg c = mg_new mg c'" "rel E (low E) (mg_stop mg c) (mg_stop mg c') (low E)"
      "rel E (low E) (mg_uninstall mg c) (mg_uninstall mg c') (low E)"
      "rel E (low E) (mg_start mg c) (mg_start mg c') (low E)"
      "rel E (low E) (mg_install mg c) (mg_install mg c') (unit_written E (unit_of h c))"
      by (simp_all add: discreet_def)
    have "rel E (low E)
       (steps [ignoring (mg_stop mg c), ignoring (mg_uninstall mg c), wrap ''install'' (mg_install mg c),
         wrap ''secure unit file'' (SecureUnitFile h b), wrap ''start'' (mg_start mg c),
         say_status mg c (arrow @ ''installed and started '') b, hint_step h b])
       (steps [ignoring (mg_stop mg c'), ignoring (mg_uninstall mg c'), wrap ''install'' (mg_install mg c'),
         wrap ''secure unit file'' (SecureUnitFile h b), wrap ''start'' (mg_start mg c'),
         say_status mg c' (arrow @ ''installed and started '') b, hint_step h b]) (low E)"
      by (rule rel_Cons [OF rel_ignoring [OF m(2)]], rule rel_Cons [OF rel_ignoring [OF m(3)]],
          rule rel_Cons [OF rel_wrap [OF m(5)]], rule rel_Cons [OF rel_wrap [OF secure_hides [OF host c(1)]]],
          rule rel_Cons [OF rel_wrap [OF m(4)]], rule rel_Cons [OF rel_say_status [OF d c(3)]],
          rule rel_Cons [OF rel_hint rel_Nil])
    with c(1,2) m(1) show ?thesis by (cases "mg_new mg c") (auto simp: eq with_service_def simp del: steps.simps split: option.split)
  qed
qed

section \<open>The installation\<close>

lemma try_hides:
  assumes "discreet E h mg" "ho_os h = Linux" "unit_writable h" "''supervisor'' \<notin> set bs" "low E w w'"
  shows "fst (try_backends h mg self k ep ex bs skipped w) = fst (try_backends h mg self k' ep ex bs skipped w') \<and>
    low E (snd (try_backends h mg self k ep ex bs skipped w)) (snd (try_backends h mg self k' ep ex bs skipped w'))"
  using assms(4,5)
proof (induction bs arbitrary: skipped w w')
  case (Cons b bs)
  let ?w = "snd (say (arrow @ ''trying backend='' @ b) w)" and ?w' = "snd (say (arrow @ ''trying backend='' @ b) w')"
  have l: "low E ?w ?w'" by (rule low_say [OF Cons.prems(2)])
  have IH: "low E v v' \<Longrightarrow> fst (try_backends h mg self k ep ex bs sk v) = fst (try_backends h mg self k' ep ex bs sk v') \<and>
      low E (snd (try_backends h mg self k ep ex bs sk v)) (snd (try_backends h mg self k' ep ex bs sk v'))" for sk v v'
    using Cons.IH Cons.prems(1) by simp
  from rel_low [OF installOne_hides [OF assms(1-3)] l, of b self k ep ex k'] Cons.prems(1)
  have one: "fst (installOne h mg b self k ep ex ?w) = fst (installOne h mg b self k' ep ex ?w')"
    "low E (snd (installOne h mg b self k ep ex ?w)) (snd (installOne h mg b self k' ep ex ?w'))" by auto
  show ?case
  proof (cases "PlatformPreInstall h b")
    case None
    from one IH [OF low_say [OF one(2)]] None show ?thesis
      by (cases "installOne h mg b self k ep ex ?w"; cases "installOne h mg b self k' ep ex ?w'")
        (auto simp: Let_def split: option.split)
  next
    case (Some e)
    with IH [OF low_say [OF l]] show ?thesis by (simp add: Let_def)
  qed
qed simp

lemma before_say: "before_env E self w w' \<Longrightarrow> before_env E self (snd (say s w)) (snd (say s w'))"
  by (simp add: before_env_def low_say) (simp add: say_def)


text \<open>A manager that writes the environment into the unit, and a host with and without the user's systemd.\<close>

definition sample_host :: "bool \<Rightarrow> host" where
  "sample_host ctl = \<lparr>ho_os = Linux, ho_root = True, ho_elevated = True, ho_inPath = (\<lambda>p. ctl), ho_home = Some ''/root'',
     ho_denied = (\<lambda>_. False)\<rparr>"

definition unit_text :: "svc_config \<Rightarrow> string" where
  "unit_text c = concat (map (\<lambda>(k, v). ''Environment='' @ k @ ''='' @ v @ [nl]) (sg_EnvVars c))"

definition sample_manager :: "bool \<Rightarrow> unit manager" where
  "sample_manager enables = \<lparr>mg_new = (\<lambda>_. None), mg_status = (\<lambda>_ _. (StatusRunning, None)), mg_stop = (\<lambda>_ w. (None, w)),
     mg_start = (\<lambda>_ w. (None, w)), mg_restart = (\<lambda>_ w. (None, w)),
     mg_install = (\<lambda>c w. (if enables then None else Some ''exit status 1'',
        put_node (unit_of (sample_host True) c) (FileNode mode_644 (unit_text c)) w)),
     mg_uninstall = (\<lambda>_ w. (None, w)), mg_run = (\<lambda>_ w. (None, w)), mg_output = (\<lambda>_ _. [])\<rparr>"

definition sample_world :: "unit machine" where
  "sample_world = \<lparr>wo_files = Map.empty, wo_mgr = (), wo_out = []\<rparr>"

lemma sample_discreet: "discreet (\<lambda>_ _. True) (sample_host ctl) (sample_manager True)"
proof -
  have u: "unit_of (sample_host True) c' = unit_of (sample_host ctl) c" if "alike c c'" for c c'
  proof -
    have "sg_UserService c' = sg_UserService (c\<lparr>sg_EnvVars := sg_EnvVars c'\<rparr>)"
      using arg_cong [OF that [unfolded alike_def], of sg_UserService] .
    then have "sg_UserService c' = sg_UserService c" by simp
    then show ?thesis by (simp add: unit_of_def sample_host_def)
  qed
  have i: "unit_of (sample_host True) c = unit_of (sample_host ctl) c" for c by (simp add: unit_of_def sample_host_def)
  show ?thesis
    using u i by (auto simp: discreet_def sample_manager_def rel_def unit_written_def put_node_def forget_def low_def)
qed


text \<open>
  Discretion is needed: a manager whose installation fails after it wrote the unit leaves the
  key in a file that anyone can read, for the mode is only set after a success.
\<close>

lemma failed_install_leaks:
  "(case doInstall (sample_host False) (sample_manager False) (Some ''/w'') ''tuk_a'' ''http://s/ingest'' [] sample_world of
      (err, w) \<Rightarrow> err \<noteq> None \<and> wo_files w system_unit =
        Some (FileNode mode_644 (''Environment=TOKENUSAGE_API_KEY=tuk_a'' @ nl # ''Environment=TOKENUSAGE_ENDPOINT=http://s/ingest'' @ [nl])))"
  by code_simp

text \<open>
  A backend that fails on the way is left as it is when the next one is tried: supervisord's
  program stays, beside the unit that was installed, and the watcher is run twice.
\<close>

lemma fallback_leaves_program:
  "(case doInstall (sample_host True)
        ((sample_manager True)\<lparr>mg_run := (\<lambda>args w. (if ''restart'' \<in> set args then Some ''exit status 1'' else None, w))\<rparr>)
        (Some ''/w'') ''tuk_a'' ''http://s/ingest'' []
        (sample_world\<lparr>wo_files := [''/w'' \<mapsto> FileNode mode_755 ''ELF'']\<rparr>) of
      (err, w) \<Rightarrow> err = None \<and> wo_files w system_unit \<noteq> None \<and>
        wo_files w ''/etc/supervisor/conf.d/token-usage-watcher.conf'' \<noteq> None)"
  by code_simp

end
