(* ===== verification/Entry.thy ===== *)
theory Entry
  imports Delivery Admin Crypto
begin

text \<open>
  The two programs from their command line: the flags and their defaults (\<open>cmd/watcher/main.go\<close>,
  \<open>BindRunFlags\<close> of \<open>cli/run.go\<close>, \<open>cmd/server/main.go\<close>), and the dashboard page that the server
  prepares at its start (\<open>server/web.go\<close>). What \<open>cobra\<close> does to the flags is a function from their
  defaults to their values, or none for a command line it refuses.
\<close>

section \<open>The watcher\<close>

type_synonym getenv = "string \<Rightarrow> string"

definition envOr :: "getenv \<Rightarrow> string \<Rightarrow> string \<Rightarrow> string" where
  "envOr env k fallback = (if env k \<noteq> [] then env k else fallback)"

definition BindRunFlags :: "getenv \<Rightarrow> string \<Rightarrow> string \<Rightarrow> RunConfig" where
  "BindRunFlags env defaultRoot stateDir =
     \<lparr>rc_Sources = [], rc_Root = defaultRoot, rc_Tool = envOr env ''TOKENUSAGE_TOOL'' ''claude-code'',
      rc_Endpoint = envOr env ''TOKENUSAGE_ENDPOINT'' ''http://localhost:8080/ingest'',
      rc_APIKey = env ''TOKENUSAGE_API_KEY'',
      rc_Checkpoint = path_join_all [stateDir, ''checkpoint.json''],
      rc_BufferDir = path_join_all [stateDir, ''buffer''],
      rc_Interval = 5 * ns_per_sec, rc_Batch = 200, rc_BackfillCutoff = 3600 * ns_per_sec, rc_Once = False\<rparr>"

text \<open>The home directory: the environment's, or that of the password file.\<close>

definition watcher_home :: "host \<Rightarrow> string option \<Rightarrow> string" where
  "watcher_home h passwd =
     (if home_or_empty h = [] then (case passwd of Some d \<Rightarrow> d | None \<Rightarrow> []) else home_or_empty h)"

definition stateDir :: "string \<Rightarrow> string" where
  "stateDir home = path_join_all [home, ''.token-usage-watcher'']"

text \<open>The parsed flags, with whether \<open>--root\<close> or \<open>--tool\<close> was among them; the exit status is that of the result.\<close>

type_synonym run_flags = "RunConfig \<Rightarrow> (RunConfig \<times> bool) option"

definition watcher_root ::
    "host \<Rightarrow> string option \<Rightarrow> getenv \<Rightarrow> run_flags \<Rightarrow> (string \<Rightarrow> start_env) \<Rightarrow> decompressor \<Rightarrow> 'w net \<Rightarrow> tick_env list \<Rightarrow>
     ckpt_disk \<Rightarrow> 'w \<times> dir \<Rightarrow> string + tick_end list \<times> 'w watcher_state" where
  "watcher_root h passwd env parse start unzstd net es dk wd =
     (let home = watcher_home h passwd in
      case parse (BindRunFlags env (path_join_all [home, ''.claude'', ''projects'']) (stateDir home)) of
        None \<Rightarrow> Inl ''flags''
      | Some (cfg, flagged) \<Rightarrow>
          DoRun ((start (rc_Checkpoint cfg))\<lparr>an_changed := flagged, an_home := home\<rparr>) cfg unzstd net es dk wd)"

definition exit_status :: "string + 'a \<Rightarrow> int" where
  "exit_status r = (case r of Inl _ \<Rightarrow> 1 | Inr _ \<Rightarrow> 0)"

text \<open>Without a key in the environment or on the command line the watcher does not start.\<close>

lemma watcher_needs_key:
  assumes "env ''TOKENUSAGE_API_KEY'' = []" "parse = (\<lambda>cfg. Some (cfg, flagged))"
  shows "exit_status (watcher_root h passwd env parse start unzstd net es dk wd) = 1"
  using assms
  by (auto simp: exit_status_def watcher_root_def Let_def DoRun_def start_watcher_def BindRunFlags_def split: option.split)

text \<open>
  \<open>cleanup\<close> looks for the state in the environment's home only: it is the watcher's own directory
  where there is one, and another one where the watcher took its home from the password file.
\<close>

lemma cleanup_same_dir: "home_or_empty h \<noteq> [] \<Longrightarrow> cleanup_dir h [] = stateDir (watcher_home h passwd)"
  by (simp add: cleanup_dir_def stateDir_def watcher_home_def)

lemma cleanup_other_dir:
  assumes "ho_home h = None"
  shows "cleanup_dir h [] = ''.token-usage-watcher'' \<and>
    stateDir (watcher_home h (Some ''/root'')) = ''/root/.token-usage-watcher''"
proof -
  have "path_join_all [[], ''.token-usage-watcher''] = ''.token-usage-watcher''"
    "path_join_all [''/root'', ''.token-usage-watcher''] = ''/root/.token-usage-watcher''" by code_simp+
  with assms show ?thesis by (simp add: cleanup_dir_def stateDir_def watcher_home_def home_or_empty_def)
qed

section \<open>The server\<close>

record server_flags =
  sf_dsn :: string
  sf_addr :: string
  sf_pricing :: string
  sf_rebuildToday :: duration
  sf_rebuildDeepHour :: int
  sf_rebuildDeepDays :: int
  sf_priceSyncEvery :: duration
  sf_priceSource :: string

definition server_defaults :: "getenv \<Rightarrow> server_flags" where
  "server_defaults env =
     \<lparr>sf_dsn = env ''TOKENUSAGE_DSN'', sf_addr = '':8080'', sf_pricing = env ''TOKENUSAGE_PRICING'',
      sf_rebuildToday = 600 * ns_per_sec, sf_rebuildDeepHour = 8, sf_rebuildDeepDays = 3,
      sf_priceSyncEvery = 12 * 3600 * ns_per_sec, sf_priceSource = DefaultPriceSourceURL\<rparr>"

text \<open>The check before every command of the program, administration included.\<close>

datatype main_error = BadFlags | NoDSN | StartFailed start_error

definition require_dsn :: "server_flags \<Rightarrow> main_error option" where
  "require_dsn fl = (if sf_dsn fl = [] then Some NoDSN else None)"

definition server_worker :: "server_flags \<Rightarrow> worker" where
  "server_worker fl =
     \<lparr>wk_TodayEvery = sf_rebuildToday fl, wk_DeepHour = sf_rebuildDeepHour fl, wk_DeepDays = sf_rebuildDeepDays fl,
      wk_PriceEvery = sf_priceSyncEvery fl, wk_PriceSource = sf_priceSource fl\<rparr>"

definition server_root ::
    "getenv \<Rightarrow> (server_flags \<Rightarrow> server_flags option) \<Rightarrow> bool \<Rightarrow> bool \<Rightarrow> (string \<Rightarrow> (string \<times> rate) list option) \<Rightarrow> server_state \<Rightarrow>
     (main_error + pricer \<times> worker_loop list) \<times> server_state" where
  "server_root env parse up seedUp read_rates st =
     (case parse (server_defaults env) of
        None \<Rightarrow> (Inl BadFlags, st)
      | Some fl \<Rightarrow>
          (case require_dsn fl of
             Some e \<Rightarrow> (Inl e, st)
           | None \<Rightarrow>
               (case runServer up seedUp (if sf_pricing fl = [] then None else Some (read_rates (sf_pricing fl)))
                       (server_worker fl) st of
                  (Inl e, st') \<Rightarrow> (Inl (StartFailed e), st')
                | (Inr s, st') \<Rightarrow> (Inr s, st'))))"

text \<open>By default all three loops run.\<close>

lemma default_loops:
  assumes "env ''TOKENUSAGE_DSN'' \<noteq> []" "env ''TOKENUSAGE_PRICING'' = []" "fst (NewStore True st) = True"
  shows "\<exists>pr. fst (server_root env Some True seedUp read_rates st) = Inr (pr, [TodayLoop, DeepLoop, PriceLoop])"
  using assms
  by (cases "NewStore True st")
    (simp add: server_root_def require_dsn_def server_defaults_def runServer_def NewPricer_def server_worker_def Start_def)

section \<open>The dashboard page\<close>

text \<open>\<open>bytes.ReplaceAll\<close> of a text that is not empty.\<close>

fun replace_all :: "string \<Rightarrow> string \<Rightarrow> string \<Rightarrow> string" where
  "replace_all old new [] = []"
| "replace_all old new (c # s) =
     (if old \<noteq> [] \<and> has_prefix (c # s) old then new @ replace_all old new (drop (length old - 1) s)
      else c # replace_all old new s)"

text \<open>The stamp of the files under \<open>static\<close>, given in the order in which they are walked.\<close>

definition assetsVersion :: "(string \<times> string) list \<Rightarrow> string" where
  "assetsVersion files =
     take 10 (hex_encode (sha256 (map byte_of (concat (map (\<lambda>(p, b). p @ char_of (0 :: int) # b) files)))))"

definition index_bytes :: "(string \<times> string) list \<Rightarrow> string \<Rightarrow> string" where
  "index_bytes files rawIndex =
     (let ver = assetsVersion files;
          page = replace_all (''/static/app.js'' @ [dquote]) (''/static/app.js?v='' @ ver @ [dquote]) rawIndex
      in replace_all (''/static/styles.css'' @ [dquote]) (''/static/styles.css?v='' @ ver @ [dquote]) page)"

lemma replace_all_absent: "\<not> contains s old \<Longrightarrow> replace_all old new s = s"
  by (induction s) (auto simp: contains_def split: if_splits)

text \<open>Another stamp is another page wherever the page refers to the file.\<close>

lemma replace_all_inj:
  assumes "contains s old" "old \<noteq> []" "length v = length v'" "v \<noteq> v'"
  shows "replace_all old (pre @ v @ suf) s \<noteq> replace_all old (pre @ v' @ suf) s"
  using assms(1)
proof (induction s)
  case Nil
  with assms(2) show ?case by (simp add: contains_def)
next
  case (Cons c s)
  show ?case
  proof (cases "has_prefix (c # s) old")
    case True
    with assms(2-4) show ?thesis by simp
  next
    case False
    with Cons.prems have "contains s old" by (simp add: contains_def)
    with Cons.IH False show ?thesis by simp
  qed
qed

end
