(* ===== verification/Lifecycle.thy ===== *)
theory Lifecycle
  imports Run
begin

text \<open>
  The watcher's process under a console and under a service manager (\<open>cli/run_service.go\<close>): how
  the loop of \<open>Run\<close> is stopped. The instant at which signals and clock ticks arrive is given with
  each tick; the goroutines meet nowhere but in the cancelled context and the closed channel.
\<close>

section \<open>On a console\<close>

text \<open>
  For each tick: what it meets, the number of interrupts that arrived by its end, and what the
  \<open>select\<close> after it picks when it has to wait, the clock's tick or the end of the context. With the
  context still open it can only be the clock; with both ready it may be either.
\<close>

record pause =
  pz_env :: tick_env
  pz_signals :: nat
  pz_ticked :: bool

datatype process_end = Running | Returned | Panic | Exit int

text \<open>The second interrupt ends the process wherever the loop is; its tick is one that was cut short.\<close>

fun console_loop ::
    "'w watcher \<Rightarrow> bool \<Rightarrow> pause list \<Rightarrow> 'w watcher_state \<Rightarrow> process_end \<times> tick_end list \<times> 'w watcher_state" where
  "console_loop a once [] st = (Running, [], st)"
| "console_loop a once (z # zs) st =
     (case runOnce a (pz_env z) st of
        (fin, st') \<Rightarrow>
          if 2 \<le> pz_signals z then (Exit 130, [fin], st')
          else if fin = Panicked then (Panic, [fin], st')
          else if once then (Returned, [fin], st')
          else if 1 \<le> pz_signals z \<and> \<not> pz_ticked z then (Returned, [fin], st')
          else (case console_loop a once zs st' of (r, fins, st'') \<Rightarrow> (r, fin # fins, st'')))"

text \<open>However the process is stopped, it did what the loop does in some number of its ticks.\<close>

lemma console_loop_is_watch_loop:
  "\<exists>n. snd (console_loop a once zs st) = watch_loop a once (take n (map pz_env zs)) st"
proof (induction zs arbitrary: st)
  case (Cons z zs)
  obtain fin st' where r: "runOnce a (pz_env z) st = (fin, st')" by force
  have one: "([fin], st') = watch_loop a once (take 1 (map pz_env (z # zs))) st" by (simp add: r)
  show ?case
  proof (cases "2 \<le> pz_signals z \<or> fin = Panicked \<or> once \<or> 1 \<le> pz_signals z \<and> \<not> pz_ticked z")
    case True
    then have "snd (console_loop a once (z # zs) st) = ([fin], st')" by (auto simp: r)
    with one show ?thesis by metis
  next
    case False
    from Cons.IH [of st'] obtain n where n: "snd (console_loop a once zs st') = watch_loop a once (take n (map pz_env zs)) st'" ..
    have "snd (console_loop a once (z # zs) st) = watch_loop a once (take (Suc n) (map pz_env (z # zs))) st"
      using False n by (auto simp: r split: prod.split)
    then show ?thesis by blast
  qed
qed simp

text \<open>One interrupt is enough once the clock does not win again, and the tick under way is finished.\<close>

lemma interrupted_returns:
  assumes "\<forall>z \<in> set zs. pz_signals z < 2" "z \<in> set zs" "1 \<le> pz_signals z" "\<not> pz_ticked z"
  shows "fst (console_loop a once zs st) \<in> {Returned, Panic}"
  using assms
proof (induction zs arbitrary: st)
  case (Cons y zs)
  obtain fin st' where r: "runOnce a (pz_env y) st = (fin, st')" by force
  have lt: "pz_signals y < 2" using Cons.prems(1) by simp
  show ?case
  proof (cases "fin = Panicked \<or> once \<or> 1 \<le> pz_signals y \<and> \<not> pz_ticked y")
    case True
    with lt show ?thesis by (auto simp: r)
  next
    case False
    with Cons.prems have "z \<in> set zs" by auto
    with Cons.IH [OF _ this Cons.prems(3,4), of st'] Cons.prems(1)
    have "fst (console_loop a once zs st') \<in> {Returned, Panic}" by simp
    moreover have "fst (console_loop a once (y # zs) st) = fst (console_loop a once zs st')"
      using False lt by (auto simp: r split: prod.split)
    ultimately show ?thesis by simp
  qed
qed simp

section \<open>Under a service manager\<close>

text \<open>
  The adapter: whether it was started, whether its context is cancelled, whether its loop has
  closed the channel. \<open>Stop\<close> waits for the channel, at most fifteen seconds.
\<close>

record serviceRunner =
  sr_started :: bool
  sr_cancelled :: bool
  sr_done :: bool

definition new_runner :: serviceRunner where
  "new_runner = \<lparr>sr_started = False, sr_cancelled = False, sr_done = False\<rparr>"

definition runner_Start :: "serviceRunner \<Rightarrow> serviceRunner" where
  "runner_Start r = \<lparr>sr_started = True, sr_cancelled = False, sr_done = False\<rparr>"

text \<open>The loop's own end: its error is logged unless it is the cancellation.\<close>

definition runner_ends :: "string option \<Rightarrow> serviceRunner \<Rightarrow> string list \<times> serviceRunner" where
  "runner_ends err r =
     (case err of
        Some e \<Rightarrow> if e \<noteq> ''context canceled'' then [''watcher loop exited: '' @ e] else []
      | None \<Rightarrow> [], r\<lparr>sr_done := True\<rparr>)"

text \<open>\<open>drains\<close>: how the loop ends within the fifteen seconds, or that it does not.\<close>

definition runner_Stop :: "string option option \<Rightarrow> serviceRunner \<Rightarrow> string list \<times> serviceRunner" where
  "runner_Stop drains r0 =
     (let r = (if sr_started r0 then r0\<lparr>sr_cancelled := True\<rparr> else r0) in
      if sr_done r then ([], r)
      else (case (sr_started r, drains) of
         (True, Some err) \<Rightarrow> runner_ends err r
       | _ \<Rightarrow> ([''watcher loop didn'' @ [CHR 0x27] @ ''t drain in 15s; abandoning''], r)))"

definition trim_newlines :: "string \<Rightarrow> string" where
  "trim_newlines s = rev (dropWhile (\<lambda>c. c = nl) (rev s))"

text \<open>\<open>serviceLogWriter\<close>: the entry written, and the number of bytes taken.\<close>

definition log_write :: "string \<Rightarrow> string \<times> nat" where
  "log_write p = (trim_newlines p, length p)"

text \<open>A runner that was started and stopped is cancelled, and silent when its loop just drained.\<close>

lemma start_stop:
  "runner_Stop (Some None) (runner_Start r) = ([], \<lparr>sr_started = True, sr_cancelled = True, sr_done = True\<rparr>)"
  by (simp add: runner_Stop_def runner_Start_def runner_ends_def)

lemma stop_idempotent:
  assumes "snd (runner_Stop drains r) = r'" "sr_done r'" "sr_started r \<longrightarrow> sr_started r'"
  shows "runner_Stop drains' r' = ([], r')"
  using assms
  by (auto simp: runner_Stop_def runner_ends_def Let_def split: if_splits option.splits prod.splits bool.splits)

end
