(* ===== verification/Spec2Isabelle.thy ===== *)
theory Spec2Isabelle
  imports Delivery Ledger Admin Secrets Entry Lifecycle
begin

text \<open>
  Token-usage: the watchers' transcript parsers and the server's ingest, modelled from the
  Go sources.
\<close>

end
